(* ===== verification/Prelude.thy ===== *)
theory Prelude
  imports
    Main
    "HOL-Library.Word"
    "HOL-Library.AList"
    "HOL-Library.Sublist"
    "HOL-Library.Char_ord"
    "HOL-Library.List_Lexorder"
    "HOL-Library.Product_Lexorder"
    "HOL-Library.Option_ord"
    "HOL-Library.Code_Target_Nat"
begin

text \<open>
  The vocabulary shared by every component: Rust results and the effectful computations that
  return them, \<open>u64\<close> arithmetic, strings as UTF-8 byte sequences with the standard library
  operations the sources call on them, and the number formatting and parsing that object names use.

  Conventions. A Rust \<open>String\<close>, \<open>&str\<close>, \<open>Vec<u8>\<close> or \<open>&[u8]\<close> is a \<open>char list\<close>: an Isabelle
  \<open>char\<close> is one byte. A \<open>u64\<close> is a \<open>64 word\<close>. A \<open>Result<T>\<close> is \<open>error + 'a\<close>.
  A computation with effects on a world of type \<open>'w\<close> is a function \<open>'w \<Rightarrow> 'a result \<times> 'w\<close>, so that
  an early return with an error keeps the effects already made.
\<close>

named_theorems result_simps \<open>inversion of successful and failed results\<close>
named_theorems eff_simps \<open>inversion of successful and failed effectful computations\<close>

section \<open>Results\<close>

text \<open>
  The errors of the sources: a message, a gRPC status, an HTTP status, or one of the error types that
  callers inspect. \<open>Diverged\<close> is no value of the code: it marks a loop that has used up its bound on the
  number of iterations.
\<close>

datatype status_code =
  InvalidArgument | NotFound | PermissionDenied | Unauthenticated | Unavailable | Unimplemented

datatype error =
  Msg string | Status status_code string | Http nat | RegionConflict | InvalidTraceQuery | Diverged

type_synonym bytes = "char list"
type_synonym 'a result = "error + 'a"

abbreviation Ok :: "'a \<Rightarrow> 'a result" where "Ok \<equiv> Inr"
abbreviation Err :: "error \<Rightarrow> 'a result" where "Err \<equiv> Inl"

definition ensure :: "bool \<Rightarrow> string \<Rightarrow> unit result" where
  "ensure b m = (if b then Ok () else Err (Msg m))"

definition ok_or :: "'a option \<Rightarrow> string \<Rightarrow> 'a result" where
  "ok_or x m = (case x of None \<Rightarrow> Err (Msg m) | Some y \<Rightarrow> Ok y)"

definition bindR :: "'a result \<Rightarrow> ('a \<Rightarrow> 'b result) \<Rightarrow> 'b result" where
  "bindR r f = (case r of Inl e \<Rightarrow> Inl e | Inr x \<Rightarrow> f x)"

definition is_ok :: "'a result \<Rightarrow> bool" where
  "is_ok r = (case r of Inl _ \<Rightarrow> False | Inr _ \<Rightarrow> True)"

fun all_ok :: "'a result list \<Rightarrow> 'a list result" where
  "all_ok [] = Ok []"
| "all_ok (r # rs) = bindR r (\<lambda>x. bindR (all_ok rs) (\<lambda>xs. Ok (x # xs)))"

lemma bindR_simps [simp]: "bindR (Inl e) f = Inl e" "bindR (Inr x) f = f x"
  by (simp_all add: bindR_def)

lemma is_ok_simps [simp]: "is_ok (Inr x)" "\<not> is_ok (Inl e)"
  by (simp_all add: is_ok_def)

lemma map_filter_mem: "y \<in> set (List.map_filter f xs) \<Longrightarrow> \<exists>x \<in> set xs. f x = Some y"
  by (auto simp: map_filter_def)

lemma is_okE: "is_ok x \<Longrightarrow> \<exists>y. x = Inr y"
  by (cases x) simp_all

lemma bindR_Ok [result_simps]: "bindR r f = Inr y \<longleftrightarrow> (\<exists>x. r = Inr x \<and> f x = Inr y)"
  by (cases r) auto

lemma bindR_Err [result_simps]:
  "bindR r f = Inl e \<longleftrightarrow> r = Inl e \<or> (\<exists>x. r = Inr x \<and> f x = Inl e)"
  by (cases r) auto

lemma ensure_Ok [result_simps]: "ensure b m = Inr u \<longleftrightarrow> b"
  by (simp add: ensure_def)

lemma ensure_Err [result_simps]: "ensure b m = Inl e \<longleftrightarrow> \<not> b \<and> e = Msg m"
  by (auto simp: ensure_def)

lemma ensure_True [simp]: "ensure True m = Inr ()"
  by (simp add: ensure_def)

lemma ensure_False [simp]: "ensure False m = Inl (Msg m)"
  by (simp add: ensure_def)

lemma ok_or_Ok [result_simps]: "ok_or x m = Inr y \<longleftrightarrow> x = Some y"
  by (auto simp: ok_or_def split: option.splits)

lemma ok_or_Err [result_simps]: "ok_or x m = Inl e \<longleftrightarrow> x = None \<and> e = Msg m"
  by (auto simp: ok_or_def split: option.splits)

lemma ok_or_simps [simp]: "ok_or (Some y) m = Inr y" "ok_or None m = Inl (Msg m)"
  by (simp_all add: ok_or_def)

section \<open>Effectful computations\<close>

type_synonym ('w, 'a) eff = "'w \<Rightarrow> 'a result \<times> 'w"

definition retE :: "'a \<Rightarrow> ('w, 'a) eff" where
  "retE x = (\<lambda>w. (Ok x, w))"

definition liftE :: "'a result \<Rightarrow> ('w, 'a) eff" where
  "liftE r = (\<lambda>w. (r, w))"

definition failE :: "string \<Rightarrow> ('w, 'a) eff" where
  "failE m = (\<lambda>w. (Err (Msg m), w))"

definition getE :: "('w \<Rightarrow> 'a) \<Rightarrow> ('w, 'a) eff" where
  "getE f = (\<lambda>w. (Ok (f w), w))"

definition modE :: "('w \<Rightarrow> 'w) \<Rightarrow> ('w, unit) eff" where
  "modE f = (\<lambda>w. (Ok (), f w))"

definition bindE :: "('w, 'a) eff \<Rightarrow> ('a \<Rightarrow> ('w, 'b) eff) \<Rightarrow> ('w, 'b) eff" where
  "bindE m f = (\<lambda>w. case m w of (Inl e, w') \<Rightarrow> (Inl e, w') | (Inr x, w') \<Rightarrow> f x w')"

text \<open>\<open>tryE\<close> hands the result of a call to the caller, as a Rust \<open>match\<close> on it does.\<close>

definition tryE :: "('w, 'a) eff \<Rightarrow> ('w, 'a result) eff" where
  "tryE m = (\<lambda>w. case m w of (r, w') \<Rightarrow> (Ok r, w'))"

fun forE :: "'a list \<Rightarrow> ('a \<Rightarrow> ('w, 'b) eff) \<Rightarrow> ('w, 'b list) eff" where
  "forE [] f = retE []"
| "forE (x # xs) f = bindE (f x) (\<lambda>y. bindE (forE xs f) (\<lambda>ys. retE (y # ys)))"

text \<open>
  \<open>map_errE\<close> is Rust's \<open>map_err\<close>. \<open>zoomE\<close> runs a computation on a part of the state, and \<open>joinE\<close> the tasks of
  a \<open>JoinSet\<close> in the order in which they complete, a failed task giving its error to the caller.
\<close>

definition map_errE :: "(error \<Rightarrow> error) \<Rightarrow> ('w, 'a) eff \<Rightarrow> ('w, 'a) eff" where
  "map_errE f m = (\<lambda>w. case m w of (Inl e, w') \<Rightarrow> (Inl (f e), w') | (Inr x, w') \<Rightarrow> (Inr x, w'))"

definition zoomE :: "('w \<Rightarrow> 'v) \<Rightarrow> ('v \<Rightarrow> 'w \<Rightarrow> 'w) \<Rightarrow> ('v, 'a) eff \<Rightarrow> ('w, 'a) eff" where
  "zoomE g p m = (\<lambda>w. case m (g w) of (r, v) \<Rightarrow> (r, p v w))"

definition joinE :: "('a \<Rightarrow> ('w, 'b) eff) \<Rightarrow> 'a list \<Rightarrow> ('w, 'b result list) eff" where
  "joinE f xs = forE xs (\<lambda>x. tryE (f x))"

definition map_errR :: "(error \<Rightarrow> error) \<Rightarrow> 'a result \<Rightarrow> 'a result" where
  "map_errR f r = (case r of Inl e \<Rightarrow> Inl (f e) | Inr x \<Rightarrow> Inr x)"

lemma map_errR_Ok [result_simps]: "map_errR f r = Inr x \<longleftrightarrow> r = Inr x"
  by (cases r) (simp_all add: map_errR_def)

lemma map_errR_Err [result_simps]: "map_errR f r = Inl e \<longleftrightarrow> (\<exists>e0. r = Inl e0 \<and> e = f e0)"
  by (cases r) (auto simp: map_errR_def)

lemma map_errE_Ok [eff_simps]: "map_errE f m w = (Inr x, w') \<longleftrightarrow> m w = (Inr x, w')"
  by (auto simp: map_errE_def split: prod.splits sum.splits)

lemma map_errE_Err [eff_simps]: "map_errE f m w = (Inl e, w') \<longleftrightarrow> (\<exists>e0. m w = (Inl e0, w') \<and> e = f e0)"
  by (auto simp: map_errE_def split: prod.splits sum.splits)

lemma map_errE_step [simp]:
  "m w = (Inr x, w1) \<Longrightarrow> map_errE f m w = (Inr x, w1)"
  "m w = (Inl e, w1) \<Longrightarrow> map_errE f m w = (Inl (f e), w1)"
  by (simp_all add: map_errE_def)

lemma zoomE_eq [eff_simps]: "zoomE g p m w = (r, w') \<longleftrightarrow> (\<exists>v. m (g w) = (r, v) \<and> w' = p v w)"
  by (auto simp: zoomE_def split: prod.splits)

lemma zoomE_step [simp]: "m (g w) = (r, v) \<Longrightarrow> zoomE g p m w = (r, p v w)"
  by (simp add: zoomE_def)

lemma bindE_Ok [eff_simps]:
  "bindE m f w = (Inr y, w') \<longleftrightarrow> (\<exists>x w1. m w = (Inr x, w1) \<and> f x w1 = (Inr y, w'))"
  by (auto simp: bindE_def split: prod.splits sum.splits)

lemma bindE_Err [eff_simps]:
  "bindE m f w = (Inl e, w') \<longleftrightarrow>
     m w = (Inl e, w') \<or> (\<exists>x w1. m w = (Inr x, w1) \<and> f x w1 = (Inl e, w'))"
  by (auto simp: bindE_def split: prod.splits sum.splits)

lemma retE_eq [eff_simps]: "retE x w = (r, w') \<longleftrightarrow> r = Inr x \<and> w' = w"
  by (auto simp: retE_def)

lemma liftE_eq [eff_simps]: "liftE r w = (r', w') \<longleftrightarrow> r' = r \<and> w' = w"
  by (auto simp: liftE_def)

lemma failE_eq [eff_simps]: "failE m w = (r, w') \<longleftrightarrow> r = Inl (Msg m) \<and> w' = w"
  by (auto simp: failE_def)

lemma getE_eq [eff_simps]: "getE f w = (r, w') \<longleftrightarrow> r = Inr (f w) \<and> w' = w"
  by (auto simp: getE_def)

lemma modE_eq [eff_simps]: "modE f w = (r, w') \<longleftrightarrow> r = Inr () \<and> w' = f w"
  by (auto simp: modE_def)

lemma tryE_eq [eff_simps]: "tryE m w = (r, w') \<longleftrightarrow> (\<exists>r0. m w = (r0, w') \<and> r = Inr r0)"
  by (auto simp: tryE_def split: prod.splits)

lemma bindE_step [simp]:
  "m w = (Inr x, w1) \<Longrightarrow> bindE m f w = f x w1"
  "m w = (Inl e, w1) \<Longrightarrow> bindE m f w = (Inl e, w1)"
  by (simp_all add: bindE_def)

lemma eff_apply [simp]:
  "retE x w = (Inr x, w)" "liftE r w = (r, w)" "failE m w = (Inl (Msg m), w)"
  "getE f w = (Inr (f w), w)" "modE g w = (Inr (), g w)"
  by (simp_all add: retE_def liftE_def failE_def getE_def modE_def)

lemma bindE_pure [simp]:
  "bindE (liftE (Inr x)) f = f x" "bindE (liftE (Inl e)) f = liftE (Inl e)" "bindE (retE x) f = f x"
  by (simp_all add: bindE_def fun_eq_iff)

lemma tryE_apply: "tryE m w = (Inr (fst (m w)), snd (m w))"
  by (auto simp: tryE_def split: prod.splits)

lemma tryE_step [simp]: "m w = (r, w1) \<Longrightarrow> tryE m w = (Inr r, w1)"
  by (simp add: tryE_def)

text \<open>
  Triples: from a world satisfying \<open>P\<close> the computation ends in \<open>Q\<close> with its result, or in \<open>E\<close> when it
  returns an error. Frame and monotonicity lemmas are triples whose three assertions are the same.
\<close>

named_theorems triple_rules \<open>rules for triples\<close>

definition triple ::
    "('w \<Rightarrow> bool) \<Rightarrow> ('w, 'a) eff \<Rightarrow> ('a \<Rightarrow> 'w \<Rightarrow> bool) \<Rightarrow> ('w \<Rightarrow> bool) \<Rightarrow> bool" where
  "triple P m Q E \<longleftrightarrow>
     (\<forall>w r w'. P w \<longrightarrow> m w = (r, w') \<longrightarrow> (case r of Inl e \<Rightarrow> E w' | Inr x \<Rightarrow> Q x w'))"

lemma tripleI:
  assumes "\<And>w x w'. P w \<Longrightarrow> m w = (Inr x, w') \<Longrightarrow> Q x w'"
    and "\<And>w e w'. P w \<Longrightarrow> m w = (Inl e, w') \<Longrightarrow> E w'"
  shows "triple P m Q E"
  unfolding triple_def using assms by (auto split: sum.split)

lemma tripleD_Ok: "triple P m Q E \<Longrightarrow> P w \<Longrightarrow> m w = (Inr x, w') \<Longrightarrow> Q x w'"
  unfolding triple_def by fastforce

lemma tripleD_Err: "triple P m Q E \<Longrightarrow> P w \<Longrightarrow> m w = (Inl e, w') \<Longrightarrow> E w'"
  unfolding triple_def by fastforce

lemma tripleD: "triple P m (\<lambda>_. Q) Q \<Longrightarrow> P w \<Longrightarrow> m w = (r, w') \<Longrightarrow> Q w'"
  by (cases r) (auto dest: tripleD_Ok tripleD_Err)

lemma triple_snd: "triple (\<lambda>w. w = w0) m (\<lambda>_. Q) Q \<Longrightarrow> Q (snd (m w0))"
  by (rule tripleD [of "\<lambda>w. w = w0" m Q w0 "fst (m w0)"]) simp_all

lemma triple_weaken:
  assumes "triple P m Q E" "\<And>w. P' w \<Longrightarrow> P w" "\<And>x w. Q x w \<Longrightarrow> Q' x w" "\<And>w. E w \<Longrightarrow> E' w"
  shows "triple P' m Q' E'"
  using assms unfolding triple_def by (fastforce split: sum.splits)

lemma triple_assume: "(A \<Longrightarrow> triple P m Q E) \<Longrightarrow> triple (\<lambda>w. P w \<and> A) m Q E"
  unfolding triple_def by blast

lemma triple_bind:
  assumes "triple P m R E" "\<And>x. triple (R x) (f x) Q E"
  shows "triple P (bindE m f) Q E"
  by (rule tripleI) (use assms in \<open>auto simp: eff_simps dest: tripleD_Ok tripleD_Err\<close>)

lemma triple_ret [triple_rules]: "(\<And>w. P w \<Longrightarrow> Q x w) \<Longrightarrow> triple P (retE x) Q E"
  by (simp add: triple_def)

lemma triple_lift [triple_rules]:
  "(\<And>w x. P w \<Longrightarrow> r = Inr x \<Longrightarrow> Q x w) \<Longrightarrow> (\<And>w e. P w \<Longrightarrow> r = Inl e \<Longrightarrow> E w) \<Longrightarrow> triple P (liftE r) Q E"
  by (auto simp: triple_def split: sum.splits)

lemma triple_fail [triple_rules]: "(\<And>w. P w \<Longrightarrow> E w) \<Longrightarrow> triple P (failE m) Q E"
  by (simp add: triple_def)

lemma triple_get [triple_rules]: "(\<And>w. P w \<Longrightarrow> Q (f w) w) \<Longrightarrow> triple P (getE f) Q E"
  by (simp add: triple_def)

lemma triple_mod [triple_rules]: "(\<And>w. P w \<Longrightarrow> Q () (f w)) \<Longrightarrow> triple P (modE f) Q E"
  by (simp add: triple_def)

text \<open>Reading the state and checking a pure result, at the head of a sequence.\<close>

lemma triple_bind_get: "triple (\<lambda>w. w = w0) (g (f w0)) Q E \<Longrightarrow> triple (\<lambda>w. w = w0) (bindE (getE f) g) Q E"
  by (simp add: triple_def bindE_def)

lemma triple_bind_lift:
  assumes "\<And>x. r = Inr x \<Longrightarrow> triple P (g x) Q E" "\<And>w e. P w \<Longrightarrow> r = Inl e \<Longrightarrow> E w"
  shows "triple P (bindE (liftE r) g) Q E"
  by (cases r) (use assms in \<open>auto simp: triple_def bindE_def\<close>)

lemma triple_seq:
  assumes "triple P m (\<lambda>_. R) E" "triple R k Q E"
  shows "triple P (bindE m (\<lambda>_. k)) Q E"
  using assms by (rule triple_bind)

lemma triple_at: "(\<And>w0. P w0 \<Longrightarrow> triple (\<lambda>w. w = w0) m Q E) \<Longrightarrow> triple P m Q E"
  unfolding triple_def by blast

lemma triple_try:
  assumes "triple P m (\<lambda>x. Q (Inr x)) E" "\<And>w e. E w \<Longrightarrow> Q (Inl e) w"
  shows "triple P (tryE m) Q F"
proof (rule tripleI)
  fix w x w' assume "P w" "tryE m w = (Inr x, w')"
  then have "m w = (x, w')" by (simp add: tryE_apply) (metis prod.collapse)
  with \<open>P w\<close> assms show "Q x w'" by (cases x) (auto dest: tripleD_Ok tripleD_Err)
qed (simp add: tryE_apply)

lemma triple_for:
  assumes "\<And>x. x \<in> set xs \<Longrightarrow> triple I (f x) (\<lambda>_. I) E"
  shows "triple I (forE xs f) (\<lambda>_. I) E"
  using assms
proof (induction xs)
  case Nil show ?case unfolding forE.simps by (rule triple_ret)
next
  case (Cons x xs)
  show ?case
    unfolding forE.simps
    by (rule triple_bind, rule Cons.prems, simp, rule triple_bind, rule Cons.IH)
      (auto intro: Cons.prems triple_ret)
qed

section \<open>JSON values\<close>

text \<open>
  \<open>serde_json::Value\<close>: a number is kept as its canonical text, an object as its members in the
  order of its sorted map.
\<close>

datatype json =
  JNull | JBool bool | JNum string | JStr string | JArr "json list" | JObj "(string \<times> json) list"

fun is_object :: "json \<Rightarrow> bool" where
  "is_object (JObj _) = True"
| "is_object _ = False"

fun json_get :: "json \<Rightarrow> string \<Rightarrow> json option" where
  "json_get (JObj ms) k = map_of ms k"
| "json_get _ k = None"

section \<open>Unsigned 64-bit arithmetic\<close>

type_synonym u64 = "64 word"

definition checked_add :: "u64 \<Rightarrow> u64 \<Rightarrow> u64 option" where
  "checked_add a b = (if unat a + unat b < 2 ^ 64 then Some (a + b) else None)"

definition saturating_add :: "u64 \<Rightarrow> u64 \<Rightarrow> u64" where
  "saturating_add a b = (if unat a + unat b < 2 ^ 64 then a + b else 18446744073709551615)"

definition saturating_sub :: "u64 \<Rightarrow> u64 \<Rightarrow> u64" where
  "saturating_sub a b = (if b \<le> a then a - b else 0)"

lemma unat_u64_less [simp]: "unat (a :: u64) < 18446744073709551616"
  using unsigned_less [of a, where ?'a = nat] by simp

lemma unat_checked_add: "checked_add a b = Some c \<Longrightarrow> unat c = unat a + unat b"
  by (auto simp: checked_add_def unat_word_ariths split: if_splits)

lemma checked_add_one_gt: "checked_add a 1 = Some b \<Longrightarrow> a < b"
  by (drule unat_checked_add) (simp add: word_less_nat_alt)

lemma checked_add_one_Suc: "checked_add a 1 = Some b \<Longrightarrow> unat b = Suc (unat a)"
  by (drule unat_checked_add) simp

lemma checked_add_ge: "checked_add a b = Some c \<Longrightarrow> a \<le> c"
  by (drule unat_checked_add) (simp add: word_le_nat_alt)

lemma checked_add_inj: "checked_add a b = Some c \<Longrightarrow> checked_add a' b = Some c \<Longrightarrow> a = a'"
  by (metis add_right_cancel unat_checked_add word_unat_eq_iff)

lemma unat_saturating_sub: "unat (saturating_sub a b) = unat a - unat b"
  by (auto simp: saturating_sub_def unat_sub word_le_nat_alt)

section \<open>Strings as UTF-8 bytes\<close>

abbreviation (input) byte :: "char \<Rightarrow> nat" where "byte c \<equiv> of_char c"

definition starts_with :: "string \<Rightarrow> string \<Rightarrow> bool" where
  "starts_with s p = prefix p s"

definition strip_prefix :: "string \<Rightarrow> string \<Rightarrow> string option" where
  "strip_prefix s p = (if prefix p s then Some (drop (length p) s) else None)"

definition strip_suffix :: "string \<Rightarrow> string \<Rightarrow> string option" where
  "strip_suffix s p = (if suffix p s then Some (take (length s - length p) s) else None)"

text \<open>\<open>str::split\<close> on a character: at least one part, empty parts included.\<close>

fun split_on :: "char \<Rightarrow> string \<Rightarrow> string list" where
  "split_on c [] = [[]]"
| "split_on c (x # xs) =
     (if x = c then [] # split_on c xs
      else (case split_on c xs of [] \<Rightarrow> [[x]] | p # ps \<Rightarrow> (x # p) # ps))"

text \<open>\<open>str::split_once\<close> on a character and \<open>str::replacen\<close> with a count of one.\<close>

fun split_once :: "char \<Rightarrow> string \<Rightarrow> (string \<times> string) option" where
  "split_once c [] = None"
| "split_once c (x # xs) =
     (if x = c then Some ([], xs) else map_option (\<lambda>(a, b). (x # a, b)) (split_once c xs))"

fun replace_first :: "string \<Rightarrow> string \<Rightarrow> string \<Rightarrow> string" where
  "replace_first [] a b = (if a = [] then b else [])"
| "replace_first (x # xs) a b =
     (case strip_prefix (x # xs) a of Some rest \<Rightarrow> b @ rest | None \<Rightarrow> x # replace_first xs a b)"

lemma split_once_append: "c \<notin> set a \<Longrightarrow> split_once c (a @ c # b) = Some (a, b)"
  by (induction a) auto

lemma split_once_Some: "split_once c s = Some (a, b) \<Longrightarrow> s = a @ c # b \<and> c \<notin> set a"
  by (induction s arbitrary: a) (auto split: if_splits)

lemma replace_first_prefix: "a \<noteq> [] \<Longrightarrow> replace_first (a @ s) a b = b @ s"
  by (cases a) (auto simp: strip_prefix_def)

lemma split_on_nonempty [simp]: "split_on c s \<noteq> []"
  by (induction s) (auto split: list.splits)

lemma split_on_none: "c \<notin> set a \<Longrightarrow> split_on c a = [a]"
  by (induction a) auto

lemma split_on_sep: "c \<notin> set a \<Longrightarrow> split_on c (a @ c # b) = a # split_on c b"
  by (induction a) auto

lemma split_on_append_last:
  "c \<notin> set a \<Longrightarrow> split_on c (x @ c # a) = split_on c x @ [a]"
proof (induction x)
  case Nil then show ?case by (simp add: split_on_none)
next
  case (Cons y ys)
  then show ?case by (cases "split_on c ys") auto
qed

lemma split_on_append: "split_on c (p @ c # r) = split_on c p @ split_on c r"
proof (induction p)
  case (Cons y ys)
  then show ?case by (cases "split_on c ys") auto
qed simp

lemma split_on_no_sep: "p \<in> set (split_on c s) \<Longrightarrow> c \<notin> set p"
  by (induction s arbitrary: p) (auto split: list.splits if_splits)

lemma strip_prefix_append [simp]: "strip_prefix (p @ s) p = Some s"
  by (simp add: strip_prefix_def)

lemma strip_prefix_Cons [simp]:
  "strip_prefix s [] = Some s" "strip_prefix [] (y # ys) = None"
  "strip_prefix (x # xs) (y # ys) = (if x = y then strip_prefix xs ys else None)"
  by (auto simp: strip_prefix_def)

lemma starts_with_Cons [simp]:
  "starts_with s []" "\<not> starts_with [] (y # ys)"
  "starts_with (x # xs) (y # ys) \<longleftrightarrow> x = y \<and> starts_with xs ys"
  by (auto simp: starts_with_def)

lemma strip_suffix_append [simp]: "strip_suffix (s @ p) p = Some s"
  by (simp add: strip_suffix_def suffix_def)

lemma starts_with_append [simp]: "starts_with (p @ s) p"
  by (simp add: starts_with_def)

text \<open>
  The UTF-8 validity check of \<open>String::from_utf8\<close>, and \<open>chars().any(is_control)\<close> on the bytes of
  a string: the controls are the bytes below 32, 127, and the two-byte sequences of U+0080 to U+009F.
\<close>

abbreviation (input) cont :: "char \<Rightarrow> bool" where "cont c \<equiv> 128 \<le> byte c \<and> byte c < 192"

fun utf8_valid :: "bytes \<Rightarrow> bool" where
  "utf8_valid [] = True"
| "utf8_valid (a # s) =
     (let n = (of_char a :: nat) in
      if n < 128 then utf8_valid s
      else if n < 194 then False
      else if n < 224 then
        (case s of b # t \<Rightarrow> cont b \<and> utf8_valid t | _ \<Rightarrow> False)
      else if n < 240 then
        (case s of b # c # t \<Rightarrow>
           cont b \<and> (n = 224 \<longrightarrow> 160 \<le> byte b) \<and> (n = 237 \<longrightarrow> byte b < 160) \<and> cont c \<and> utf8_valid t
         | _ \<Rightarrow> False)
      else if n < 245 then
        (case s of b # c # d # t \<Rightarrow>
           cont b \<and> (n = 240 \<longrightarrow> 144 \<le> byte b) \<and> (n = 244 \<longrightarrow> byte b < 144) \<and> cont c \<and> cont d \<and>
           utf8_valid t
         | _ \<Rightarrow> False)
      else False)"

definition from_utf8 :: "bytes \<Rightarrow> string result" where
  "from_utf8 b = (if utf8_valid b then Ok b else Err (Msg ''invalid utf-8 sequence''))"

fun has_control :: "string \<Rightarrow> bool" where
  "has_control [] = False"
| "has_control (c # s) =
     (byte c < 32 \<or> byte c = 127 \<or>
      (byte c = 194 \<and> (case s of d # _ \<Rightarrow> 128 \<le> byte d \<and> byte d < 160 | [] \<Rightarrow> False)) \<or>
      has_control s)"

definition char_count :: "string \<Rightarrow> nat" where
  "char_count s = length (filter (\<lambda>c. \<not> cont c) s)"

definition ascii :: "string \<Rightarrow> bool" where
  "ascii s = list_all (\<lambda>c. byte c < 128) s"

lemma utf8_valid_ascii: "ascii s \<Longrightarrow> utf8_valid s"
  by (induction s) (auto simp: ascii_def Let_def)

definition is_digit :: "char \<Rightarrow> bool" where
  "is_digit c = (48 \<le> byte c \<and> byte c \<le> 57)"

definition is_lower :: "char \<Rightarrow> bool" where
  "is_lower c = (97 \<le> byte c \<and> byte c \<le> 122)"

definition is_upper :: "char \<Rightarrow> bool" where
  "is_upper c = (65 \<le> byte c \<and> byte c \<le> 90)"

definition is_alphanumeric :: "char \<Rightarrow> bool" where
  "is_alphanumeric c = (is_digit c \<or> is_lower c \<or> is_upper c)"

definition is_hexdigit :: "char \<Rightarrow> bool" where
  "is_hexdigit c = (is_digit c \<or> (97 \<le> byte c \<and> byte c \<le> 102) \<or> (65 \<le> byte c \<and> byte c \<le> 70))"

section \<open>Formatting and parsing numbers\<close>

definition digit :: "nat \<Rightarrow> char" where
  "digit d = char_of (if d < 10 then 48 + d else 87 + d)"

definition digit_val :: "nat \<Rightarrow> char \<Rightarrow> nat option" where
  "digit_val r c =
     (let v = (if is_digit c then byte c - 48
               else if is_lower c then byte c - 87
               else if is_upper c then byte c - 55 else r)
      in if v < r then Some v else None)"

fun show_radix :: "nat \<Rightarrow> nat \<Rightarrow> string" where
  "show_radix r n =
     (if r < 2 \<or> n < r then [digit n] else show_radix r (n div r) @ [digit (n mod r)])"

declare show_radix.simps [simp del]

fun parse_digits :: "nat \<Rightarrow> nat \<Rightarrow> string \<Rightarrow> nat option" where
  "parse_digits r acc [] = Some acc"
| "parse_digits r acc (c # cs) =
     (case digit_val r c of None \<Rightarrow> None | Some d \<Rightarrow> parse_digits r (acc * r + d) cs)"

text \<open>\<open>u64::from_str_radix\<close>: an optional plus sign, at least one digit, no overflow.\<close>

definition parse_u64 :: "nat \<Rightarrow> string \<Rightarrow> u64 option" where
  "parse_u64 r s =
     (let ds = (case s of c # t \<Rightarrow> if c = CHR ''+'' then t else s | [] \<Rightarrow> [])
      in if ds = [] then None
         else (case parse_digits r 0 ds of None \<Rightarrow> None
               | Some n \<Rightarrow> if n < 2 ^ 64 then Some (word_of_nat n) else None))"

definition show_u64 :: "u64 \<Rightarrow> string" where
  "show_u64 v = show_radix 10 (unat v)"

text \<open>\<open>format!("{:032x}")\<close> and \<open>format!("{:02x}")\<close>.\<close>

definition show_hex_padded :: "nat \<Rightarrow> nat \<Rightarrow> string" where
  "show_hex_padded w n = (let s = show_radix 16 n in replicate (w - length s) (CHR ''0'') @ s)"

lemma of_char_digit: "d < 16 \<Longrightarrow> (of_char (digit d) :: nat) = (if d < 10 then 48 + d else 87 + d)"
  by (simp add: digit_def)

lemma byte_less: "byte c < 256"
  by (cases c) (simp add: of_char_def)

lemma digit_val_digit: "2 \<le> r \<Longrightarrow> r \<le> 16 \<Longrightarrow> d < r \<Longrightarrow> digit_val r (digit d) = Some d"
  by (auto simp: digit_val_def is_digit_def is_lower_def is_upper_def of_char_digit Let_def)

lemma digit_zero: "digit 0 = CHR ''0''"
  by (simp add: digit_def) code_simp

lemma parse_digits_append:
  "parse_digits r acc (s @ t) =
     (case parse_digits r acc s of None \<Rightarrow> None | Some n \<Rightarrow> parse_digits r n t)"
  by (induction s arbitrary: acc) (auto split: option.splits)

lemma parse_show_radix:
  assumes "2 \<le> r" "r \<le> 16" shows "parse_digits r 0 (show_radix r n) = Some n"
  using assms
proof (induction r n rule: show_radix.induct)
  case (1 r n)
  show ?case
  proof (cases "n < r")
    case True with 1 show ?thesis
      by (subst show_radix.simps) (simp add: digit_val_digit)
  next
    case False with 1 show ?thesis
      by (subst show_radix.simps) (simp add: parse_digits_append digit_val_digit)
  qed
qed

lemma parse_digits_zeros:
  assumes "2 \<le> r" "r \<le> 16"
  shows "parse_digits r 0 (replicate k (CHR ''0'') @ s) = parse_digits r 0 s"
  using assms digit_val_digit [of r 0] by (induction k) (auto simp: digit_zero)

lemma show_radix_hex: "2 \<le> r \<Longrightarrow> r \<le> 16 \<Longrightarrow> c \<in> set (show_radix r n) \<Longrightarrow> is_hexdigit c"
proof (induction r n rule: show_radix.induct)
  case (1 r n)
  have d: "is_hexdigit (digit k)" if "k < r" for k
    using that 1(3) by (auto simp: is_hexdigit_def is_digit_def of_char_digit)
  show ?case
  proof (cases "n < r")
    case True with 1 d show ?thesis by (simp add: show_radix.simps [of r n])
  next
    case False
    with 1 d show ?thesis by (auto simp: show_radix.simps [of r n])
  qed
qed

lemma show_hex_digits: "\<forall>c \<in> set (show_radix 10 n). is_hexdigit c"
    "\<forall>c \<in> set (show_radix 16 n). is_hexdigit c"
  by (auto dest: show_radix_hex [rotated 2])

lemma is_hexdigit_zero [simp]: "is_hexdigit (CHR ''0'')"
  by (simp add: is_hexdigit_def is_digit_def)

lemma show_radix_nonempty [simp]: "show_radix r n \<noteq> []"
  by (subst show_radix.simps) simp

lemma hexdigit_not_special:
  "is_hexdigit c \<Longrightarrow> c \<noteq> CHR ''/'' \<and> c \<noteq> CHR ''+'' \<and> c \<noteq> CHR ''.''"
  by (auto simp: is_hexdigit_def is_digit_def)

lemma set_show_hex_padded: "c \<in> set (show_hex_padded w n) \<Longrightarrow> is_hexdigit c"
  using show_hex_digits by (auto simp: show_hex_padded_def Let_def)

lemma parse_u64_hex_digits:
  assumes "\<And>c. c \<in> set s \<Longrightarrow> is_hexdigit c" "s \<noteq> []" "parse_digits r 0 s = Some (unat v)"
  shows "parse_u64 r s = Some v"
proof (cases s)
  case Nil with assms(2) show ?thesis by simp
next
  case (Cons c t)
  with assms(1) [of c] have "c \<noteq> CHR ''+''" using hexdigit_not_special by auto
  with assms(3) Cons show ?thesis by (simp add: parse_u64_def)
qed

lemma parse_show_u64: "parse_u64 10 (show_u64 v) = Some v"
  unfolding show_u64_def
  by (rule parse_u64_hex_digits) (auto simp: show_hex_digits parse_show_radix)

lemma parse_show_hex_padded: "parse_u64 16 (show_hex_padded w (unat v)) = Some v"
proof (rule parse_u64_hex_digits)
  show "parse_digits 16 0 (show_hex_padded w (unat v)) = Some (unat v)"
    by (simp add: show_hex_padded_def Let_def parse_digits_zeros parse_show_radix)
qed (auto simp: show_hex_padded_def Let_def show_hex_digits)

lemma show_u64_inj: "show_u64 v = show_u64 v' \<Longrightarrow> v = v'"
  by (metis option.inject parse_show_u64)

lemma set_show_u64: "c \<in> set (show_u64 v) \<Longrightarrow> is_hexdigit c"
  by (simp add: show_u64_def show_hex_digits)

end
