(* ===== verification/Identity.thy ===== *)
theory Identity
  imports Prelude
begin

text \<open>
  Actor identities and the object names derived from them: \<^verbatim>\<open>src/actor/protocol.rs\<close> (actor keys and
  invocations), \<^verbatim>\<open>src/actor_state.rs\<close> (storage keys), \<^verbatim>\<open>src/placement.rs\<close> (regions),
  \<^verbatim>\<open>src/storage_paths.rs\<close> and \<^verbatim>\<open>src/storage.rs\<close> (bucket paths and snapshot names), and
  \<open>snapshot_position\<close> of \<^verbatim>\<open>src/bucket/runtime.rs\<close>.

  Base64 and the hash functions come from third-party crates, so they are fields of a record
  \<open>crypto\<close> that the definitions take as an argument. \<open>b64_laws\<close> states the documented behaviour of
  URL-safe unpadded Base64 the paths rely on: decoding inverts encoding, the encoding alphabet is
  the letters, the digits, the minus sign and the underscore, and nothing encodes to nothing.
\<close>

section \<open>The cryptographic crates\<close>

record crypto =
  b64_encode :: "bytes \<Rightarrow> string"
  b64_decode :: "string \<Rightarrow> bytes option"
  sha256 :: "bytes \<Rightarrow> bytes"
  hmac_sign :: "bytes \<Rightarrow> bytes \<Rightarrow> bytes"

definition b64_char :: "char \<Rightarrow> bool" where
  "b64_char c = (is_alphanumeric c \<or> c = CHR ''-'' \<or> c = CHR ''_'')"

definition b64_laws :: "crypto \<Rightarrow> bool" where
  "b64_laws C \<longleftrightarrow>
     (\<forall>x. b64_decode C (b64_encode C x) = Some x) \<and> (\<forall>x. list_all b64_char (b64_encode C x)) \<and>
     b64_encode C [] = []"

section \<open>Actor keys\<close>

type_synonym host_id = string
type_synonym storage_key = string

record actor_key =
  project_id :: string
  actor_name :: string
  actor_id :: string

definition component_byte :: "char \<Rightarrow> bool" where
  "component_byte c =
     (is_alphanumeric c \<or> c = CHR ''-'' \<or> c = CHR ''_'' \<or> c = CHR ''.'')"

definition validate_component :: "string \<Rightarrow> string \<Rightarrow> nat \<Rightarrow> unit result" where
  "validate_component name value max_bytes =
     bindR (ensure (value \<noteq> []) (name @ '' must not be empty'')) (\<lambda>_.
     bindR (ensure (length value \<le> max_bytes)
       (name @ '' must be at most '' @ show_radix 10 max_bytes @ '' bytes'')) (\<lambda>_.
     ensure (list_all component_byte value)
       (name @ '' may contain only ASCII letters, digits, '.', '-', and '_'' @ [CHR 0x27])))"

definition storage_key :: "actor_key \<Rightarrow> storage_key" where
  "storage_key a = ''object.v4.'' @ project_id a @ '':'' @ actor_name a @ '':'' @ actor_id a"

definition validate_storage_key :: "storage_key \<Rightarrow> unit result" where
  "validate_storage_key k =
     bindR (ensure (k \<noteq> []) ''actor storage key must not be empty'') (\<lambda>_.
     bindR (ensure (length k \<le> 255) ''actor storage key must be at most 255 bytes'') (\<lambda>_.
     bindR (ensure (k \<noteq> ''.'' \<and> k \<noteq> ''..'')
       ''actor storage key must not be a relative path component'') (\<lambda>_.
     ensure (\<not> (CHR ''/'' \<in> set k \<or> CHR 0x5C \<in> set k \<or> has_control k))
       ''actor storage key must not contain path separators or control characters'')))"

definition validate_actor_key :: "actor_key \<Rightarrow> unit result" where
  "validate_actor_key a =
     bindR (validate_component ''project ID'' (project_id a) 64) (\<lambda>_.
     bindR (validate_component ''actor name'' (actor_name a) 48) (\<lambda>_.
     bindR (validate_component ''actor ID'' (actor_id a) 128) (\<lambda>_.
     validate_storage_key (storage_key a))))"

record actor_invocation =
  inv_request_id :: string
  inv_actor :: actor_key
  inv_method :: string
  inv_args :: "json list"

definition validate_invocation :: "actor_invocation \<Rightarrow> unit result" where
  "validate_invocation i =
     bindR (ensure (inv_request_id i \<noteq> []) ''request ID must not be empty'') (\<lambda>_.
     bindR (ensure (length (inv_request_id i) \<le> 255) ''request ID must be at most 255 bytes'') (\<lambda>_.
     bindR (validate_actor_key (inv_actor i)) (\<lambda>_.
     validate_component ''actor method'' (inv_method i) 128)))"

definition validate_region :: "string \<Rightarrow> unit result" where
  "validate_region region =
     ensure (region \<noteq> [] \<and> length region \<le> 64 \<and>
       list_all (\<lambda>c. is_lower c \<or> is_digit c \<or> c = CHR ''.'' \<or> c = CHR ''_'' \<or> c = CHR ''-'') region)
       ''sandbox region is invalid''"

section \<open>Bucket paths\<close>

definition ROOT :: string where
  "ROOT = ''durable-actors/v3/''"

definition path_component :: "crypto \<Rightarrow> string \<Rightarrow> string" where
  "path_component C value = b64_encode C value"

definition path_decode :: "crypto \<Rightarrow> string \<Rightarrow> string result" where
  "path_decode C value =
     bindR (ok_or (b64_decode C value) ''invalid base64'') (\<lambda>bytes. from_utf8 bytes)"

definition actor_path :: "crypto \<Rightarrow> actor_key \<Rightarrow> string" where
  "actor_path C a =
     show_hex_padded 2 (byte (hd (sha256 C (storage_key a)))) @ ''/'' @
     path_component C (project_id a) @ ''/'' @
     path_component C (actor_name a) @ ''/'' @
     path_component C (actor_id a)"

definition snapshots :: "crypto \<Rightarrow> actor_key \<Rightarrow> string result" where
  "snapshots C a =
     bindR (validate_actor_key a) (\<lambda>_. Ok (ROOT @ ''snapshots/'' @ actor_path C a @ ''/''))"

definition actor_from_key :: "storage_key \<Rightarrow> actor_key result" where
  "actor_from_key key =
     bindR (ok_or (strip_prefix key ''object.v4.'') ''invalid actor key'') (\<lambda>rest.
     let parts = split_on (CHR '':'') rest in
     bindR (ensure (length parts = 3) ''invalid actor identity'') (\<lambda>_.
     let actor = \<lparr>project_id = parts ! 0, actor_name = parts ! 1, actor_id = parts ! 2\<rparr> in
     bindR (validate_actor_key actor) (\<lambda>_. Ok actor)))"

definition owner_path :: "crypto \<Rightarrow> storage_key \<Rightarrow> string result" where
  "owner_path C key =
     bindR (actor_from_key key) (\<lambda>actor. Ok (ROOT @ ''owners/'' @ actor_path C actor @ ''.json''))"

definition host_path :: "crypto \<Rightarrow> host_id \<Rightarrow> string" where
  "host_path C host = ROOT @ ''hosts/'' @ path_component C host @ ''/''"

definition session_path :: "crypto \<Rightarrow> host_id \<Rightarrow> string \<Rightarrow> string" where
  "session_path C host session = host_path C host @ ''sessions/'' @ path_component C session"

definition actor_from_snapshot :: "crypto \<Rightarrow> string \<Rightarrow> actor_key result" where
  "actor_from_snapshot C object =
     bindR (ok_or (strip_prefix object ROOT) ''invalid snapshot root'') (\<lambda>rest.
     let parts = split_on (CHR ''/'') rest in
     bindR (ensure (length parts = 7 \<and> parts ! 0 = ''snapshots'') ''invalid snapshot path'') (\<lambda>_.
     bindR (path_decode C (parts ! 2)) (\<lambda>p.
     bindR (path_decode C (parts ! 3)) (\<lambda>n.
     bindR (path_decode C (parts ! 4)) (\<lambda>i.
     let actor = \<lparr>project_id = p, actor_name = n, actor_id = i\<rparr> in
     bindR (validate_actor_key actor) (\<lambda>_.
     bindR (snapshots C actor) (\<lambda>prefix.
     bindR (ensure (starts_with object prefix) ''snapshot shard mismatch'') (\<lambda>_. Ok actor))))))))"

section \<open>Snapshot object names\<close>

definition valid_nonce :: "string \<Rightarrow> bool" where
  "valid_nonce nonce = (length nonce = 32 \<and> list_all is_hexdigit nonce)"

definition snapshot_prefix :: "crypto \<Rightarrow> actor_key \<Rightarrow> string result" where
  "snapshot_prefix C a = snapshots C a"

definition snapshot_object_name :: "crypto \<Rightarrow> actor_key \<Rightarrow> u64 \<Rightarrow> string \<Rightarrow> string result" where
  "snapshot_object_name C a state_version nonce =
     bindR (validate_actor_key a) (\<lambda>_.
     bindR (ensure (0 < state_version) ''actor state version must be positive'') (\<lambda>_.
     bindR (ensure (valid_nonce nonce) ''actor state object nonce is invalid'') (\<lambda>_.
     bindR (snapshot_prefix C a) (\<lambda>prefix.
     Ok (prefix @ nonce @ ''/'' @ show_u64 state_version @ ''.json'')))))"

definition validate_object_name :: "string \<Rightarrow> unit result" where
  "validate_object_name object_name =
     ensure (starts_with object_name ROOT \<and> length object_name \<le> 1024 \<and> \<not> has_control object_name)
       ''actor state object name is invalid''"

definition validate_snapshot_object_name :: "crypto \<Rightarrow> actor_key \<Rightarrow> u64 \<Rightarrow> string \<Rightarrow> unit result" where
  "validate_snapshot_object_name C a state_version object_name =
     bindR (validate_object_name object_name) (\<lambda>_.
     bindR (snapshot_prefix C a) (\<lambda>prefix.
     let rest = (case strip_prefix object_name prefix of Some r \<Rightarrow> r | None \<Rightarrow> []);
         valid = (case split_on (CHR ''/'') rest of
                    [nonce, file] \<Rightarrow> valid_nonce nonce \<and> file = show_u64 state_version @ ''.json''
                  | _ \<Rightarrow> False)
     in ensure valid ''actor state object name does not match its commit''))"

text \<open>
  The position of a snapshot, read from the last two components of its object name: the owner epoch
  in hexadecimal and the state version in decimal (\<^verbatim>\<open>src/bucket/runtime.rs\<close>).
\<close>

definition snapshot_position :: "string \<Rightarrow> (u64 \<times> u64) option" where
  "snapshot_position object =
     (case rev (split_on (CHR ''/'') object) of
        file # rest \<Rightarrow>
          (case strip_suffix file ''.json'' of None \<Rightarrow> None
           | Some v \<Rightarrow>
             (case parse_u64 10 v of None \<Rightarrow> None
              | Some version \<Rightarrow>
                (case rest of [] \<Rightarrow> None
                 | dir # _ \<Rightarrow>
                   (case parse_u64 16 dir of None \<Rightarrow> None
                    | Some epoch \<Rightarrow> Some (epoch, version)))))
      | [] \<Rightarrow> None)"

section \<open>Facts about identities\<close>

lemma actor_key_eta [simp]:
  "\<lparr>project_id = project_id a, actor_name = actor_name a, actor_id = actor_id a\<rparr> = (a :: actor_key)"
  by (cases a) simp

lemma validate_component_Ok [result_simps]:
  "validate_component n v m = Inr u \<longleftrightarrow> v \<noteq> [] \<and> length v \<le> m \<and> list_all component_byte v"
  by (auto simp: validate_component_def result_simps)

lemma component_byte_range:
  "component_byte c \<Longrightarrow> 32 \<le> byte c \<and> byte c < 127 \<and> c \<noteq> CHR '':'' \<and> c \<noteq> CHR ''/'' \<and> c \<noteq> CHR 0x5C"
  by (auto simp: component_byte_def is_alphanumeric_def is_digit_def is_lower_def is_upper_def)

lemma no_control: "list_all (\<lambda>c. 32 \<le> byte c \<and> byte c < 127) s \<Longrightarrow> \<not> has_control s"
  by (induction s) auto

definition printable :: "char \<Rightarrow> bool" where
  "printable c = (32 \<le> byte c \<and> byte c < 127 \<and> c \<noteq> CHR ''/'' \<and> c \<noteq> CHR 0x5C)"

lemma printable_component: "component_byte c \<Longrightarrow> printable c"
  using component_byte_range [of c] by (simp add: printable_def)

lemma storage_key_printable:
  assumes "list_all component_byte (project_id a)" "list_all component_byte (actor_name a)"
    "list_all component_byte (actor_id a)"
  shows "list_all printable (storage_key a)"
proof -
  have "list_all printable ''object.v4.''" "printable (CHR '':'')"
    by (simp_all add: printable_def)
  with assms show ?thesis
    unfolding storage_key_def by (auto simp: list_all_iff printable_component)
qed

lemma validate_storage_key_storage_key:
  assumes "list_all component_byte (project_id a)" "list_all component_byte (actor_name a)"
    "list_all component_byte (actor_id a)" "length (project_id a) \<le> 64" "length (actor_name a) \<le> 48"
    "length (actor_id a) \<le> 128"
  shows "validate_storage_key (storage_key a) = Inr ()"
proof -
  have p: "list_all printable (storage_key a)" using assms(1-3) by (rule storage_key_printable)
  then have "\<not> has_control (storage_key a)"
    by (intro no_control) (auto simp: list_all_iff printable_def)
  moreover have "CHR ''/'' \<notin> set (storage_key a)" "CHR 0x5C \<notin> set (storage_key a)"
    using p by (auto simp: list_all_iff printable_def)
  moreover have "length (storage_key a) \<le> 255" "11 < length (storage_key a)"
    using assms(4-6) by (simp_all add: storage_key_def)
  ultimately show ?thesis by (auto simp: validate_storage_key_def result_simps)
qed

lemma validate_actor_key_Ok [result_simps]:
  "validate_actor_key a = Inr u \<longleftrightarrow>
     (project_id a \<noteq> [] \<and> length (project_id a) \<le> 64 \<and> list_all component_byte (project_id a)) \<and>
     (actor_name a \<noteq> [] \<and> length (actor_name a) \<le> 48 \<and> list_all component_byte (actor_name a)) \<and>
     (actor_id a \<noteq> [] \<and> length (actor_id a) \<le> 128 \<and> list_all component_byte (actor_id a))"
  using validate_storage_key_storage_key [of a]
  by (auto simp: validate_actor_key_def result_simps)

lemma component_no_colon: "list_all component_byte s \<Longrightarrow> CHR '':'' \<notin> set s"
  using component_byte_range by (auto simp: list_all_iff)

lemma component_ascii: "list_all component_byte s \<Longrightarrow> ascii s"
proof -
  have "byte c < 128" if "component_byte c" for c
    using component_byte_range [OF that] by simp
  then show "list_all component_byte s \<Longrightarrow> ascii s" by (simp add: list_all_iff ascii_def)
qed

lemma actor_from_key_storage_key:
  assumes "validate_actor_key a = Inr ()"
  shows "actor_from_key (storage_key a) = Inr a"
proof -
  have "CHR '':'' \<notin> set (project_id a)" "CHR '':'' \<notin> set (actor_name a)" "CHR '':'' \<notin> set (actor_id a)"
    using assms by (auto simp: validate_actor_key_Ok component_no_colon)
  then have "split_on (CHR '':'') (project_id a @ '':'' @ actor_name a @ '':'' @ actor_id a) =
      [project_id a, actor_name a, actor_id a]"
    by (simp add: split_on_sep split_on_none)
  with assms show ?thesis by (simp add: actor_from_key_def storage_key_def Let_def)
qed

lemma storage_key_inj:
  "validate_actor_key a = Inr () \<Longrightarrow> validate_actor_key b = Inr () \<Longrightarrow>
   storage_key a = storage_key b \<Longrightarrow> a = b"
  by (metis actor_from_key_storage_key sum.inject(2))

section \<open>Facts about paths\<close>

lemma b64_no_slash:
  assumes "b64_laws C" shows "CHR ''/'' \<notin> set (b64_encode C x)"
proof
  assume "CHR ''/'' \<in> set (b64_encode C x)"
  with assms have "b64_char (CHR ''/'')" by (auto simp: b64_laws_def list_all_iff)
  then show False
    by (simp add: b64_char_def is_alphanumeric_def is_digit_def is_lower_def is_upper_def)
qed

lemma b64_inj: "b64_laws C \<Longrightarrow> b64_encode C x = b64_encode C y \<Longrightarrow> x = y"
  unfolding b64_laws_def by (metis option.inject)

lemma hex_no_slash: "CHR ''/'' \<notin> set (show_hex_padded w n)"
  using set_show_hex_padded hexdigit_not_special by blast

lemma path_decode_component:
  "b64_laws C \<Longrightarrow> list_all component_byte x \<Longrightarrow> path_decode C (path_component C x) = Inr x"
  by (simp add: path_decode_def path_component_def b64_laws_def from_utf8_def utf8_valid_ascii
      component_ascii)

definition shard :: "crypto \<Rightarrow> actor_key \<Rightarrow> string" where
  "shard C a = show_hex_padded 2 (byte (hd (sha256 C (storage_key a))))"

lemma split_actor_path:
  assumes "b64_laws C"
  shows "split_on (CHR ''/'') (''snapshots/'' @ actor_path C a @ ''/'' @ x) =
    ''snapshots'' # shard C a # path_component C (project_id a) # path_component C (actor_name a) #
    path_component C (actor_id a) # split_on (CHR ''/'') x"
proof -
  have "''snapshots/'' @ actor_path C a @ ''/'' @ x =
      ''snapshots'' @ CHR ''/'' # shard C a @ CHR ''/'' # path_component C (project_id a) @
      CHR ''/'' # path_component C (actor_name a) @ CHR ''/'' # path_component C (actor_id a) @
      CHR ''/'' # x"
    by (simp add: actor_path_def shard_def)
  with assms show ?thesis
    by (simp add: split_on_sep shard_def hex_no_slash path_component_def b64_no_slash)
qed

lemma snapshots_Ok [result_simps]:
  "snapshots C a = Inr p \<longleftrightarrow>
     validate_actor_key a = Inr () \<and> p = ROOT @ ''snapshots/'' @ actor_path C a @ ''/''"
  by (auto simp: snapshots_def result_simps)

lemma snapshot_object_name_Ok [result_simps]:
  "snapshot_object_name C a v n = Inr s \<longleftrightarrow>
     validate_actor_key a = Inr () \<and> 0 < v \<and> valid_nonce n \<and>
     s = ROOT @ ''snapshots/'' @ actor_path C a @ ''/'' @ n @ ''/'' @ show_u64 v @ ''.json''"
  by (auto simp: snapshot_object_name_def snapshot_prefix_def snapshots_def result_simps)

lemma snapshots_prefix_unique:
  assumes "b64_laws C" "snapshots C a = Inr p" "snapshots C b = Inr q"
    "starts_with s p" "starts_with s q"
  shows "a = b"
proof -
  from assms(4) obtain x where "s = p @ x" by (auto simp: starts_with_def prefix_def)
  moreover from assms(5) obtain y where "s = q @ y" by (auto simp: starts_with_def prefix_def)
  ultimately have "p @ x = q @ y" by simp
  with assms(2,3) have
    "''snapshots/'' @ actor_path C a @ ''/'' @ x = ''snapshots/'' @ actor_path C b @ ''/'' @ y"
    by (simp add: snapshots_Ok)
  then have "split_on (CHR ''/'') (''snapshots/'' @ actor_path C a @ ''/'' @ x) =
      split_on (CHR ''/'') (''snapshots/'' @ actor_path C b @ ''/'' @ y)"
    by (rule arg_cong)
  then have "path_component C (project_id a) = path_component C (project_id b) \<and>
      path_component C (actor_name a) = path_component C (actor_name b) \<and>
      path_component C (actor_id a) = path_component C (actor_id b)"
    unfolding split_actor_path [OF assms(1)] by simp
  then show ?thesis
    by (auto simp: path_component_def intro!: actor_key.equality dest: b64_inj [OF assms(1)])
qed

lemma length_show_hex: "n < 16 ^ Suc k \<Longrightarrow> length (show_radix 16 n) \<le> Suc k"
proof (induction k arbitrary: n)
  case 0 then show ?case by (subst show_radix.simps) simp
next
  case (Suc k)
  from Suc.prems have "n div 16 < 16 ^ Suc k" by (simp add: div_less_iff_less_mult mult.commute)
  from Suc.IH [OF this] show ?case by (subst show_radix.simps) simp
qed

lemma valid_nonce_epoch: "valid_nonce (show_hex_padded 32 (unat (e :: u64)))"
proof -
  have "unat e < 2 ^ 64" using unsigned_less [of e, where ?'a = nat] by simp
  also have "(2 :: nat) ^ 64 \<le> 16 ^ Suc 31" by simp
  finally have "unat e < 16 ^ Suc 31" .
  from length_show_hex [OF this] show ?thesis
    using set_show_hex_padded by (auto simp: valid_nonce_def list_all_iff show_hex_padded_def Let_def)
qed

lemma snapshot_object_name_epoch:
  "validate_actor_key a = Inr () \<Longrightarrow> 0 < v \<Longrightarrow>
   snapshot_object_name C a v (show_hex_padded 32 (unat (e :: u64))) =
     Inr (ROOT @ ''snapshots/'' @ actor_path C a @ ''/'' @ show_hex_padded 32 (unat e) @ ''/'' @
       show_u64 v @ ''.json'')"
  unfolding snapshot_object_name_Ok by (intro conjI refl valid_nonce_epoch)

lemma nonce_no_slash: "valid_nonce n \<Longrightarrow> CHR ''/'' \<notin> set n"
  using hexdigit_not_special by (auto simp: valid_nonce_def list_all_iff)

lemma file_no_slash: "CHR ''/'' \<notin> set (show_u64 v @ ''.json'')"
  using set_show_u64 [of "CHR ''/''" v] hexdigit_not_special [of "CHR ''/''"] by auto

lemma actor_from_snapshot_object_name:
  assumes "b64_laws C" "snapshot_object_name C a v n = Inr s"
  shows "actor_from_snapshot C s = Inr a"
proof -
  have a: "validate_actor_key a = Inr ()" and n: "valid_nonce n"
    and s: "s = ROOT @ ''snapshots/'' @ actor_path C a @ ''/'' @ n @ ''/'' @ show_u64 v @ ''.json''"
    using assms(2) by (auto simp: snapshot_object_name_Ok)
  have "split_on (CHR ''/'') (n @ CHR ''/'' # show_u64 v @ ''.json'') = [n, show_u64 v @ ''.json'']"
    using n file_no_slash [of v] by (simp add: split_on_sep split_on_none nonce_no_slash)
  then have parts: "split_on (CHR ''/'') (''snapshots/'' @ actor_path C a @ ''/'' @ n @ ''/'' @
        show_u64 v @ ''.json'') =
      [''snapshots'', shard C a, path_component C (project_id a), path_component C (actor_name a),
       path_component C (actor_id a), n, show_u64 v @ ''.json'']"
    unfolding split_actor_path [OF assms(1)] by simp
  have rest: "strip_prefix s ROOT =
      Some (''snapshots/'' @ actor_path C a @ ''/'' @ n @ ''/'' @ show_u64 v @ ''.json'')"
    unfolding s by (rule strip_prefix_append)
  have start: "starts_with s (ROOT @ ''snapshots/'' @ actor_path C a @ ''/'')"
    unfolding s starts_with_def prefix_def by simp
  have dec: "path_decode C (path_component C (project_id a)) = Inr (project_id a)"
    "path_decode C (path_component C (actor_name a)) = Inr (actor_name a)"
    "path_decode C (path_component C (actor_id a)) = Inr (actor_id a)"
    using a assms(1) by (auto simp: path_decode_component validate_actor_key_Ok)
  show ?thesis
    unfolding actor_from_snapshot_def rest ok_or_simps bindR_simps parts Let_def
    using start by (simp add: dec a snapshots_def)
qed

lemma snapshot_position_name:
  assumes "parse_u64 16 d = Some e" "CHR ''/'' \<notin> set d"
  shows "snapshot_position (x @ ''/'' @ d @ ''/'' @ show_u64 v @ ''.json'') = Some (e, v)"
proof -
  have "split_on (CHR ''/'') ((x @ CHR ''/'' # d) @ CHR ''/'' # show_u64 v @ ''.json'') =
      (split_on (CHR ''/'') x @ [d]) @ [show_u64 v @ ''.json'']"
    using split_on_append_last [OF file_no_slash [of v], of "x @ CHR ''/'' # d"]
      split_on_append_last [OF assms(2), of x] by simp
  then show ?thesis using assms(1) by (simp add: snapshot_position_def parse_show_u64)
qed

lemma snapshot_position_object_name:
  assumes "snapshot_object_name C a v (show_hex_padded 32 (unat e)) = Inr s"
  shows "snapshot_position s = Some (e, v)"
proof -
  have "s = (ROOT @ ''snapshots/'' @ actor_path C a) @ ''/'' @ show_hex_padded 32 (unat e) @ ''/'' @
      show_u64 v @ ''.json''"
    using assms by (simp add: snapshot_object_name_Ok)
  then show ?thesis
    by (simp only: snapshot_position_name [OF parse_show_hex_padded hex_no_slash])
qed

section \<open>A concrete instance of the crates\<close>

text \<open>
  Two hexadecimal digits per byte meet the laws of Base64 the paths rely on; the digest and the
  signature keep their input. Concrete evaluations of the model use this instance.
\<close>

definition hex_encode :: "bytes \<Rightarrow> string" where
  "hex_encode bs = concat (map (\<lambda>c. [digit (byte c div 16), digit (byte c mod 16)]) bs)"

fun hex_decode :: "string \<Rightarrow> bytes option" where
  "hex_decode [] = Some []"
| "hex_decode [c] = None"
| "hex_decode (c # d # s) =
     (case (digit_val 16 c, digit_val 16 d, hex_decode s) of
        (Some x, Some y, Some bs) \<Rightarrow> Some (char_of (x * 16 + y) # bs)
      | _ \<Rightarrow> None)"

definition hex_crypto :: crypto where
  "hex_crypto = \<lparr>b64_encode = hex_encode, b64_decode = hex_decode, sha256 = (\<lambda>b. CHR ''#'' # b),
     hmac_sign = (\<lambda>k b. k @ CHR ''.'' # b)\<rparr>"

lemma hex_crypto_laws: "b64_laws hex_crypto"
proof -
  have "hex_decode (hex_encode x) = Some x" for x
  proof (induction x)
    case (Cons c x)
    have "byte c div 16 < 16" using byte_less [of c] by (simp add: div_less_iff_less_mult)
    with Cons show ?case by (simp add: hex_encode_def digit_val_digit)
  qed (simp add: hex_encode_def)
  moreover have "list_all b64_char (hex_encode x)" for x
  proof (induction x)
    case (Cons c x)
    have "byte c div 16 < 16" using byte_less [of c] by (simp add: div_less_iff_less_mult)
    moreover have "b64_char (digit d)" if "d < 16" for d
      using that by (auto simp: b64_char_def is_alphanumeric_def is_digit_def is_lower_def of_char_digit)
    ultimately show ?case using Cons by (simp add: hex_encode_def)
  qed (simp add: hex_encode_def)
  ultimately show ?thesis by (simp add: b64_laws_def hex_crypto_def) (simp add: hex_encode_def)
qed

definition demo_actor :: "string \<Rightarrow> actor_key" where
  "demo_actor i = \<lparr>project_id = ''p'', actor_name = ''Room'', actor_id = i\<rparr>"

lemma demo_actor_valid: "validate_actor_key (demo_actor ''r-1'') = Inr ()" "validate_actor_key (demo_actor ''r'') = Inr ()"
  by (simp_all add: demo_actor_def validate_actor_key_Ok component_byte_def is_alphanumeric_def is_lower_def
      is_upper_def is_digit_def)

section \<open>Properties\<close>

text \<open>
  C8: a snapshot object name carries its identity. From the name the code builds for an actor, an
  owner epoch and a state version, \<open>actor_from_snapshot\<close> recovers the actor and \<open>snapshot_position\<close>
  the epoch and version, and no other actor, epoch or version gives the same name.
\<close>

theorem snapshot_name_roundtrip:
  assumes "b64_laws C" "snapshot_object_name C a v (show_hex_padded 32 (unat e)) = Ok s"
  shows "actor_from_snapshot C s = Ok a \<and> snapshot_position s = Some (e, v) \<and>
    (\<forall>a' v' e'. snapshot_object_name C a' v' (show_hex_padded 32 (unat e')) = Ok s \<longrightarrow>
       a' = a \<and> v' = v \<and> e' = e)"
  using actor_from_snapshot_object_name [OF assms(1)] snapshot_position_object_name assms
  by (metis Pair_inject option.inject sum.inject(2))

theorem snapshot_name_roundtrip_witness:
  "\<exists>s. snapshot_object_name hex_crypto (demo_actor ''r-1'') 7 (show_hex_padded 32 (unat (3 :: u64))) = Ok s \<and>
     actor_from_snapshot hex_crypto s = Ok (demo_actor ''r-1'') \<and> snapshot_position s = Some (3, 7)"
proof -
  have "0 < (7 :: u64)" by simp
  note s = snapshot_object_name_epoch [OF demo_actor_valid(1) this, of hex_crypto 3]
  show ?thesis using snapshot_name_roundtrip [OF hex_crypto_laws s] s by blast
qed

text \<open>
  C9: the snapshot prefixes of two actors never overlap, so a grant for one actor's prefix can never
  reach an object of another actor.
\<close>

theorem snapshot_prefix_isolation:
  assumes "b64_laws C" "snapshot_prefix C a = Ok p" "snapshot_prefix C b = Ok q" "a \<noteq> b"
  shows "\<not> (starts_with s p \<and> starts_with s q)"
  using snapshots_prefix_unique assms unfolding snapshot_prefix_def by blast

theorem snapshot_prefix_isolation_witness:
  "\<exists>p q. snapshot_prefix hex_crypto (demo_actor ''r'') = Ok p \<and>
     snapshot_prefix hex_crypto (demo_actor ''r-1'') = Ok q \<and>
     (\<forall>s. \<not> (starts_with s p \<and> starts_with s q))"
proof -
  obtain p q where p: "snapshot_prefix hex_crypto (demo_actor ''r'') = Ok p"
    and q: "snapshot_prefix hex_crypto (demo_actor ''r-1'') = Ok q"
    by (simp add: snapshot_prefix_def snapshots_Ok demo_actor_valid)
  moreover have "demo_actor ''r'' \<noteq> demo_actor ''r-1''" by (simp add: demo_actor_def)
  ultimately show ?thesis using snapshot_prefix_isolation [OF hex_crypto_laws] by blast
qed

end
