(* ===== verification/State_Log.thy ===== *)
theory State_Log
  imports Identity
begin

text \<open>
  Actor state snapshots and what refers to them: \<^verbatim>\<open>src/state_log.rs\<close> (the snapshot, its validation,
  encoding and decoding), \<^verbatim>\<open>src/replication/stream.rs\<close> (replica streams, their heads, snapshot
  references and checksums), \<^verbatim>\<open>src/replication/mod.rs\<close> (scopes, targets and tickets) and the write
  plan of \<^verbatim>\<open>src/storage.rs\<close>.

  JSON serialisation is third-party code: a \<open>snapshot_codec\<close> is an argument of the definitions that
  serialise, and \<open>snapshot_codec_laws\<close> says that reading back what was written gives the same value
  and that the text of a JSON value starts with a brace exactly for objects.
\<close>

section \<open>Snapshots\<close>

record state_attribution =
  att_operation :: string
  att_connection_id :: "string option"
  att_committed_at_ms :: u64
  att_interleaved :: bool

record state_snapshot =
  ss_attribution :: "state_attribution option"
  ss_state_version :: u64
  ss_owner_epoch :: u64
  ss_request_id :: string
  ss_state :: string
  ss_result :: json

record snapshot_codec =
  to_raw_value :: "json \<Rightarrow> string"
  from_raw_value :: "string \<Rightarrow> json option"
  snapshot_to_vec :: "state_snapshot \<Rightarrow> bytes"
  snapshot_from_slice :: "bytes \<Rightarrow> state_snapshot option"

definition snapshot_codec_laws :: "snapshot_codec \<Rightarrow> bool" where
  "snapshot_codec_laws J \<longleftrightarrow>
     (\<forall>v. from_raw_value J (to_raw_value J v) = Some v) \<and>
     (\<forall>v. starts_with (to_raw_value J v) ''{'' \<longleftrightarrow> is_object v) \<and>
     (\<forall>s. snapshot_from_slice J (snapshot_to_vec J s) = Some s)"

definition MAX_ACTOR_STATE_BYTES :: nat where
  "MAX_ACTOR_STATE_BYTES = 16 * 1024 * 1024"

definition validate_snapshot :: "state_snapshot \<Rightarrow> unit result" where
  "validate_snapshot s =
     bindR (ensure (0 < ss_state_version s) ''actor state version must be positive'') (\<lambda>_.
     bindR (ensure (0 < ss_owner_epoch s) ''owner epoch must be positive'') (\<lambda>_.
     bindR (ensure (ss_request_id s \<noteq> [] \<and> length (ss_request_id s) \<le> 255)
       ''actor state request ID is invalid'') (\<lambda>_.
     bindR (ensure (starts_with (ss_state s) ''{'') ''actor state must be a JSON object'') (\<lambda>_.
     ensure (length (ss_state s) \<le> MAX_ACTOR_STATE_BYTES)
       (''actor state exceeds the '' @ show_radix 10 MAX_ACTOR_STATE_BYTES @ ''-byte limit'')))))"

definition new_snapshot ::
    "snapshot_codec \<Rightarrow> u64 \<Rightarrow> u64 \<Rightarrow> string \<Rightarrow> json \<Rightarrow> json \<Rightarrow> state_snapshot result" where
  "new_snapshot J state_version owner_epoch request_id state result =
     (let snapshot = \<lparr>ss_attribution = None, ss_state_version = state_version,
            ss_owner_epoch = owner_epoch, ss_request_id = request_id,
            ss_state = to_raw_value J state, ss_result = result\<rparr>
      in bindR (validate_snapshot snapshot) (\<lambda>_. Ok snapshot))"

definition decode :: "snapshot_codec \<Rightarrow> bytes \<Rightarrow> state_snapshot result" where
  "decode J bytes =
     bindR (ok_or (snapshot_from_slice J bytes) ''decode actor state snapshot'') (\<lambda>snapshot.
     bindR (validate_snapshot snapshot) (\<lambda>_. Ok snapshot))"

definition encode :: "snapshot_codec \<Rightarrow> state_snapshot \<Rightarrow> bytes result" where
  "encode J s = bindR (validate_snapshot s) (\<lambda>_. Ok (snapshot_to_vec J s))"

section \<open>Replica streams\<close>

record replica_stream =
  rs_session :: string
  rs_prefix :: string
  rs_owner_epoch :: u64
  rs_base_version :: u64

record snapshot_ref =
  sr_object :: string
  sr_state_version :: u64
  sr_request_id :: string
  sr_digest :: string

record stream_head =
  sth_stream :: replica_stream
  sth_latest :: "snapshot_ref option"

record session_head =
  seh_session :: string
  seh_initialized :: bool
  seh_sealed :: bool
  seh_streams :: "stream_head list"

definition checksum :: "crypto \<Rightarrow> bytes \<Rightarrow> string" where
  "checksum C bytes = b64_encode C (sha256 C bytes)"

definition new_snapshot_ref :: "crypto \<Rightarrow> string \<Rightarrow> state_snapshot \<Rightarrow> bytes \<Rightarrow> snapshot_ref" where
  "new_snapshot_ref C object snapshot bytes =
     \<lparr>sr_object = object, sr_state_version = ss_state_version snapshot,
      sr_request_id = ss_request_id snapshot, sr_digest = checksum C bytes\<rparr>"

definition verify_ref :: "crypto \<Rightarrow> snapshot_ref \<Rightarrow> bytes \<Rightarrow> unit result" where
  "verify_ref C r bytes = ensure (checksum C bytes = sr_digest r) ''snapshot checksum mismatch''"

definition stream_object :: "replica_stream \<Rightarrow> u64 \<Rightarrow> string" where
  "stream_object stream version = rs_prefix stream @ show_u64 version @ ''.json''"

definition stream_snapshot ::
    "crypto \<Rightarrow> snapshot_codec \<Rightarrow> replica_stream \<Rightarrow> bytes \<Rightarrow> snapshot_ref result" where
  "stream_snapshot C J stream bytes =
     bindR (decode J bytes) (\<lambda>snapshot.
     bindR (ensure (ss_owner_epoch snapshot = rs_owner_epoch stream \<and>
         rs_base_version stream < ss_state_version snapshot) ''snapshot belongs to another stream'') (\<lambda>_.
     Ok (new_snapshot_ref C (stream_object stream (ss_state_version snapshot)) snapshot bytes)))"

section \<open>Replica sets and write plans\<close>

definition MAX_REPLICAS :: nat where
  "MAX_REPLICAS = 8"

record replica_target =
  rt_host_id :: string
  rt_url :: string
  rt_region :: string

record replica_scope =
  sc_actor :: actor_key
  sc_host :: host_id
  sc_session :: string
  sc_region :: string

definition scope_identity :: "crypto \<Rightarrow> replica_scope \<Rightarrow> string" where
  "scope_identity C scope = session_path C (sc_host scope) (sc_session scope) @ ''/''"

text \<open>A replication ticket is its list of replicas.\<close>

type_synonym replication_ticket = "replica_target list"

definition validate_ticket :: "replication_ticket \<Rightarrow> unit result" where
  "validate_ticket replicas =
     (let count = length replicas in
      bindR (ensure (1 \<le> count \<and> count \<le> MAX_REPLICAS) ''invalid replica count'') (\<lambda>_.
      let hosts = remdups (map rt_host_id replicas); urls = remdups (map rt_url replicas) in
      ensure (length hosts = count \<and> length urls = count) ''replica hosts must be distinct''))"

text \<open>
  The configured replica regions: the environment variable is decoded by the JSON crate, so the
  decoder of a list of strings is an argument.
\<close>

fun validate_regions :: "string list \<Rightarrow> unit result" where
  "validate_regions [] = Ok ()"
| "validate_regions (r # rs) = bindR (validate_region r) (\<lambda>_. validate_regions rs)"

definition configured_replica_regions ::
    "(string \<Rightarrow> string list option) \<Rightarrow> (string \<Rightarrow> string option) \<Rightarrow> string list result" where
  "configured_replica_regions from_str get =
     bindR (ok_or (from_str (case get ''DURABLE_ACTORS_REPLICA_REGIONS'' of
                               Some v \<Rightarrow> v | None \<Rightarrow> ''[]'')) ''invalid replica regions'') (\<lambda>regions.
     bindR (ensure (length regions \<le> MAX_REPLICAS)
       (''at most '' @ show_radix 10 MAX_REPLICAS @ '' replicas are supported'')) (\<lambda>_.
     bindR (validate_regions regions) (\<lambda>_. Ok regions)))"

record write_plan =
  wp_stream :: replica_stream
  wp_state_version :: u64
  wp_object_name :: string
  wp_expires_at_ms :: int
  wp_replication :: "replication_ticket option"

datatype state_write = Written | AlreadyExists | Replicated

section \<open>Facts about snapshots and streams\<close>

lemma validate_snapshot_Ok [result_simps]:
  "validate_snapshot s = Inr u \<longleftrightarrow>
     0 < ss_state_version s \<and> 0 < ss_owner_epoch s \<and> ss_request_id s \<noteq> [] \<and>
     length (ss_request_id s) \<le> 255 \<and> starts_with (ss_state s) ''{'' \<and>
     length (ss_state s) \<le> MAX_ACTOR_STATE_BYTES"
  by (auto simp: validate_snapshot_def result_simps)

lemma decode_Ok [result_simps]:
  "decode J b = Inr s \<longleftrightarrow> snapshot_from_slice J b = Some s \<and> validate_snapshot s = Inr ()"
  by (auto simp: decode_def result_simps)

lemma encode_Ok [result_simps]:
  "encode J s = Inr b \<longleftrightarrow> validate_snapshot s = Inr () \<and> b = snapshot_to_vec J s"
  by (auto simp: encode_def result_simps)

lemma decode_encode:
  "snapshot_codec_laws J \<Longrightarrow> encode J s = Inr b \<Longrightarrow> decode J b = Inr s"
  by (auto simp: decode_Ok encode_Ok snapshot_codec_laws_def)

lemma stream_snapshot_Ok [result_simps]:
  "stream_snapshot C J st b = Inr r \<longleftrightarrow>
     (\<exists>s. decode J b = Inr s \<and> ss_owner_epoch s = rs_owner_epoch st \<and>
          rs_base_version st < ss_state_version s \<and>
          r = new_snapshot_ref C (stream_object st (ss_state_version s)) s b)"
  by (auto simp: stream_snapshot_def result_simps)

lemma stream_snapshot_facts:
  assumes "stream_snapshot C J st b = Inr r"
  shows "sr_object r = stream_object st (sr_state_version r)" "rs_base_version st < sr_state_version r"
    "sr_digest r = checksum C b" "0 < sr_state_version r"
  using assms by (auto simp: stream_snapshot_Ok new_snapshot_ref_def decode_Ok validate_snapshot_Ok)

lemma verify_stream_snapshot: "stream_snapshot C J st b = Inr r \<Longrightarrow> verify_ref C r b = Inr ()"
  by (simp add: verify_ref_def stream_snapshot_facts)

lemma stream_object_inj: "stream_object st v = stream_object st v' \<Longrightarrow> v = v'"
  by (auto simp: stream_object_def dest: show_u64_inj)

lemma stream_object_prefix: "starts_with (stream_object st v) (rs_prefix st)"
  by (simp add: stream_object_def)

text \<open>
  A stream whose prefix ends with its owner epoch, as every stream the runtime makes does: then the
  position read from an object name of the stream is its epoch and version.
\<close>

definition epoch_prefixed :: "replica_stream \<Rightarrow> bool" where
  "epoch_prefixed st \<longleftrightarrow>
     (\<exists>x. rs_prefix st = x @ ''/'' @ show_hex_padded 32 (unat (rs_owner_epoch st)) @ ''/'')"

lemma snapshot_position_stream:
  "epoch_prefixed st \<Longrightarrow> snapshot_position (stream_object st v) = Some (rs_owner_epoch st, v)"
  unfolding epoch_prefixed_def stream_object_def
  using snapshot_position_name [OF parse_show_hex_padded hex_no_slash] by fastforce

lemma length_remdups_map: "length (remdups (map f ts)) = length ts \<longleftrightarrow> distinct (map f ts)"
  by (metis length_map length_remdups_eq remdups_id_iff_distinct)

lemma validate_ticket_Ok [result_simps]:
  "validate_ticket ts = Inr u \<longleftrightarrow>
     1 \<le> length ts \<and> length ts \<le> MAX_REPLICAS \<and> distinct (map rt_host_id ts) \<and>
     distinct (map rt_url ts)"
  by (auto simp: validate_ticket_def result_simps Let_def length_remdups_map)

text \<open>
  A concrete decoder for evaluations: the first byte is the state version of an empty snapshot of the
  first owner epoch.
\<close>

definition demo_snapshot :: "nat \<Rightarrow> state_snapshot" where
  "demo_snapshot v = \<lparr>ss_attribution = None, ss_state_version = word_of_nat v, ss_owner_epoch = 1,
     ss_request_id = ''r'', ss_state = ''{}'', ss_result = JNull\<rparr>"

definition demo_codec :: snapshot_codec where
  "demo_codec = \<lparr>to_raw_value = (\<lambda>_. ''{}''), from_raw_value = (\<lambda>_. Some (JObj [])),
     snapshot_to_vec = (\<lambda>s. [char_of (unat (ss_state_version s))]),
     snapshot_from_slice = (\<lambda>b. case b of [] \<Rightarrow> None | c # _ \<Rightarrow> Some (demo_snapshot (byte c)))\<rparr>"

end
