(* ===== verification/Sockets.thy ===== *)
theory Sockets
  imports Identity
begin

text \<open>
  Actor sockets: the messages, events and effects of \<^verbatim>\<open>src/actor/executor_connection.rs\<close>, the validation
  of effects in \<^verbatim>\<open>src/actor/socket.rs\<close>, and the registry of open sockets with its outbound channels in
  \<^verbatim>\<open>src/sockets/mod.rs\<close>.

  A registered socket holds the sender of a channel whose receiver the connection task holds, so
  channels are kept in a store and named by a number. The size of a serialised JSON value and the
  decoder of standard Base64 are third-party code and are arguments.
\<close>

section \<open>Messages, events and effects\<close>

type_synonym u16 = "16 word"

record socket_connection =
  asc_id :: string
  asc_metadata :: json
  asc_tags :: "string list"

datatype socket_message = Text string | Binary string

datatype socket_event =
    Connect socket_connection
  | Message string socket_message
  | Disconnect socket_connection u16 string bool

datatype tag_match = MatchAll | MatchAny

datatype socket_effect =
    StateSnapshot string json "u64 option"
  | StateUpdate json "string list" "string list" "u64 option"
  | Send string socket_message
  | Broadcast socket_message "string list" "string list" tag_match
  | Close string u16 string
  | Reject string u16 string
  | SetMetadata string json
  | SetTags string "string list"

section \<open>Validation of effects\<close>

definition MAX_SOCKET_METADATA_BYTES :: nat where "MAX_SOCKET_METADATA_BYTES = 64 * 1024"
definition MAX_SOCKET_MESSAGE_BYTES :: nat where "MAX_SOCKET_MESSAGE_BYTES = 16 * 1024 * 1024"
definition MAX_SOCKET_CONNECTION_ID_BYTES :: nat where "MAX_SOCKET_CONNECTION_ID_BYTES = 128"
definition MAX_SOCKET_TAGS :: nat where "MAX_SOCKET_TAGS = 128"
definition MAX_SOCKET_TAG_CHARACTERS :: nat where "MAX_SOCKET_TAG_CHARACTERS = 256"
definition MAX_SOCKET_TAG_BYTES :: nat where "MAX_SOCKET_TAG_BYTES = 8 * 1024"
definition MAX_SOCKET_CLOSE_REASON_BYTES :: nat where "MAX_SOCKET_CLOSE_REASON_BYTES = 123"

record socket_codec =
  json_to_vec :: "json \<Rightarrow> bytes"
  effect_to_vec :: "socket_effect \<Rightarrow> bytes"
  standard_decode :: "string \<Rightarrow> bytes option"

definition validate_socket_metadata :: "socket_codec \<Rightarrow> json \<Rightarrow> unit result" where
  "validate_socket_metadata K metadata =
     ensure (length (json_to_vec K metadata) \<le> MAX_SOCKET_METADATA_BYTES) (''socket metadata exceeds '' @ show_radix 10 MAX_SOCKET_METADATA_BYTES @ '' bytes'')"

definition validate_public_state :: "socket_codec \<Rightarrow> json \<Rightarrow> unit result" where
  "validate_public_state K state =
     bindR (ensure (is_object state) ''public state must be a JSON object'') (\<lambda>_.
     ensure (length (json_to_vec K state) \<le> MAX_SOCKET_MESSAGE_BYTES - 256) ''public state exceeds message limit'')"

definition validate_socket_message :: "socket_codec \<Rightarrow> socket_message \<Rightarrow> unit result" where
  "validate_socket_message K message =
     (case message of
        Text data \<Rightarrow> ensure (length data \<le> MAX_SOCKET_MESSAGE_BYTES)
          (''socket message exceeds '' @ show_radix 10 MAX_SOCKET_MESSAGE_BYTES @ '' bytes'')
      | Binary data \<Rightarrow>
          bindR (ensure (length data \<le> (MAX_SOCKET_MESSAGE_BYTES + 2) div 3 * 4)

            (''socket message exceeds '' @ show_radix 10 MAX_SOCKET_MESSAGE_BYTES @ '' decoded bytes'')) (\<lambda>_.
          bindR (ok_or (standard_decode K data) ''socket binary message is not valid base64'') (\<lambda>decoded.
          ensure (length decoded \<le> MAX_SOCKET_MESSAGE_BYTES)
            (''socket message exceeds '' @ show_radix 10 MAX_SOCKET_MESSAGE_BYTES @ '' decoded bytes''))))"

definition validate_connection_id :: "string \<Rightarrow> unit result" where
  "validate_connection_id connection_id =
     bindR (ensure (connection_id \<noteq> []) ''socket connection ID is empty'') (\<lambda>_.
     ensure (length connection_id \<le> MAX_SOCKET_CONNECTION_ID_BYTES)
       (''socket connection ID exceeds '' @ show_radix 10 MAX_SOCKET_CONNECTION_ID_BYTES @ '' bytes''))"

fun validate_connection_ids :: "string list \<Rightarrow> unit result" where
  "validate_connection_ids [] = Ok ()"
| "validate_connection_ids (i # is) = bindR (validate_connection_id i) (\<lambda>_. validate_connection_ids is)"

definition saturating_add_usize :: "nat \<Rightarrow> nat \<Rightarrow> nat" where
  "saturating_add_usize a b = min (a + b) (2 ^ 64 - 1)"

fun tag_bytes :: "string list \<Rightarrow> nat \<Rightarrow> nat result" where
  "tag_bytes [] n = Ok n"
| "tag_bytes (tag # tags) n =
     bindR (ensure (tag \<noteq> []) ''socket tag is empty'') (\<lambda>_.
     bindR (ensure (char_count tag \<le> MAX_SOCKET_TAG_CHARACTERS)
       (''socket tag exceeds '' @ show_radix 10 MAX_SOCKET_TAG_CHARACTERS @ '' characters'')) (\<lambda>_.
     tag_bytes tags (saturating_add_usize n (length tag))))"

definition validate_socket_tags :: "string list \<Rightarrow> unit result" where
  "validate_socket_tags tags =
     bindR (ensure (length tags \<le> MAX_SOCKET_TAGS)
       (''socket tags exceed '' @ show_radix 10 MAX_SOCKET_TAGS @ '' entries'')) (\<lambda>_.
     bindR (tag_bytes tags 0) (\<lambda>total_bytes.
     ensure (total_bytes \<le> MAX_SOCKET_TAG_BYTES)
       (''socket tags exceed '' @ show_radix 10 MAX_SOCKET_TAG_BYTES @ '' bytes'')))"

definition validate_close :: "u16 \<Rightarrow> string \<Rightarrow> unit result" where
  "validate_close code reason =
     bindR (ensure (code = 1000 \<or> (3000 \<le> code \<and> code \<le> 4999))
       ''socket close code must be 1000 or between 3000 and 4999'') (\<lambda>_.
     ensure (length reason \<le> MAX_SOCKET_CLOSE_REASON_BYTES)
       (''socket close reason exceeds '' @ show_radix 10 MAX_SOCKET_CLOSE_REASON_BYTES @ '' bytes''))"

definition validate_socket_effect :: "socket_codec \<Rightarrow> socket_effect \<Rightarrow> unit result" where
  "validate_socket_effect K effect =
     (case effect of
        StateSnapshot connection_id state version \<Rightarrow>
          bindR (validate_connection_id connection_id) (\<lambda>_. validate_public_state K state)
      | StateUpdate changes removed except_ids version \<Rightarrow>
          bindR (validate_public_state K changes) (\<lambda>_.
          bindR (ensure (list_all (\<lambda>field. json_get changes field = None) removed)
            ''state field is both changed and removed'') (\<lambda>_.
          bindR (ensure (length (effect_to_vec K effect) \<le> MAX_SOCKET_MESSAGE_BYTES)
            ''state update exceeds message limit'') (\<lambda>_.
          validate_connection_ids except_ids)))
      | Send connection_id message \<Rightarrow>
          bindR (validate_connection_id connection_id) (\<lambda>_. validate_socket_message K message)
      | Broadcast message except_ids tags tag_match \<Rightarrow>
          bindR (ensure (length except_ids \<le> MAX_SOCKET_TAGS)

            (''socket broadcast exclusions exceed '' @ show_radix 10 MAX_SOCKET_TAGS @ '' entries'')) (\<lambda>_.
          bindR (validate_connection_ids except_ids) (\<lambda>_.
          bindR (validate_socket_tags tags) (\<lambda>_. validate_socket_message K message)))
      | Close connection_id code reason \<Rightarrow>
          bindR (validate_connection_id connection_id) (\<lambda>_. validate_close code reason)
      | Reject connection_id code reason \<Rightarrow>
          bindR (validate_connection_id connection_id) (\<lambda>_. validate_close code reason)
      | SetMetadata connection_id metadata \<Rightarrow>
          bindR (validate_connection_id connection_id) (\<lambda>_. validate_socket_metadata K metadata)
      | SetTags connection_id tags \<Rightarrow>
          bindR (validate_connection_id connection_id) (\<lambda>_. validate_socket_tags tags))"

fun validate_socket_effects :: "socket_codec \<Rightarrow> socket_effect list \<Rightarrow> unit result" where
  "validate_socket_effects K [] = Ok ()"
| "validate_socket_effects K (e # es) =
     bindR (validate_socket_effect K e) (\<lambda>_. validate_socket_effects K es)"

section \<open>Outbound channels\<close>

datatype outbound_message = OutMessage socket_message | OutControl json | OutClose u16 string

record channel =
  ch_queue :: "outbound_message list"
  ch_receiving :: bool
  ch_overflow :: bool

definition socket_channel :: channel where
  "socket_channel = \<lparr>ch_queue = [], ch_receiving = True, ch_overflow = False\<rparr>"

text \<open>\<open>try_send\<close> fails on a full channel of 32 messages and on a dropped receiver.\<close>

definition socket_send :: "outbound_message \<Rightarrow> channel \<Rightarrow> channel" where
  "socket_send message ch =
     (if ch_receiving ch \<and> length (ch_queue ch) < 32 then ch\<lparr>ch_queue := ch_queue ch @ [message]\<rparr>
      else ch\<lparr>ch_overflow := True\<rparr>)"

text \<open>\<open>recv\<close> is ready with a message, ready with the end of the stream, or pending.\<close>

datatype 'a poll = Ready 'a | Pending

definition socket_recv :: "bool \<Rightarrow> channel \<Rightarrow> outbound_message option poll \<times> channel" where
  "socket_recv senders ch =
     (if ch_overflow ch then (Ready (Some (OutClose 1013 ''socket output queue is full'')), ch)
      else case ch_queue ch of
        m # ms \<Rightarrow> (Ready (Some m), ch\<lparr>ch_queue := ms\<rparr>)
      | [] \<Rightarrow> (if senders then Pending else Ready None, ch))"

section \<open>The registry\<close>

definition MAX_CONNECTIONS_PER_ACTOR :: nat where "MAX_CONNECTIONS_PER_ACTOR = 128"

record registered_socket =
  rg_connection :: socket_connection
  rg_outbound :: nat
  rg_open :: bool
  rg_state_ready :: bool

record actor_socket_inventory =
  asi_actor :: actor_key
  asi_connections :: "socket_connection list"

type_synonym sockets_of = "(string \<times> registered_socket) list"

record socket_registry =
  sk_entries :: "(actor_key \<times> sockets_of) list"
  sk_activity :: nat
  sk_inventory_changes :: nat
  sk_channels :: "nat \<Rightarrow> channel"

definition sockets_at :: "actor_key \<Rightarrow> socket_registry \<Rightarrow> sockets_of" where
  "sockets_at actor s = (case map_of (sk_entries s) actor of Some m \<Rightarrow> m | None \<Rightarrow> [])"

definition count_sockets :: "(actor_key \<times> sockets_of) list \<Rightarrow> nat" where
  "count_sockets entries = sum_list (map (\<lambda>(_, m). length m) entries)"

definition default_registry :: socket_registry where
  "default_registry = \<lparr>sk_entries = [], sk_activity = 0, sk_inventory_changes = 0,
     sk_channels = (\<lambda>_. socket_channel)\<rparr>"

definition open_connections :: "sockets_of \<Rightarrow> socket_connection list" where
  "open_connections m = map rg_connection (filter rg_open (map snd m))"

definition socket_inventory :: "socket_registry \<Rightarrow> actor_socket_inventory list" where
  "socket_inventory s =
     sort_key (\<lambda>i. (actor_name (asi_actor i), actor_id (asi_actor i)))
       (filter (\<lambda>i. asi_connections i \<noteq> [])
         (map (\<lambda>(actor, m). \<lparr>asi_actor = actor, asi_connections = sort_key asc_id (open_connections m)\<rparr>)
           (sk_entries s)))"

definition socket_insert :: "actor_key \<Rightarrow> socket_connection \<Rightarrow> nat \<Rightarrow> socket_registry \<Rightarrow> bool \<times> socket_registry" where
  "socket_insert actor connection outbound s =
     (let m = sockets_at actor s;
          entries = AList.update actor m (sk_entries s)
      in if MAX_CONNECTIONS_PER_ACTOR \<le> length m then (False, s\<lparr>sk_entries := entries\<rparr>)
         else
           let m = AList.update (asc_id connection) \<lparr>rg_connection = connection, rg_outbound = outbound,
                     rg_open = False, rg_state_ready = False\<rparr> m;
               entries = AList.update actor m entries
           in (True, s\<lparr>sk_entries := entries, sk_activity := count_sockets entries\<rparr>))"

definition socket_remove :: "actor_key \<Rightarrow> string \<Rightarrow> socket_registry \<Rightarrow> socket_connection option \<times> socket_registry" where
  "socket_remove actor connection_id s =
     (case map_of (sk_entries s) actor of
        None \<Rightarrow> (None, s)
      | Some m \<Rightarrow>
          let removed = map_option rg_connection (map_of m connection_id);
              m = AList.delete connection_id m;
              entries = (if m = [] then AList.delete actor (sk_entries s) else AList.update actor m (sk_entries s));
              s = s\<lparr>sk_entries := entries, sk_activity := count_sockets entries\<rparr>
          in (removed, if removed \<noteq> None then s\<lparr>sk_inventory_changes := sk_inventory_changes s + 1\<rparr> else s))"

definition socket_connections :: "actor_key \<Rightarrow> socket_registry \<Rightarrow> socket_connection list" where
  "socket_connections actor s = open_connections (sockets_at actor s)"

definition prepare_event ::
    "actor_key \<Rightarrow> socket_event \<Rightarrow> socket_registry \<Rightarrow> (socket_event \<times> socket_connection list) \<times> socket_registry" where
  "prepare_event actor event s =
     (case event of
        Connect connection \<Rightarrow> ((Connect connection, socket_connections actor s @ [connection]), s)
      | Message connection_id message \<Rightarrow> ((Message connection_id message, socket_connections actor s), s)
      | Disconnect connection code reason was_clean \<Rightarrow>
          (case socket_remove actor (asc_id connection) s of
             (removed, s) \<Rightarrow>
               ((Disconnect (case removed of Some c \<Rightarrow> c | None \<Rightarrow> connection) code reason was_clean,
                 socket_connections actor s), s)))"

text \<open>\<open>get_mut\<close> on the two maps: update one entry if it is there.\<close>

definition modify_socket ::
    "actor_key \<Rightarrow> string \<Rightarrow> (registered_socket \<Rightarrow> registered_socket) \<Rightarrow> socket_registry \<Rightarrow> socket_registry" where
  "modify_socket actor connection_id f s =
     (case map_of (sockets_at actor s) connection_id of
        None \<Rightarrow> s
      | Some e \<Rightarrow> s\<lparr>sk_entries := AList.update actor
          (AList.update connection_id (f e) (sockets_at actor s)) (sk_entries s)\<rparr>)"

definition send_to :: "outbound_message \<Rightarrow> nat \<Rightarrow> socket_registry \<Rightarrow> socket_registry" where
  "send_to message ch s = s\<lparr>sk_channels := (sk_channels s)(ch := socket_send message (sk_channels s ch))\<rparr>"

definition socket_sender :: "actor_key \<Rightarrow> string \<Rightarrow> socket_registry \<Rightarrow> nat option" where
  "socket_sender actor connection_id s =
     map_option rg_outbound (map_of (sockets_at actor s) connection_id)"

definition send_one :: "actor_key \<Rightarrow> string \<Rightarrow> outbound_message \<Rightarrow> socket_registry \<Rightarrow> socket_registry" where
  "send_one actor connection_id message s =
     (case socket_sender actor connection_id s of None \<Rightarrow> s | Some ch \<Rightarrow> send_to message ch s)"

definition tags_match :: "tag_match \<Rightarrow> string list \<Rightarrow> string list \<Rightarrow> bool" where
  "tags_match tag_match tags own \<longleftrightarrow>
     tags = [] \<or>
     (case tag_match of
        MatchAll \<Rightarrow> list_all (\<lambda>tag. tag \<in> set own) tags
      | MatchAny \<Rightarrow> list_ex (\<lambda>tag. tag \<in> set own) tags)"

definition broadcast_recipients ::
    "string list \<Rightarrow> string list \<Rightarrow> tag_match \<Rightarrow> sockets_of \<Rightarrow> registered_socket list" where
  "broadcast_recipients except_ids tags tag_match m =
     filter (\<lambda>e. rg_open e \<and> asc_id (rg_connection e) \<notin> set except_ids \<and>
         tags_match tag_match tags (asc_tags (rg_connection e)))
       (map snd m)"

definition state_message :: "json \<Rightarrow> u64 \<Rightarrow> outbound_message" where
  "state_message state version = OutControl (JObj
     [(''state'', state), (''type'', JStr ''state''), (''version'', JNum (show_u64 version))])"

definition update_message :: "json \<Rightarrow> string list \<Rightarrow> u64 \<Rightarrow> outbound_message" where
  "update_message changes removed version = OutControl (JObj
     [(''changes'', changes), (''removed'', JArr (map JStr removed)), (''type'', JStr ''state_update''),
      (''version'', JNum (show_u64 version))])"

definition socket_apply_one :: "actor_key \<Rightarrow> socket_effect \<Rightarrow> socket_registry \<Rightarrow> socket_registry" where
  "socket_apply_one actor effect s =
     (case effect of
        StateSnapshot connection_id state version \<Rightarrow>
          (case version of None \<Rightarrow> s
           | Some v \<Rightarrow>
               send_one actor connection_id (state_message state v)
                 (modify_socket actor connection_id (\<lambda>e. e\<lparr>rg_state_ready := True\<rparr>) s))
      | StateUpdate changes removed except_ids version \<Rightarrow>
          (case version of None \<Rightarrow> s
           | Some v \<Rightarrow>
               fold (\<lambda>e. send_to (update_message changes removed v) (rg_outbound e))
                 (filter (\<lambda>e. rg_state_ready e \<and> asc_id (rg_connection e) \<notin> set except_ids)
                   (map snd (sockets_at actor s))) s)
      | Broadcast message except_ids tags tag_match \<Rightarrow>
          fold (\<lambda>e. send_to (OutMessage message) (rg_outbound e))
            (broadcast_recipients except_ids tags tag_match (sockets_at actor s)) s
      | SetMetadata connection_id metadata \<Rightarrow>
          if map_of (sockets_at actor s) connection_id = None then s
          else (modify_socket actor connection_id
                 (\<lambda>e. e\<lparr>rg_connection := (rg_connection e)\<lparr>asc_metadata := metadata\<rparr>\<rparr>) s)
               \<lparr>sk_inventory_changes := sk_inventory_changes s + 1\<rparr>
      | SetTags connection_id tags \<Rightarrow>
          modify_socket actor connection_id (\<lambda>e. e\<lparr>rg_connection := (rg_connection e)\<lparr>asc_tags := tags\<rparr>\<rparr>) s
      | Send connection_id message \<Rightarrow> send_one actor connection_id (OutMessage message) s
      | Close connection_id code reason \<Rightarrow> send_one actor connection_id (OutClose code reason) s
      | Reject connection_id code reason \<Rightarrow> send_one actor connection_id (OutClose code reason) s)"

definition socket_apply :: "actor_key \<Rightarrow> socket_effect list \<Rightarrow> socket_registry \<Rightarrow> socket_registry" where
  "socket_apply actor effects s = fold (socket_apply_one actor) effects s"

definition socket_activate :: "actor_key \<Rightarrow> string \<Rightarrow> socket_registry \<Rightarrow> socket_registry" where
  "socket_activate actor connection_id s =
     (if map_of (sockets_at actor s) connection_id = None then s
      else (modify_socket actor connection_id (\<lambda>e. e\<lparr>rg_open := True\<rparr>) s)
             \<lparr>sk_inventory_changes := sk_inventory_changes s + 1\<rparr>)"

section \<open>The registry keeps its invariant\<close>

definition sockets_ok :: "sockets_of \<Rightarrow> bool" where
  "sockets_ok m \<longleftrightarrow>
     m \<noteq> [] \<and> length m \<le> MAX_CONNECTIONS_PER_ACTOR \<and> distinct (map fst m) \<and>
     (\<forall>k e. map_of m k = Some e \<longrightarrow> asc_id (rg_connection e) = k)"

definition entries_ok :: "(actor_key \<times> sockets_of) list \<Rightarrow> bool" where
  "entries_ok entries \<longleftrightarrow>
     distinct (map fst entries) \<and> (\<forall>a m. map_of entries a = Some m \<longrightarrow> sockets_ok m)"

definition registry_inv :: "socket_registry \<Rightarrow> bool" where
  "registry_inv s \<longleftrightarrow>
     entries_ok (sk_entries s) \<and> sk_activity s = count_sockets (sk_entries s) \<and>
     (\<forall>c. length (ch_queue (sk_channels s c)) \<le> 32)"

lemma AList_update_id: "map_of al k = Some v \<Longrightarrow> AList.update k v al = al"
  by (induction al) (auto split: if_splits)

lemma length_AList_update:
  "length (AList.update k v al) = (if map_of al k = None then Suc (length al) else length al)"
  by (induction al) auto

lemma count_sockets_update:
  "map_of entries a = Some m \<Longrightarrow> length m' = length m \<Longrightarrow>
   count_sockets (AList.update a m' entries) = count_sockets entries"
  by (induction entries) (auto simp: count_sockets_def split: if_splits)

lemma entries_ok_update:
  "entries_ok entries \<Longrightarrow> sockets_ok m \<Longrightarrow> entries_ok (AList.update a m entries)"
  by (auto simp: entries_ok_def distinct_update update_conv' split: if_splits)

lemma entries_ok_delete: "entries_ok entries \<Longrightarrow> entries_ok (AList.delete a entries)"
  by (auto simp: entries_ok_def distinct_delete delete_conv' split: if_splits)

lemma sockets_ok_update:
  assumes "sockets_ok m \<or> m = []" "length m < MAX_CONNECTIONS_PER_ACTOR \<or> map_of m k \<noteq> None"
    "asc_id (rg_connection e) = k"
  shows "sockets_ok (AList.update k e m)"
  using assms
  by (auto simp: sockets_ok_def length_AList_update distinct_update update_conv' update_nonempty
      split: if_splits)

lemma sockets_ok_delete: "sockets_ok m \<Longrightarrow> AList.delete k m \<noteq> [] \<Longrightarrow> sockets_ok (AList.delete k m)"
  using length_delete_le [of k m]
  by (auto simp: sockets_ok_def distinct_delete delete_conv' split: if_splits)

lemma registry_sockets_at: "registry_inv s \<Longrightarrow> sockets_ok (sockets_at a s) \<or> sockets_at a s = []"
  by (auto simp: registry_inv_def entries_ok_def sockets_at_def split: option.splits)

lemma registry_inv_insert: "registry_inv s \<Longrightarrow> registry_inv (snd (socket_insert a c ch s))"
proof -
  assume inv: "registry_inv s"
  show ?thesis
  proof (cases "MAX_CONNECTIONS_PER_ACTOR \<le> length (sockets_at a s)")
    case True
    then have "map_of (sk_entries s) a = Some (sockets_at a s)"
      by (auto simp: sockets_at_def MAX_CONNECTIONS_PER_ACTOR_def split: option.splits)
    with True inv show ?thesis by (simp add: socket_insert_def AList_update_id)
  next
    case False
    then have "sockets_ok (AList.update (asc_id c) \<lparr>rg_connection = c, rg_outbound = ch, rg_open = False,
        rg_state_ready = False\<rparr> (sockets_at a s))"
      using registry_sockets_at [OF inv, of a] by (intro sockets_ok_update) auto
    moreover have "AList.update a m (AList.update a m' al) = AList.update a m al" for m m' and al :: "(actor_key \<times> sockets_of) list"
      by (induction al) auto
    ultimately show ?thesis
      using False inv by (simp add: socket_insert_def Let_def registry_inv_def entries_ok_update)
  qed
qed

lemma registry_inv_remove: "registry_inv s \<Longrightarrow> registry_inv (snd (socket_remove a i s))"
  by (auto simp: socket_remove_def registry_inv_def Let_def entries_ok_delete
      intro!: entries_ok_update sockets_ok_delete split: option.splits)
    (auto simp: entries_ok_def)

lemma registry_inv_modify:
  assumes "registry_inv s" "\<And>e. asc_id (rg_connection (f e)) = asc_id (rg_connection e)"
  shows "registry_inv (modify_socket a i f s)"
proof (cases "map_of (sockets_at a s) i")
  case (Some e)
  then have m: "map_of (sk_entries s) a = Some (sockets_at a s)"
    by (auto simp: sockets_at_def split: option.splits)
  have ok: "sockets_ok (sockets_at a s)"
    using assms(1) m by (simp add: registry_inv_def entries_ok_def)
  with Some have "asc_id (rg_connection (f e)) = i" by (auto simp: sockets_ok_def assms(2))
  with Some ok have "sockets_ok (AList.update i (f e) (sockets_at a s))"
    by (intro sockets_ok_update) auto
  with Some m assms(1) show ?thesis
    by (simp add: modify_socket_def registry_inv_def entries_ok_update
        count_sockets_update [OF m] length_AList_update)
qed (use assms(1) in \<open>simp add: modify_socket_def\<close>)

lemma registry_inv_send: "registry_inv s \<Longrightarrow> registry_inv (send_to m ch s)"
  by (auto simp: registry_inv_def send_to_def socket_send_def)

lemma registry_inv_sends: "registry_inv s \<Longrightarrow> registry_inv (fold (\<lambda>e. send_to m (rg_outbound e)) es s)"
  by (induction es arbitrary: s) (simp_all add: registry_inv_send)

lemma registry_inv_send_one: "registry_inv s \<Longrightarrow> registry_inv (send_one a i m s)"
  by (simp add: send_one_def registry_inv_send split: option.splits)

lemma registry_inv_changes [simp]: "registry_inv (s\<lparr>sk_inventory_changes := n\<rparr>) = registry_inv s"
  by (simp add: registry_inv_def)

lemma registry_inv_apply_one: "registry_inv s \<Longrightarrow> registry_inv (socket_apply_one a e s)"
  by (cases e)
    (auto simp: socket_apply_one_def registry_inv_sends
      intro!: registry_inv_modify registry_inv_send_one split: option.splits)

lemma registry_inv_apply: "registry_inv s \<Longrightarrow> registry_inv (socket_apply a es s)"
  unfolding socket_apply_def by (induction es arbitrary: s) (simp_all add: registry_inv_apply_one)

lemma registry_inv_activate: "registry_inv s \<Longrightarrow> registry_inv (socket_activate a i s)"
  by (simp add: socket_activate_def registry_inv_modify)

lemma registry_inv_event: "registry_inv s \<Longrightarrow> registry_inv (snd (prepare_event a e s))"
  by (cases e) (simp_all add: prepare_event_def split_beta registry_inv_remove)

text \<open>Every call a process makes on the registry and its channels.\<close>

datatype registry_call =
    RInsert actor_key socket_connection nat
  | RRemove actor_key string
  | REvent actor_key socket_event
  | RApply actor_key "socket_effect list"
  | RActivate actor_key string
  | RReceive nat bool
  | RDropReceiver nat

fun registry_step :: "registry_call \<Rightarrow> socket_registry \<Rightarrow> socket_registry" where
  "registry_step (RInsert a c ch) s = snd (socket_insert a c ch s)"
| "registry_step (RRemove a i) s = snd (socket_remove a i s)"
| "registry_step (REvent a e) s = snd (prepare_event a e s)"
| "registry_step (RApply a es) s = socket_apply a es s"
| "registry_step (RActivate a i) s = socket_activate a i s"
| "registry_step (RReceive c b) s = s\<lparr>sk_channels := (sk_channels s)(c := snd (socket_recv b (sk_channels s c)))\<rparr>"
| "registry_step (RDropReceiver c) s = s\<lparr>sk_channels := (sk_channels s)(c := (sk_channels s c)\<lparr>ch_receiving := False\<rparr>)\<rparr>"

lemma socket_recv_length: "length (ch_queue (snd (socket_recv b ch))) \<le> length (ch_queue ch)"
  by (simp add: socket_recv_def split: list.split)

lemma registry_inv_step: "registry_inv s \<Longrightarrow> registry_inv (registry_step call s)"
  by (cases call)
    (auto simp: registry_inv_insert registry_inv_remove registry_inv_event registry_inv_apply
      registry_inv_activate, auto simp: registry_inv_def intro: order_trans [OF socket_recv_length])

section \<open>Delivery\<close>

lemma fold_send_channels:
  "distinct (map rg_outbound es) \<Longrightarrow>
   sk_channels (fold (\<lambda>e. send_to m (rg_outbound e)) es s) c =
     (if c \<in> rg_outbound ` set es then socket_send m (sk_channels s c) else sk_channels s c)"
proof (induction es arbitrary: s)
  case (Cons e es)
  then show ?case by (auto simp: send_to_def)
qed simp

lemma fold_send_entries: "sk_entries (fold (\<lambda>e. send_to m (rg_outbound e)) es s) = sk_entries s"
  by (induction es arbitrary: s) (simp_all add: send_to_def)

section \<open>Properties\<close>

text \<open>
  C19: whatever calls are made on the registry, no actor has more than 128 sockets, the activity count
  that hosts watch is the number of registered sockets, every socket is stored under its own identifier,
  no actor is kept without sockets, and no channel holds more than 32 messages.
\<close>

theorem registry_invariant: "registry_inv (fold registry_step calls default_registry)"
proof -
  have "registry_inv (fold registry_step calls s)" if "registry_inv s" for s
    using that by (induction calls arbitrary: s) (simp_all add: registry_inv_step)
  moreover have "registry_inv default_registry"
    by (simp add: registry_inv_def default_registry_def entries_ok_def count_sockets_def socket_channel_def)
  ultimately show ?thesis by blast
qed


definition demo_socket :: "string \<Rightarrow> socket_connection" where
  "demo_socket i = \<lparr>asc_id = i, asc_metadata = JNull, asc_tags = [i]\<rparr>"

definition demo_registry :: "actor_key \<Rightarrow> socket_registry" where
  "demo_registry a = fold registry_step
     [RInsert a (demo_socket ''x'') 0, RInsert a (demo_socket ''y'') 1, RInsert a (demo_socket ''z'') 2,
      RActivate a ''x'', RActivate a ''y''] default_registry"


text \<open>A history of sends and receives on one channel.\<close>

datatype channel_call = CSend outbound_message | CReceive

fun channel_run :: "channel_call list \<Rightarrow> channel \<Rightarrow> outbound_message list \<times> channel" where
  "channel_run [] ch = ([], ch)"
| "channel_run (CSend m # cs) ch = channel_run cs (socket_send m ch)"
| "channel_run (CReceive # cs) ch =
     (case socket_recv True ch of
        (Ready (Some m), ch') \<Rightarrow> (case channel_run cs ch' of (ms, ch'') \<Rightarrow> (m # ms, ch''))
      | (_, ch') \<Rightarrow> channel_run cs ch')"

definition sent :: "channel_call list \<Rightarrow> outbound_message list" where
  "sent cs = concat (map (\<lambda>c. case c of CSend m \<Rightarrow> [m] | CReceive \<Rightarrow> []) cs)"

lemma sent_Cons [simp]: "sent [] = []" "sent (CSend m # cs) = m # sent cs" "sent (CReceive # cs) = sent cs"
  by (simp_all add: sent_def)

lemma channel_run_overflown:
  "ch_overflow ch \<Longrightarrow>
   \<exists>n. channel_run cs ch = (replicate n (OutClose 1013 ''socket output queue is full''), snd (channel_run cs ch)) \<and>
       ch_overflow (snd (channel_run cs ch))"
proof (induction cs arbitrary: ch)
  case Nil show ?case using Nil by (auto intro: exI [of _ 0])
next
  case (Cons c cs)
  show ?case
  proof (cases c)
    case (CSend m)
    with Cons.prems have "ch_overflow (socket_send m ch)" by (simp add: socket_send_def)
    with Cons.IH CSend show ?thesis by simp
  next
    case CReceive
    with Cons.prems Cons.IH [of ch] obtain n where
      "channel_run cs ch = (replicate n (OutClose 1013 ''socket output queue is full''), snd (channel_run cs ch))"
      "ch_overflow (snd (channel_run cs ch))" by blast
    with Cons.prems CReceive show ?thesis
      by (auto simp: socket_recv_def split: prod.splits intro!: exI [of _ "Suc n"])
  qed
qed

definition channel_spec :: "channel_call list \<Rightarrow> channel \<Rightarrow> outbound_message list \<Rightarrow> channel \<Rightarrow> bool" where
  "channel_spec cs ch got ch' \<longleftrightarrow>
     (if ch_overflow ch'
      then \<exists>ms n. prefix ms (ch_queue ch @ sent cs) \<and>
        got = ms @ replicate n (OutClose 1013 ''socket output queue is full'')
      else got @ ch_queue ch' = ch_queue ch @ sent cs)"

lemma channel_run_spec:
  "\<not> ch_overflow ch \<Longrightarrow> channel_run cs ch = (got, ch') \<Longrightarrow> channel_spec cs ch got ch'"
proof (induction cs arbitrary: ch got)
  case Nil then show ?case by (auto simp: channel_spec_def)
next
  case (Cons c cs)
  show ?case
  proof (cases c)
    case (CSend m)
    show ?thesis
    proof (cases "ch_overflow (socket_send m ch)")
      case True
      with channel_run_overflown [OF True, of cs] Cons.prems CSend obtain n where
        "got = replicate n (OutClose 1013 ''socket output queue is full'')" "ch_overflow ch'" by auto
      then show ?thesis unfolding channel_spec_def by (auto intro!: exI [of _ "[]"])
    next
      case False
      with Cons.prems CSend have "channel_spec cs (socket_send m ch) got ch'"
        by (intro Cons.IH) auto
      moreover have "ch_queue (socket_send m ch) = ch_queue ch @ [m]"
        using False by (auto simp: socket_send_def split: if_splits)
      ultimately show ?thesis by (simp add: CSend channel_spec_def split: if_split_asm)
    qed
  next
    case CReceive
    show ?thesis
    proof (cases "ch_queue ch")
      case Nil
      with Cons.prems CReceive have "channel_spec cs ch got ch'"
        by (intro Cons.IH) (auto simp: socket_recv_def)
      then show ?thesis by (simp add: CReceive channel_spec_def split: if_split_asm)
    next
      case (Cons q qs)
      obtain ms where run: "channel_run cs (ch\<lparr>ch_queue := qs\<rparr>) = (ms, ch')" "got = q # ms"
        using Cons.prems CReceive Cons by (auto simp: socket_recv_def split: prod.splits)
      have "channel_spec cs (ch\<lparr>ch_queue := qs\<rparr>) ms ch'"
        using Cons.IH [OF _ run(1)] Cons.prems(1) by simp
      then show ?thesis
        by (auto simp: CReceive channel_spec_def run(2) Cons) (metis append_Cons Cons_prefix_Cons)
    qed
  qed
qed


end
