(* ===== verification/Actor_Runtime.thy ===== *)
theory Actor_Runtime
  imports State_Log Sockets
begin

text \<open>
  The runtime of one actor on its host, \<^verbatim>\<open>src/host/actor_runtime.rs\<close>, with the outcomes of
  \<^verbatim>\<open>src/actor/executor_connection.rs\<close> and the results of \<^verbatim>\<open>src/actor/protocol.rs\<close>.

  The executor, the storage, the writer of snapshots and the publisher of socket effects are trait
  objects: \<open>actor_services\<close> holds their operations on an environment. \<open>actor_runtime\<close> is the state of the
  runtime, the cached actor state with its pending commit and the activation. A function that borrows
  the cached state mutably works on the pair of the cached state and the environment. Log lines and
  the timings they print are left out.
\<close>

section \<open>Invocations, outcomes and results\<close>

record invocation_failure =
  if_code :: string
  if_message :: string

definition outcome_unknown_after_execution :: invocation_failure where
  "outcome_unknown_after_execution = \<lparr>if_code = ''outcome_unknown'',
     if_message = ''actor execution completed, but its durable publication outcome could not be confirmed''\<rparr>"

datatype execution_result =
    Completed json "socket_effect list"
  | Failed invocation_failure
  | Reroute
  | HostUnavailable

record interleaved_outcome =
  io_sequence :: u64
  io_result :: json
  io_state :: json
  io_effects :: "socket_effect list"

datatype method_outcome =
    MInterleaved interleaved_outcome
  | MCompleted json json "socket_effect list"
  | MFailed invocation_failure

datatype socket_outcome =
    SInterleaved interleaved_outcome
  | SHandled json "socket_effect list"
  | SFailed invocation_failure

record socket_invocation =
  si_request_id :: string
  si_actor :: actor_key
  si_event :: socket_event
  si_connections :: "socket_connection list"

definition socket_event_name :: "socket_event \<Rightarrow> string" where
  "socket_event_name event =
     (case event of Connect _ \<Rightarrow> ''onConnect'' | Message _ _ \<Rightarrow> ''onMessage'' | Disconnect _ _ _ _ \<Rightarrow> ''onDisconnect'')"

definition failed :: "string \<Rightarrow> string \<Rightarrow> execution_result" where
  "failed code message = Failed \<lparr>if_code = code, if_message = message\<rparr>"

fun show_error :: "error \<Rightarrow> string" where
  "show_error (Msg m) = m"
| "show_error (Status _ m) = m"
| "show_error _ = []"

definition i64_saturating_add :: "int \<Rightarrow> int \<Rightarrow> int" where
  "i64_saturating_add a b = max (- (2 ^ 63)) (min (a + b) (2 ^ 63 - 1))"

section \<open>Services and state\<close>

record actor_activation =
  act_owner_epoch :: u64
  act_state_version :: u64
  act_state :: "bytes option"

record commit_origin =
  co_connection_id :: "string option"
  co_interleaved :: bool

definition default_origin :: commit_origin where
  "default_origin = \<lparr>co_connection_id = None, co_interleaved = False\<rparr>"

definition socket_origin :: "socket_event \<Rightarrow> commit_origin" where
  "socket_origin event =
     \<lparr>co_connection_id = Some (case event of Connect c \<Rightarrow> asc_id c | Disconnect c _ _ _ \<Rightarrow> asc_id c | Message i _ \<Rightarrow> i),
      co_interleaved = False\<rparr>"

record 'e actor_services =
  sv_host :: host_id
  sv_snapshots :: snapshot_codec
  sv_sockets :: socket_codec
  sv_unix_millis :: "('e, int) eff"
  x_supports :: "string \<Rightarrow> bool"
  x_hydrate :: "actor_key \<Rightarrow> json option \<Rightarrow> ('e, unit) eff"
  x_invoke :: "actor_invocation \<Rightarrow> json option \<Rightarrow> ('e, method_outcome) eff"
  x_handle_socket :: "socket_invocation \<Rightarrow> json option \<Rightarrow> ('e, socket_outcome) eff"
  x_evict :: "actor_key \<Rightarrow> ('e, unit) eff"
  s_acquire :: "actor_key \<Rightarrow> host_id \<Rightarrow> ('e, actor_activation) eff"
  s_load_state :: "actor_key \<Rightarrow> host_id \<Rightarrow> u64 \<Rightarrow> ('e, u64 \<times> bytes) eff"
  s_ensure_authority :: "('e, unit) eff"
  s_prepare_write :: "actor_key \<Rightarrow> host_id \<Rightarrow> u64 \<Rightarrow> u64 \<Rightarrow> ('e, write_plan) eff"
  s_write_snapshot :: "write_plan \<Rightarrow> bytes \<Rightarrow> ('e, state_write) eff"
  s_publish :: "actor_key \<Rightarrow> socket_effect list \<Rightarrow> ('e, unit) eff"

record pending_commit =
  pe_snapshot :: state_snapshot
  pe_state :: json
  pe_ticket :: write_plan
  pe_durable :: bool

record cached_actor_state =
  ca_owner_epoch :: u64
  ca_state_version :: u64
  ca_state :: "json option"
  ca_last_request_id :: "string option"
  ca_last_result :: "json option"
  ca_next_write :: "write_plan option"
  ca_pending :: "pending_commit option"

record 'e actor_runtime =
  ar_cached :: "cached_actor_state option"
  ar_activation :: "actor_activation option"
  ar_env :: 'e

definition new_actor_runtime :: "'e \<Rightarrow> 'e actor_runtime" where
  "new_actor_runtime e = \<lparr>ar_cached = None, ar_activation = None, ar_env = e\<rparr>"

definition rt_state_version :: "'e actor_runtime \<Rightarrow> u64 option" where
  "rt_state_version rt =
     (case ar_cached rt of None \<Rightarrow> None
      | Some c \<Rightarrow> if 0 < ca_state_version c then Some (ca_state_version c) else None)"

definition new_cached :: "u64 \<Rightarrow> cached_actor_state" where
  "new_cached owner_epoch = \<lparr>ca_owner_epoch = owner_epoch, ca_state_version = 0, ca_state = None,
     ca_last_request_id = None, ca_last_result = None, ca_next_write = None, ca_pending = None\<rparr>"

definition from_loaded :: "snapshot_codec \<Rightarrow> u64 \<Rightarrow> u64 \<Rightarrow> bytes \<Rightarrow> cached_actor_state result" where
  "from_loaded J owner_epoch state_version loaded =
     bindR (decode J loaded) (\<lambda>snapshot.
     bindR (ensure (ss_state_version snapshot = state_version) ''actor snapshot version does not match its state head'') (\<lambda>_.
     bindR (ensure (ss_owner_epoch snapshot \<le> owner_epoch) ''actor snapshot belongs to a newer owner epoch'') (\<lambda>_.
     bindR (ok_or (from_raw_value J (ss_state snapshot)) ''invalid JSON'') (\<lambda>state.
     Ok \<lparr>ca_owner_epoch = owner_epoch, ca_state_version = state_version, ca_state = Some state,
       ca_last_request_id = Some (ss_request_id snapshot), ca_last_result = Some (ss_result snapshot),
       ca_next_write = None, ca_pending = None\<rparr>))))"

definition cached_replay :: "cached_actor_state \<Rightarrow> string \<Rightarrow> json option" where
  "cached_replay c request_id = (if ca_last_request_id c = Some request_id then ca_last_result c else None)"

text \<open>Computations on the environment, on the cached state, and on the runtime.\<close>

definition envC :: "('e, 'a) eff \<Rightarrow> (cached_actor_state \<times> 'e, 'a) eff" where
  "envC m = zoomE snd (\<lambda>e w. (fst w, e)) m"

definition modC :: "(cached_actor_state \<Rightarrow> cached_actor_state) \<Rightarrow> (cached_actor_state \<times> 'e, unit) eff" where
  "modC f = modE (\<lambda>w. (f (fst w), snd w))"

definition envA :: "('e, 'a) eff \<Rightarrow> ('e actor_runtime, 'a) eff" where
  "envA m = zoomE ar_env (\<lambda>e rt. rt\<lparr>ar_env := e\<rparr>) m"

definition on_cached ::
    "cached_actor_state \<Rightarrow> (cached_actor_state \<times> 'e, 'a) eff \<Rightarrow> ('e actor_runtime, 'a result \<times> cached_actor_state) eff" where
  "on_cached c m rt = (case m (c, ar_env rt) of (r, (c', e')) \<Rightarrow> (Ok (r, c'), rt\<lparr>ar_env := e'\<rparr>))"

definition put_cached :: "cached_actor_state \<Rightarrow> ('e actor_runtime, unit) eff" where
  "put_cached c = modE (\<lambda>rt. rt\<lparr>ar_cached := Some c\<rparr>)"

definition take_cached :: "('e actor_runtime, cached_actor_state option) eff" where
  "take_cached rt = (Ok (ar_cached rt), rt\<lparr>ar_cached := None\<rparr>)"

section \<open>Commits\<close>

definition renew_pending ::
    "'e actor_services \<Rightarrow> actor_invocation \<Rightarrow> pending_commit \<Rightarrow> (cached_actor_state \<times> 'e, pending_commit) eff" where
  "renew_pending S i pending =
     bindE (envC (sv_unix_millis S)) (\<lambda>now.
     if wp_expires_at_ms (pe_ticket pending) \<le> i64_saturating_add now 5000 then
       bindE (getE fst) (\<lambda>c.
       bindE (envC (s_prepare_write S (inv_actor i) (sv_host S) (ca_owner_epoch c) (ca_state_version c))) (\<lambda>renewed.
       bindE (liftE (ensure (wp_stream renewed = wp_stream (pe_ticket pending) \<and>
           wp_object_name renewed = wp_object_name (pe_ticket pending)) ''pending writer has been fenced'')) (\<lambda>_.
       let pending = pending\<lparr>pe_ticket := renewed\<rparr> in
       bindE (modC (\<lambda>c. c\<lparr>ca_pending := Some pending\<rparr>)) (\<lambda>_. retE pending))))
     else retE pending)"

definition settle :: "pending_commit \<Rightarrow> (cached_actor_state \<times> 'e, unit) eff" where
  "settle pending =
     (let s = pe_snapshot pending; ticket = pe_ticket pending in
      bindE (liftE (ok_or (checked_add (ss_state_version s) 1) ''state version overflow'')) (\<lambda>version.
      modC (\<lambda>c. c\<lparr>ca_state_version := ss_state_version s, ca_state := Some (pe_state pending),
        ca_last_request_id := Some (ss_request_id s), ca_last_result := Some (ss_result s),
        ca_next_write := Some (ticket\<lparr>wp_state_version := version, wp_object_name := stream_object (wp_stream ticket) version\<rparr>),
        ca_pending := None\<rparr>)))"

definition finish_pending_commit ::
    "'e actor_services \<Rightarrow> actor_invocation \<Rightarrow> (cached_actor_state \<times> 'e, unit) eff" where
  "finish_pending_commit S i =
     bindE (getE (\<lambda>w. ca_pending (fst w))) (\<lambda>pending.
     case pending of None \<Rightarrow> retE ()
     | Some pending \<Rightarrow>
         bindE (if pe_durable pending then retE pending
           else
             bindE (renew_pending S i pending) (\<lambda>pending.
             bindE (liftE (encode (sv_snapshots S) (pe_snapshot pending))) (\<lambda>bytes.
             bindE (envC (s_write_snapshot S (pe_ticket pending) bytes)) (\<lambda>_.
             let pending = pending\<lparr>pe_durable := True\<rparr> in
             bindE (modC (\<lambda>c. c\<lparr>ca_pending := Some pending\<rparr>)) (\<lambda>_. retE pending))))) (\<lambda>pending.
         settle pending))"

definition state_write_ticket ::
    "'e actor_services \<Rightarrow> actor_invocation \<Rightarrow> u64 \<Rightarrow> u64 \<Rightarrow> (cached_actor_state \<times> 'e, write_plan) eff" where
  "state_write_ticket S i owner_epoch next_version =
     bindE (getE fst) (\<lambda>c.
     bindE (modC (\<lambda>c. c\<lparr>ca_next_write := None\<rparr>)) (\<lambda>_.
     let fresh = envC (s_prepare_write S (inv_actor i) (sv_host S) owner_epoch (ca_state_version c)) in
     case ca_next_write c of
       Some ticket \<Rightarrow>
         if wp_state_version ticket = next_version then
           bindE (envC (sv_unix_millis S)) (\<lambda>now.
           if i64_saturating_add now 5000 < wp_expires_at_ms ticket then retE ticket else fresh)
         else fresh
     | None \<Rightarrow> fresh))"

definition publish_result ::
    "'e actor_services \<Rightarrow> actor_invocation \<Rightarrow> u64 \<Rightarrow> json \<Rightarrow> json \<Rightarrow> commit_origin \<Rightarrow>
     (cached_actor_state \<times> 'e, execution_result) eff" where
  "publish_result S i owner_epoch result next_state origin =
     bindE (getE (\<lambda>w. ca_state_version (fst w))) (\<lambda>version.
     bindE (liftE (ok_or (checked_add version 1) ''actor state version overflow'')) (\<lambda>next_version.
     bindE (state_write_ticket S i owner_epoch next_version) (\<lambda>ticket.
     bindE (liftE (ensure (wp_state_version ticket = next_version) ''state write ticket has the wrong version'')) (\<lambda>_.
     bindE (liftE (ensure (rs_owner_epoch (wp_stream ticket) = owner_epoch)
       ''write capability belongs to another owner epoch'')) (\<lambda>_.
     bindE (liftE (new_snapshot (sv_snapshots S) next_version owner_epoch (inv_request_id i) next_state result)) (\<lambda>snapshot.
     bindE (envC (sv_unix_millis S)) (\<lambda>now.
     let snapshot = snapshot\<lparr>ss_attribution := Some \<lparr>att_operation = inv_method i,
           att_connection_id = co_connection_id origin, att_committed_at_ms = word_of_int now,
           att_interleaved = co_interleaved origin\<rparr>\<rparr> in
     bindE (liftE (encode (sv_snapshots S) snapshot)) (\<lambda>bytes.
     let pending = \<lparr>pe_snapshot = snapshot, pe_state = next_state, pe_ticket = ticket, pe_durable = False\<rparr> in
     bindE (modC (\<lambda>c. c\<lparr>ca_pending := Some pending\<rparr>)) (\<lambda>_.
     bindE (envC (s_write_snapshot S ticket bytes)) (\<lambda>_.
     bindE (modC (\<lambda>c. c\<lparr>ca_pending := Some (pending\<lparr>pe_durable := True\<rparr>)\<rparr>)) (\<lambda>_.
     bindE (finish_pending_commit S i) (\<lambda>_.
     retE (Completed result [])))))))))))))"

section \<open>Invocations\<close>

definition load_state ::
    "'e actor_services \<Rightarrow> actor_key \<Rightarrow> u64 \<Rightarrow> ('e actor_runtime, cached_actor_state) eff" where
  "load_state S actor owner_epoch =
     bindE (envA (s_load_state S actor (sv_host S) owner_epoch)) (\<lambda>(state_version, loaded).
     if state_version = 0 then
       bindE (liftE (ensure (loaded = []) ''uninitialized actor has state'')) (\<lambda>_. retE (new_cached owner_epoch))
     else liftE (from_loaded (sv_snapshots S) owner_epoch state_version loaded))"

definition take_or_load_state ::
    "'e actor_services \<Rightarrow> actor_key \<Rightarrow> u64 \<Rightarrow> ('e actor_runtime, cached_actor_state) eff" where
  "take_or_load_state S actor owner_epoch =
     bindE take_cached (\<lambda>cached.
     case cached of
       Some c \<Rightarrow> if ca_owner_epoch c = owner_epoch then retE c else load_state S actor owner_epoch
     | None \<Rightarrow> load_state S actor owner_epoch)"

definition evict :: "'e actor_services \<Rightarrow> actor_key \<Rightarrow> ('e actor_runtime, unit) eff" where
  "evict S actor = bindE (tryE (envA (x_evict S actor))) (\<lambda>_. retE ())"

datatype prepared_invocation = PExecute "json option" | PCompleted execution_result

definition prepare_invocation ::
    "'e actor_services \<Rightarrow> actor_invocation \<Rightarrow> u64 \<Rightarrow> bool \<Rightarrow> ('e actor_runtime, prepared_invocation) eff" where
  "prepare_invocation S i owner_epoch replay =
     bindE (envA (s_ensure_authority S)) (\<lambda>_.
     bindE (take_or_load_state S (inv_actor i) owner_epoch) (\<lambda>cached.
     bindE (on_cached cached (finish_pending_commit S i)) (\<lambda>(finished, cached).
     bindE (put_cached cached) (\<lambda>_.
     case finished of
       Inl _ \<Rightarrow> retE (PCompleted (Failed outcome_unknown_after_execution))
     | Inr _ \<Rightarrow>
         retE (case if replay then cached_replay cached (inv_request_id i) else None of
             Some result \<Rightarrow> PCompleted (Completed result [])
           | None \<Rightarrow> PExecute (ca_state cached))))))"

definition is_automatic :: "socket_effect \<Rightarrow> bool" where
  "is_automatic e = (case e of StateSnapshot _ _ _ \<Rightarrow> True | StateUpdate _ _ _ _ \<Rightarrow> True | _ \<Rightarrow> False)"

fun set_version :: "u64 \<Rightarrow> socket_effect \<Rightarrow> socket_effect" where
  "set_version v (StateSnapshot c state _) = StateSnapshot c state (Some v)"
| "set_version v (StateUpdate ch rem ex _) = StateUpdate ch rem ex (Some v)"
| "set_version v e = e"

definition complete_with_state ::
    "'e actor_services \<Rightarrow> actor_key \<Rightarrow> u64 \<Rightarrow> json \<Rightarrow> socket_effect list \<Rightarrow> ('e actor_runtime, execution_result) eff" where
  "complete_with_state S actor state_version result effects =
     bindE (envA (s_ensure_authority S)) (\<lambda>_.
     let automatic = map (set_version state_version) (filter is_automatic effects);
         effects = filter (\<lambda>e. \<not> is_automatic e) effects in
     bindE (if automatic \<noteq> [] then tryE (envA (s_publish S actor automatic)) else retE (Ok ())) (\<lambda>published.
     case published of
       Inl _ \<Rightarrow> retE (Failed outcome_unknown_after_execution)
     | Inr _ \<Rightarrow> retE (Completed result effects)))"

text \<open>Rust's \<open>Result<(Value, Value, Vec<_>), ActorExecutionResult>\<close>.\<close>

type_synonym executed = "execution_result + (json \<times> json \<times> socket_effect list)"

definition failure_code :: "string \<Rightarrow> string" where
  "failure_code code = (if code = ''resource_exhausted'' then ''resource_exhausted'' else ''actor_error'')"

definition method_result ::
    "'e actor_services \<Rightarrow> actor_invocation \<Rightarrow> method_outcome result \<Rightarrow> ('e actor_runtime, executed) eff" where
  "method_result S i outcome =
     (case outcome of
        Inr (MInterleaved _) \<Rightarrow> retE (Inl (failed ''actor_error'' ''unexpected interleaved result''))
      | Inr (MCompleted result state effects) \<Rightarrow>
          (case validate_socket_effects (sv_sockets S) effects of
             Inr _ \<Rightarrow> retE (Inr (result, state, effects))
           | Inl e \<Rightarrow>
               bindE (evict S (inv_actor i)) (\<lambda>_.
               retE (Inl (failed ''actor_error'' (''actor returned invalid socket effects: '' @ show_error e)))))
      | Inr (MFailed failure) \<Rightarrow>
          bindE (if if_code failure \<noteq> ''actor_method_failed'' \<and> if_code failure \<noteq> ''actor_socket_failed''
            then evict S (inv_actor i) else retE ()) (\<lambda>_.
          retE (Inl (failed (failure_code (if_code failure)) (if_message failure))))
      | Inl e \<Rightarrow>
          bindE (evict S (inv_actor i)) (\<lambda>_.
          retE (Inl (failed ''actor_error'' (''actor executor failed: '' @ show_error e)))))"

definition execute_method ::
    "'e actor_services \<Rightarrow> actor_invocation \<Rightarrow> json option \<Rightarrow> ('e actor_runtime, executed) eff" where
  "execute_method S i state =
     bindE (tryE (envA (x_invoke S i state))) (\<lambda>outcome. method_result S i outcome)"

definition execute_socket_event ::
    "'e actor_services \<Rightarrow> socket_invocation \<Rightarrow> json option \<Rightarrow> ('e actor_runtime, executed) eff" where
  "execute_socket_event S i state =
     bindE (tryE (envA (x_handle_socket S i state))) (\<lambda>outcome.
     case outcome of
       Inr (SInterleaved _) \<Rightarrow> retE (Inl (failed ''actor_error'' ''unexpected interleaved result''))
     | Inr (SHandled state effects) \<Rightarrow>
         (case validate_socket_effects (sv_sockets S) effects of
            Inr _ \<Rightarrow> retE (Inr (JNull, state, effects))
          | Inl e \<Rightarrow>
              bindE (evict S (si_actor i)) (\<lambda>_.
              retE (Inl (failed ''actor_error'' (''actor returned invalid socket effects: '' @ show_error e)))))
     | Inr (SFailed failure) \<Rightarrow> retE (Inl (failed (failure_code (if_code failure)) (if_message failure)))
     | Inl e \<Rightarrow> retE (Inl (failed ''actor_error'' (''actor executor failed: '' @ show_error e))))"

text \<open>
  The end of an invocation, common to methods and socket events: the outcome of the executor is
  committed when it changes the state, and reported.
\<close>

definition commit_outcome ::
    "'e actor_services \<Rightarrow> actor_invocation \<Rightarrow> u64 \<Rightarrow> cached_actor_state \<Rightarrow> json \<times> json \<times> socket_effect list \<Rightarrow>
     commit_origin \<Rightarrow> ('e actor_runtime, execution_result) eff" where
  "commit_outcome S i owner_epoch cached outcome origin =
     (case outcome of (result, next_state, effects) \<Rightarrow>
        if ca_state cached = Some next_state then
          bindE (put_cached cached) (\<lambda>_.
          complete_with_state S (inv_actor i) (ca_state_version cached) result effects)
        else
          bindE (on_cached cached (publish_result S i owner_epoch result next_state origin)) (\<lambda>(published, cached).
          bindE (if is_ok published then retE () else evict S (inv_actor i)) (\<lambda>_.
          bindE (put_cached cached) (\<lambda>_.
          case published of
            Inr (Completed result _) \<Rightarrow>
              complete_with_state S (inv_actor i) (ca_state_version cached) result effects
          | Inr r \<Rightarrow> retE r
          | Inl _ \<Rightarrow> retE (Failed outcome_unknown_after_execution)))))"

definition finish_method ::
    "'e actor_services \<Rightarrow> actor_invocation \<Rightarrow> u64 \<Rightarrow> executed \<Rightarrow> commit_origin \<Rightarrow> ('e actor_runtime, execution_result) eff" where
  "finish_method S i owner_epoch executed origin =
     (case executed of
        Inl failure \<Rightarrow> retE failure
      | Inr outcome \<Rightarrow>
          bindE take_cached (\<lambda>cached.
          bindE (liftE (ok_or cached ''actor invocation has no state'')) (\<lambda>cached.
          commit_outcome S i owner_epoch cached outcome origin)))"

definition finish_serial ::
    "'e actor_services \<Rightarrow> actor_invocation \<Rightarrow> u64 \<Rightarrow> method_outcome result \<Rightarrow> commit_origin \<Rightarrow>
     ('e actor_runtime, execution_result) eff" where
  "finish_serial S i owner_epoch outcome origin =
     bindE (method_result S i outcome) (\<lambda>executed. finish_method S i owner_epoch executed origin)"

definition commit_interleaved ::
    "'e actor_services \<Rightarrow> actor_invocation \<Rightarrow> u64 \<Rightarrow> interleaved_outcome \<Rightarrow> commit_origin \<Rightarrow>
     ('e actor_runtime, execution_result) eff" where
  "commit_interleaved S i owner_epoch outcome origin =
     bindE (envA (s_ensure_authority S)) (\<lambda>_.
     bindE (liftE (validate_socket_effects (sv_sockets S) (io_effects outcome))) (\<lambda>_.
     let origin = origin\<lparr>co_interleaved := True\<rparr> in
     bindE take_cached (\<lambda>cached.
     bindE (liftE (ok_or cached ''interleaved activation has no state'')) (\<lambda>cached.
     bindE (liftE (ensure (ca_owner_epoch cached = owner_epoch) ''interleaved ownership changed'')) (\<lambda>_.
     bindE (on_cached cached
       (if ca_state cached \<noteq> Some (io_state outcome)
        then publish_result S i owner_epoch (io_result outcome) (io_state outcome) origin
        else retE (Completed (io_result outcome) []))) (\<lambda>(publication, cached).
     bindE (put_cached cached) (\<lambda>_.
     bindE (liftE publication) (\<lambda>_.
     complete_with_state S (inv_actor i) (ca_state_version cached) (io_result outcome) (io_effects outcome)))))))))"

definition rt_activate_actor :: "'e actor_services \<Rightarrow> actor_key \<Rightarrow> ('e actor_runtime, actor_activation) eff" where
  "rt_activate_actor S actor =
     bindE (envA (s_ensure_authority S)) (\<lambda>_.
     bindE (getE ar_activation) (\<lambda>existing.
     case existing of
       Some activation \<Rightarrow> retE activation
     | None \<Rightarrow>
         bindE (envA (s_acquire S actor (sv_host S))) (\<lambda>activation.
         bindE (getE ar_cached) (\<lambda>cached.
         bindE (case cached of
             Some _ \<Rightarrow> retE activation
           | None \<Rightarrow>
               if act_state_version activation = 0 then
                 bindE (put_cached (new_cached (act_owner_epoch activation))) (\<lambda>_. retE activation)
               else
                 bindE (liftE (ok_or (act_state activation) ''activation has no recovered state'')) (\<lambda>bytes.
                 bindE (liftE (from_loaded (sv_snapshots S) (act_owner_epoch activation) (act_state_version activation) bytes)) (\<lambda>c.
                 bindE (put_cached c) (\<lambda>_. retE (activation\<lparr>act_state := None\<rparr>))))) (\<lambda>activation.
         bindE (getE (\<lambda>rt. Option.bind (ar_cached rt) ca_state)) (\<lambda>state.
         bindE (envA (x_hydrate S actor state)) (\<lambda>_.
         bindE (envA (s_ensure_authority S)) (\<lambda>_.
         bindE (modE (\<lambda>rt. rt\<lparr>ar_activation := Some activation\<rparr>)) (\<lambda>_.
         retE activation)))))))))"

definition invoke_actor_once ::
    "'e actor_services \<Rightarrow> actor_invocation \<Rightarrow> u64 \<Rightarrow> ('e actor_runtime, execution_result) eff" where
  "invoke_actor_once S i owner_epoch =
     bindE (prepare_invocation S i owner_epoch True) (\<lambda>prepared.
     case prepared of
       PCompleted result \<Rightarrow> retE result
     | PExecute state \<Rightarrow>
         bindE (execute_method S i state) (\<lambda>executed.
         finish_method S i owner_epoch executed default_origin))"

text \<open>Authority is checked before and after the work, whatever its outcome.\<close>

definition guarded ::
    "'e actor_services \<Rightarrow> ('e actor_runtime, execution_result) eff \<Rightarrow> ('e actor_runtime, execution_result) eff" where
  "guarded S m =
     bindE (envA (s_ensure_authority S)) (\<lambda>_.
     bindE (tryE m) (\<lambda>outcome.
     bindE (envA (s_ensure_authority S)) (\<lambda>_.
     liftE outcome)))"

definition invoke_actor ::
    "'e actor_services \<Rightarrow> actor_invocation \<Rightarrow> u64 \<Rightarrow> ('e actor_runtime, execution_result) eff" where
  "invoke_actor S i owner_epoch = guarded S (invoke_actor_once S i owner_epoch)"

definition socket_persistence :: "socket_invocation \<Rightarrow> actor_invocation" where
  "socket_persistence i = \<lparr>inv_request_id = si_request_id i, inv_actor = si_actor i,
     inv_method = socket_event_name (si_event i), inv_args = []\<rparr>"

definition handle_socket_event_once ::
    "'e actor_services \<Rightarrow> socket_invocation \<Rightarrow> u64 \<Rightarrow> ('e actor_runtime, execution_result) eff" where
  "handle_socket_event_once S i owner_epoch =
     bindE (take_or_load_state S (si_actor i) owner_epoch) (\<lambda>cached.
     bindE (on_cached cached (finish_pending_commit S (socket_persistence i))) (\<lambda>(finished, cached).
     case finished of
       Inl _ \<Rightarrow> bindE (put_cached cached) (\<lambda>_. retE (Failed outcome_unknown_after_execution))
     | Inr _ \<Rightarrow>
         bindE (execute_socket_event S i (ca_state cached)) (\<lambda>executed.
         case executed of
           Inl result \<Rightarrow> bindE (put_cached cached) (\<lambda>_. retE result)
         | Inr outcome \<Rightarrow>
             commit_outcome S (socket_persistence i) owner_epoch cached outcome (socket_origin (si_event i)))))"

definition handle_socket_event ::
    "'e actor_services \<Rightarrow> socket_invocation \<Rightarrow> u64 \<Rightarrow> ('e actor_runtime, execution_result) eff" where
  "handle_socket_event S i owner_epoch = guarded S (handle_socket_event_once S i owner_epoch)"

end
