(* ===== verification/Executor.thy ===== *)
theory Executor
  imports Actor_Runtime "HOL-Library.Multiset"
begin

text \<open>
  The connection to the JavaScript executor, \<^verbatim>\<open>src/actor/executor_connection.rs\<close>: the driver that numbers
  commands, hands replies to their callers, publishes socket output and loads connections while an invocation
  runs, the reading of messages from the socket, and the calls of \<open>JsActorExecutor\<close> on top.

  The driver, its reader and its writer are tasks connected by channels. A step of \<open>driver_step\<close> is one turn of the
  \<open>select!\<close> of the driver, or one write of the writer; when the driver or the writer fails the connection stops, and
  every caller that still waits is told so. A send that waits for room in the queue of writes is a turn that comes later.
  Callers are numbers, and the text of messages is that of a codec \<open>J\<close>.
\<close>

section \<open>Messages\<close>

definition ACTOR_EXECUTOR_PROTOCOL_VERSION :: nat where "ACTOR_EXECUTOR_PROTOCOL_VERSION = 18"
definition MAX_PENDING_EXECUTOR_COMMANDS :: nat where "MAX_PENDING_EXECUTOR_COMMANDS = 64"
definition MAX_ACTOR_EXECUTOR_MESSAGE_BYTES :: nat where "MAX_ACTOR_EXECUTOR_MESSAGE_BYTES = 32 * 1024 * 1024"

datatype executor_command =
    Hydrate actor_key
  | Invoke actor_invocation
  | WebsocketEvent socket_invocation
  | Evict actor_key

fun command_actor :: "executor_command \<Rightarrow> actor_key" where
  "command_actor (Invoke i) = inv_actor i"
| "command_actor (WebsocketEvent i) = si_actor i"
| "command_actor (Evict actor) = actor"
| "command_actor (Hydrate actor) = actor"

datatype executor_reply =
    RHydrated
  | RStateRequired
  | RInvoked json json "u64 option" "socket_effect list"
  | RWebsocketHandled json "u64 option" "socket_effect list"
  | RFailed string string
  | REvicted

datatype client_message =
    CWarm nat
  | CResidency "actor_key list"
  | CGetConnections u64
  | CReadyForInvocation u64
  | CSocketEffects u64 "socket_effect list"
  | CAttach nat "string list"
  | CReply u64 executor_reply

datatype server_message =
    SvSocketConnections u64 "socket_connection list" "string option"
  | SvSocketEffectsPublished u64 "string option"
  | SvAttached bool nat
  | SvCommand u64 executor_command "json option" bool

type_synonym message_codec = "server_message \<Rightarrow> bytes result"

datatype encode_error = TooLarge | Encoding error

definition encode_server_message :: "message_codec \<Rightarrow> server_message \<Rightarrow> encode_error + bytes" where
  "encode_server_message J message =
     (case J message of
        Inl e \<Rightarrow> Inl (Encoding e)
      | Inr text \<Rightarrow>
          let bytes = text @ [CHR 0x0A] in
          if MAX_ACTOR_EXECUTOR_MESSAGE_BYTES < length bytes then Inl TooLarge else Inr bytes)"

definition too_large_message :: string where
  "too_large_message = ''actor executor command exceeds '' @ show_radix 10 MAX_ACTOR_EXECUTOR_MESSAGE_BYTES @ '' bytes''"

definition encoded :: "message_codec \<Rightarrow> server_message \<Rightarrow> bytes result" where
  "encoded J message =
     (case encode_server_message J message of
        Inr bytes \<Rightarrow> Ok bytes | Inl TooLarge \<Rightarrow> Err (Msg too_large_message) | Inl (Encoding e) \<Rightarrow> Err e)"

section \<open>Reading messages\<close>

definition ascii_whitespace :: "char \<Rightarrow> bool" where
  "ascii_whitespace c = (c \<in> {CHR '' '', CHR 0x09, CHR 0x0A, CHR 0x0C, CHR 0x0D})"

definition trim_ascii_end :: "bytes \<Rightarrow> bytes" where
  "trim_ascii_end document = rev (dropWhile ascii_whitespace (rev document))"

text \<open>\<open>read_until\<close>: up to and including the first newline, and what is left.\<close>

fun read_until :: "bytes \<Rightarrow> bytes \<times> bytes" where
  "read_until [] = ([], [])"
| "read_until (c # cs) = (if c = CHR 0x0A then ([c], cs) else case read_until cs of (d, rest) \<Rightarrow> (c # d, rest))"

text \<open>
  The stream is what the executor sends until it disconnects; \<open>take\<close> limits what one message may read of it.
  The result is the message, if there is one, and the stream after it.
\<close>

definition read_client_message ::
    "(bytes \<Rightarrow> client_message result) \<Rightarrow> bytes \<Rightarrow> client_message option result \<times> bytes" where
  "read_client_message from_slice stream =
     (case read_until (take (Suc MAX_ACTOR_EXECUTOR_MESSAGE_BYTES) stream) of (document, _) \<Rightarrow>
      let rest = drop (length document) stream in
      (if document = [] then Ok None
       else bindR (ensure (length document \<le> MAX_ACTOR_EXECUTOR_MESSAGE_BYTES) ''customer actor executor message exceeds the limit'') (\<lambda>_.
            bindR (from_slice (trim_ascii_end document)) (\<lambda>m. Ok (Some m))), rest))"

lemma read_until_append: "read_until s = (d, rest) \<Longrightarrow> s = d @ rest"
  by (induction s arbitrary: d) (auto split: if_splits prod.splits)

lemma read_shortens: "read_client_message from_slice stream = (Inr (Some m), rest) \<Longrightarrow> length rest < length stream"
  by (cases stream) (auto simp: read_client_message_def Let_def split: prod.splits if_splits)

text \<open>What the reader hands to the driver: the messages, and the error that ends them.\<close>

function read_executor_messages :: "(bytes \<Rightarrow> client_message result) \<Rightarrow> bytes \<Rightarrow> client_message result list" where
  "read_executor_messages from_slice stream =
     (case read_client_message from_slice stream of
        (Inr (Some m), rest) \<Rightarrow> Ok m # read_executor_messages from_slice rest
      | (Inr None, _) \<Rightarrow> [Err (Msg ''customer JavaScript actor executor disconnected'')]
      | (Inl e, _) \<Rightarrow> [Err e])"
  by pat_completeness auto
termination
  by (relation "measure (\<lambda>(_, stream). length stream)") (auto dest: read_shortens [OF sym])

definition attach_executor :: "client_message option result \<Rightarrow> string list result" where
  "attach_executor message =
     bindR message (\<lambda>m.
     case m of
       Some (CAttach protocol actor_names) \<Rightarrow>
         bindR (ensure (protocol = ACTOR_EXECUTOR_PROTOCOL_VERSION) (''unsupported executor protocol '' @ show_radix 10 protocol)) (\<lambda>_.
         bindR (ensure (actor_names \<noteq> []) ''customer executor advertised no actor names'') (\<lambda>_.
         Ok actor_names))
     | _ \<Rightarrow> Err (Msg ''customer executor must attach after loading code''))"

definition accept_warm :: "client_message option result \<Rightarrow> unit result" where
  "accept_warm message =
     bindR message (\<lambda>m.
     ensure (m = Some (CWarm ACTOR_EXECUTOR_PROTOCOL_VERSION)) ''generic executor did not finish warming'')"

section \<open>The driver\<close>

text \<open>Instants are nanoseconds; hash maps and sets are lists without order.\<close>

record pending_command =
  pc_command :: executor_command
  pc_state :: "json option"
  pc_resident_only :: bool
  pc_admission_granted :: bool
  pc_reply :: nat

datatype executor_request =
    Exchange executor_command "json option" nat
  | Ready nat bool bool

record publish_task =
  pt_message_id :: u64
  pt_actor :: actor_key
  pt_effects :: "socket_effect list"
  pt_connecting :: bool
  pt_publisher :: bool

record lookup_task =
  lt_message_id :: u64
  lt_actor :: actor_key
  lt_sockets :: bool

record executor_write =
  ew_bytes :: bytes
  ew_written :: "nat option"

record executor_driver =
  dr_running :: bool
  dr_admissions :: nat
  dr_changes :: nat
  dr_residency :: "(nat \<times> actor_key list) option"
  dr_pending :: "(u64 \<times> pending_command) list"
  dr_residents :: "actor_key list"
  dr_next_message_id :: u64
  dr_outbound :: "executor_write list"
  dr_publisher :: bool
  dr_sockets :: bool
  dr_publishing :: "publish_task list"
  dr_publishing_ids :: "u64 list"
  dr_loading :: "lookup_task list"
  dr_lookup_ids :: "u64 list"
  dr_wire :: "bytes list"
  dr_replies :: "(nat \<times> executor_reply result) list"
  dr_readied :: "(nat \<times> unit result) list"

definition new_driver :: executor_driver where
  "new_driver = \<lparr>dr_running = True, dr_admissions = 0, dr_changes = 0, dr_residency = None, dr_pending = [],
     dr_residents = [], dr_next_message_id = 1, dr_outbound = [], dr_publisher = False, dr_sockets = False,
     dr_publishing = [], dr_publishing_ids = [], dr_loading = [], dr_lookup_ids = [], dr_wire = [],
     dr_replies = [], dr_readied = []\<rparr>"

definition queue_room :: "executor_driver \<Rightarrow> bool" where
  "queue_room d \<longleftrightarrow> length (dr_outbound d) < MAX_PENDING_EXECUTOR_COMMANDS + 1"

definition queue_write :: "bytes \<Rightarrow> nat option \<Rightarrow> (executor_driver, unit) eff" where
  "queue_write bytes written = modE (\<lambda>d. d\<lparr>dr_outbound := dr_outbound d @ [\<lparr>ew_bytes = bytes, ew_written = written\<rparr>]\<rparr>)"

definition try_send_write :: "bytes \<Rightarrow> nat option \<Rightarrow> (executor_driver, unit) eff" where
  "try_send_write bytes written =
     bindE (getE queue_room) (\<lambda>room.
     bindE (liftE (ensure room ''actor executor writer stopped or filled its queue'')) (\<lambda>_.
     queue_write bytes written))"

definition send_reply :: "nat \<Rightarrow> executor_reply result \<Rightarrow> (executor_driver, unit) eff" where
  "send_reply reply result = modE (\<lambda>d. d\<lparr>dr_replies := dr_replies d @ [(reply, result)]\<rparr>)"

definition is_evict :: "executor_command \<Rightarrow> bool" where
  "is_evict c = (case c of Evict _ \<Rightarrow> True | _ \<Rightarrow> False)"

definition is_invocation :: "executor_command \<Rightarrow> bool" where
  "is_invocation c = (case c of Invoke _ \<Rightarrow> True | WebsocketEvent _ \<Rightarrow> True | _ \<Rightarrow> False)"

definition sent_state :: "pending_command \<Rightarrow> json option" where
  "sent_state pending =
     (if pc_resident_only pending \<or> is_evict (pc_command pending) then None
      else Some (case pc_state pending of None \<Rightarrow> JNull | Some v \<Rightarrow> v))"

text \<open>A command that is lost with an error closes the channel of its caller.\<close>

definition disconnected :: "executor_reply result" where
  "disconnected = Err (Msg ''customer actor executor disconnected before replying'')"

definition or_drop :: "nat \<Rightarrow> (executor_driver, unit) eff \<Rightarrow> (executor_driver, unit) eff" where
  "or_drop reply m =
     bindE (tryE m) (\<lambda>result.
     bindE (if is_ok result then retE () else send_reply reply disconnected) (\<lambda>_.
     liftE result))"

definition enqueue :: "message_codec \<Rightarrow> pending_command \<Rightarrow> (executor_driver, unit) eff" where
  "enqueue J pending =
     bindE (getE dr_next_message_id) (\<lambda>message_id.
     bindE (or_drop (pc_reply pending)
       (bindE (liftE (ok_or (checked_add message_id 1) ''actor executor message ID overflow'')) (\<lambda>next_id.
        modE (\<lambda>d. d\<lparr>dr_next_message_id := next_id\<rparr>)))) (\<lambda>_.
     case encode_server_message J (SvCommand message_id (pc_command pending) (sent_state pending) (pc_resident_only pending)) of
       Inr bytes \<Rightarrow>
         bindE (or_drop (pc_reply pending) (try_send_write bytes None)) (\<lambda>_.
         modE (\<lambda>d. d\<lparr>dr_pending := (message_id, pending) # dr_pending d\<rparr>))
     | Inl TooLarge \<Rightarrow> send_reply (pc_reply pending) (Ok (RFailed ''resource_exhausted'' too_large_message))
     | Inl (Encoding e) \<Rightarrow> send_reply (pc_reply pending) (Err e)))"

definition handle_command :: "message_codec \<Rightarrow> executor_request \<Rightarrow> (executor_driver, unit) eff" where
  "handle_command J request =
     (case request of
        Exchange command state reply \<Rightarrow>
          bindE (getE (\<lambda>d. command_actor command \<in> set (dr_residents d))) (\<lambda>resident.
          bindE (modE (\<lambda>d. d\<lparr>dr_residents := removeAll (command_actor command) (dr_residents d)\<rparr>)) (\<lambda>_.
          enqueue J \<lparr>pc_command = command, pc_state = state,
            pc_resident_only = (resident \<and> is_invocation command), pc_admission_granted = False, pc_reply = reply\<rparr>))
      | Ready written publisher sockets \<Rightarrow>
          bindE (modE (\<lambda>d. d\<lparr>dr_publisher := publisher, dr_sockets := sockets\<rparr>)) (\<lambda>_.
          bindE (liftE (encoded J (SvAttached True ACTOR_EXECUTOR_PROTOCOL_VERSION))) (\<lambda>bytes.
          try_send_write bytes (Some written))))"

definition find_pending :: "u64 \<Rightarrow> string \<Rightarrow> (executor_driver, pending_command) eff" where
  "find_pending message_id context =
     bindE (getE (\<lambda>d. map_of (dr_pending d) message_id)) (\<lambda>pending. liftE (ok_or pending context))"

definition allow_next_invocation :: "u64 \<Rightarrow> (executor_driver, unit) eff" where
  "allow_next_invocation message_id =
     bindE (find_pending message_id ''invocation admission has no active call'') (\<lambda>pending.
     bindE (liftE (ensure (is_invocation (pc_command pending)) ''only invocations can admit another call'')) (\<lambda>_.
     bindE (liftE (ensure (\<not> pc_admission_granted pending) ''invocation admission was already granted'')) (\<lambda>_.
     modE (\<lambda>d. d\<lparr>dr_pending := AList.update message_id (pending\<lparr>pc_admission_granted := True\<rparr>) (dr_pending d),
       dr_admissions := Suc (dr_admissions d)\<rparr>))))"

definition load_connections :: "u64 \<Rightarrow> (executor_driver, unit) eff" where
  "load_connections message_id =
     bindE (find_pending message_id ''connection lookup has no active actor invocation'') (\<lambda>pending.
     bindE (liftE (ensure (\<not> is_evict (pc_command pending)) ''cannot load connections during eviction'')) (\<lambda>_.
     bindE (getE (\<lambda>d. message_id \<in> set (dr_lookup_ids d))) (\<lambda>active.
     bindE (liftE (ensure (\<not> active) ''actor sent concurrent connection lookups'')) (\<lambda>_.
     modE (\<lambda>d. d\<lparr>dr_lookup_ids := message_id # dr_lookup_ids d,
       dr_loading := dr_loading d @ [\<lparr>lt_message_id = message_id, lt_actor = command_actor (pc_command pending),
         lt_sockets = dr_sockets d\<rparr>]\<rparr>)))))"

definition is_connecting :: "executor_command \<Rightarrow> bool" where
  "is_connecting c = (case c of WebsocketEvent i \<Rightarrow> (case si_event i of Connect _ \<Rightarrow> True | _ \<Rightarrow> False) | _ \<Rightarrow> False)"

definition driver_publish :: "u64 \<Rightarrow> socket_effect list \<Rightarrow> (executor_driver, unit) eff" where
  "driver_publish message_id effects =
     bindE (find_pending message_id ''socket output has no active actor invocation'') (\<lambda>pending.
     bindE (getE (\<lambda>d. message_id \<in> set (dr_publishing_ids d))) (\<lambda>active.
     bindE (liftE (ensure (\<not> active) ''actor sent concurrent socket publications'')) (\<lambda>_.
     modE (\<lambda>d. d\<lparr>dr_publishing_ids := message_id # dr_publishing_ids d,
       dr_publishing := dr_publishing d @ [\<lparr>pt_message_id = message_id, pt_actor = command_actor (pc_command pending),
         pt_effects = effects, pt_connecting = is_connecting (pc_command pending), pt_publisher = dr_publisher d\<rparr>]\<rparr>))))"

definition deliver :: "message_codec \<Rightarrow> u64 \<Rightarrow> executor_reply \<Rightarrow> (executor_driver, unit) eff" where
  "deliver J message_id reply =
     bindE (getE (\<lambda>d. message_id \<in> set (dr_lookup_ids d))) (\<lambda>looking.
     bindE (liftE (ensure (\<not> looking) ''actor completed before connection lookup finished'')) (\<lambda>_.
     bindE (getE (\<lambda>d. message_id \<in> set (dr_publishing_ids d))) (\<lambda>publishing.
     bindE (liftE (ensure (\<not> publishing) ''actor completed before socket output was acknowledged'')) (\<lambda>_.
     bindE (find_pending message_id (''actor executor replied to unknown message '' @ show_u64 message_id)) (\<lambda>pending.
     bindE (modE (\<lambda>d. d\<lparr>dr_pending := AList.delete message_id (dr_pending d)\<rparr>)) (\<lambda>_.
     case reply of
       RStateRequired \<Rightarrow>
         if pc_resident_only pending then enqueue J (pending\<lparr>pc_resident_only := False\<rparr>)
         else send_reply (pc_reply pending) (Err (Msg ''actor executor refused explicit hydration''))
     | _ \<Rightarrow>
         bindE (case reply of
             RFailed _ _ \<Rightarrow> retE ()
           | REvicted \<Rightarrow> retE ()
           | _ \<Rightarrow> modE (\<lambda>d. d\<lparr>dr_residents := List.insert (command_actor (pc_command pending))
               (if 4096 \<le> length (dr_residents d) then [] else dr_residents d)\<rparr>)) (\<lambda>_.
         send_reply (pc_reply pending) (Ok reply))))))))"

definition note_residency :: "nat \<Rightarrow> actor_key list \<Rightarrow> (executor_driver, unit) eff" where
  "note_residency now actors =
     bindE (liftE (ensure (length actors \<le> 32) ''too many resident actors'')) (\<lambda>_.
     bindE (liftE (all_ok (map validate_actor_key actors))) (\<lambda>_.
     modE (\<lambda>d. d\<lparr>dr_residency := Some (now, actors),
       dr_changes := (if (case dr_residency d of None \<Rightarrow> True | Some (_, previous) \<Rightarrow> previous \<noteq> actors)
         then Suc (dr_changes d) else dr_changes d)\<rparr>)))"

definition resident_actors :: "nat \<Rightarrow> executor_driver \<Rightarrow> actor_key list option" where
  "resident_actors now d =
     (case dr_residency d of Some (at, actors) \<Rightarrow> if now - at < 5000000000 then Some actors else None | None \<Rightarrow> None)"

definition client_turn :: "message_codec \<Rightarrow> nat \<Rightarrow> client_message \<Rightarrow> (executor_driver, unit) eff" where
  "client_turn J now message =
     (case message of
        CResidency actors \<Rightarrow> note_residency now actors
      | CReadyForInvocation message_id \<Rightarrow> allow_next_invocation message_id
      | CReply message_id reply \<Rightarrow> deliver J message_id reply
      | CSocketEffects message_id effects \<Rightarrow> driver_publish message_id effects
      | CGetConnections message_id \<Rightarrow> load_connections message_id
      | _ \<Rightarrow> failE ''customer actor executor attached more than once'')"

text \<open>The outcome of a spawned task, given what the publisher or the source of connections answers.\<close>

definition published :: "socket_codec \<Rightarrow> publish_task \<Rightarrow> unit result \<Rightarrow> unit result" where
  "published C task outcome =
     bindR (ensure (\<not> pt_connecting task) ''socket output cannot precede connection acceptance'') (\<lambda>_.
     bindR (validate_socket_effects C (pt_effects task)) (\<lambda>_.
     bindR (ensure (pt_publisher task) ''actor socket publishing is unavailable'') (\<lambda>_. outcome)))"

definition looked_up :: "lookup_task \<Rightarrow> socket_connection list result \<Rightarrow> socket_connection list result" where
  "looked_up task outcome =
     bindR (ensure (lt_sockets task) ''actor connection lookup is unavailable'') (\<lambda>_. outcome)"

definition error_text :: "'a result \<Rightarrow> string option" where
  "error_text r = (case r of Inl e \<Rightarrow> Some (show_error e) | Inr _ \<Rightarrow> None)"

definition publish_done :: "message_codec \<Rightarrow> socket_codec \<Rightarrow> publish_task \<Rightarrow> unit result \<Rightarrow> (executor_driver, unit) eff" where
  "publish_done J C task outcome =
     bindE (modE (\<lambda>d. d\<lparr>dr_publishing := remove1 task (dr_publishing d),
       dr_publishing_ids := removeAll (pt_message_id task) (dr_publishing_ids d)\<rparr>)) (\<lambda>_.
     bindE (liftE (encoded J (SvSocketEffectsPublished (pt_message_id task) (error_text (published C task outcome))))) (\<lambda>bytes.
     queue_write bytes None))"

definition lookup_done :: "message_codec \<Rightarrow> lookup_task \<Rightarrow> socket_connection list result \<Rightarrow> (executor_driver, unit) eff" where
  "lookup_done J task outcome =
     bindE (modE (\<lambda>d. d\<lparr>dr_loading := remove1 task (dr_loading d),
       dr_lookup_ids := removeAll (lt_message_id task) (dr_lookup_ids d)\<rparr>)) (\<lambda>_.
     let result = looked_up task outcome in
     bindE (liftE (encoded J (SvSocketConnections (lt_message_id task)
       (case result of Inr connections \<Rightarrow> connections | Inl _ \<Rightarrow> []) (error_text result)))) (\<lambda>bytes.
     queue_write bytes None))"

definition write_turn :: "unit result \<Rightarrow> (executor_driver, unit) eff" where
  "write_turn outcome =
     bindE (getE dr_outbound) (\<lambda>writes.
     case writes of
       [] \<Rightarrow> retE ()
     | write # writes \<Rightarrow>
         bindE (modE (\<lambda>d. d\<lparr>dr_outbound := writes,
           dr_wire := (case outcome of Inr _ \<Rightarrow> dr_wire d @ [ew_bytes write] | Inl _ \<Rightarrow> dr_wire d),
           dr_readied := (case ew_written write of None \<Rightarrow> dr_readied d | Some w \<Rightarrow> dr_readied d @ [(w, outcome)])\<rparr>)) (\<lambda>_.
         liftE outcome))"

text \<open>When the connection stops, the callers that wait find their channel closed.\<close>

definition stop_driver :: "executor_driver \<Rightarrow> executor_driver" where
  "stop_driver d = d\<lparr>dr_running := False, dr_pending := [], dr_outbound := [], dr_publishing := [], dr_publishing_ids := [],
     dr_loading := [], dr_lookup_ids := [],
     dr_replies := dr_replies d @ map (\<lambda>(_, p). (pc_reply p, disconnected)) (dr_pending d),
     dr_readied := dr_readied d @ map (\<lambda>w. (w, Err (Msg ''actor executor disconnected before readiness'')))
       (List.map_filter ew_written (dr_outbound d))\<rparr>"

datatype driver_event =
    DMessage nat "client_message result"
  | DPublished nat "unit result"
  | DLoaded nat "socket_connection list result"
  | DCommand executor_request
  | DWrite "unit result"
  | DClosed

text \<open>A turn that the guards of the \<open>select!\<close> or a full queue of writes hold back does nothing.\<close>

definition driver_turn :: "message_codec \<Rightarrow> socket_codec \<Rightarrow> driver_event \<Rightarrow> (executor_driver, unit) eff" where
  "driver_turn J C ev =
     (case ev of
        DMessage now message \<Rightarrow> bindE (liftE message) (\<lambda>m. client_turn J now m)
      | DPublished i outcome \<Rightarrow>
          bindE (getE (\<lambda>d. if queue_room d \<and> i < length (dr_publishing d) then Some (dr_publishing d ! i) else None)) (\<lambda>task.
          case task of None \<Rightarrow> retE () | Some task \<Rightarrow> publish_done J C task outcome)
      | DLoaded i outcome \<Rightarrow>
          bindE (getE (\<lambda>d. if queue_room d \<and> i < length (dr_loading d) then Some (dr_loading d ! i) else None)) (\<lambda>task.
          case task of None \<Rightarrow> retE () | Some task \<Rightarrow> lookup_done J task outcome)
      | DCommand request \<Rightarrow>
          bindE (getE (\<lambda>d. length (dr_pending d) < MAX_PENDING_EXECUTOR_COMMANDS)) (\<lambda>open.
          if open then handle_command J request else retE ())
      | DWrite outcome \<Rightarrow> write_turn outcome
      | DClosed \<Rightarrow> retE ())"

definition driver_step :: "message_codec \<Rightarrow> socket_codec \<Rightarrow> driver_event \<Rightarrow> executor_driver \<Rightarrow> executor_driver" where
  "driver_step J C ev d =
     (if \<not> dr_running d then d
      else if ev = DClosed then stop_driver d
      else case driver_turn J C ev d of (Inr _, d') \<Rightarrow> d' | (Inl _, d') \<Rightarrow> stop_driver d')"

definition driver_run :: "message_codec \<Rightarrow> socket_codec \<Rightarrow> driver_event list \<Rightarrow> executor_driver \<Rightarrow> executor_driver" where
  "driver_run J C evs d = fold (driver_step J C) evs d"

section \<open>Calls of the executor\<close>

text \<open>The calls of \<open>JsActorExecutor\<close> on \<open>exchange\<close>, which sends a command and waits for its reply.\<close>

type_synonym 'e exchange = "executor_command \<Rightarrow> json option \<Rightarrow> ('e, executor_reply) eff"

definition js_hydrate :: "'e exchange \<Rightarrow> actor_key \<Rightarrow> json option \<Rightarrow> ('e, unit) eff" where
  "js_hydrate exchange actor state =
     bindE (exchange (Hydrate actor) state) (\<lambda>reply.
     case reply of
       RHydrated \<Rightarrow> retE ()
     | RFailed code message \<Rightarrow> failE (''actor hydration failed ('' @ code @ ''): '' @ message)
     | _ \<Rightarrow> failE ''unexpected actor hydration reply'')"

definition js_invoke :: "'e exchange \<Rightarrow> actor_invocation \<Rightarrow> json option \<Rightarrow> ('e, method_outcome) eff" where
  "js_invoke exchange invocation state =
     bindE (exchange (Invoke invocation) state) (\<lambda>reply.
     case reply of
       RInvoked result state sequence effects \<Rightarrow>
         retE (case sequence of
             Some n \<Rightarrow> MInterleaved \<lparr>io_sequence = n, io_result = result, io_state = state, io_effects = effects\<rparr>
           | None \<Rightarrow> MCompleted result state effects)
     | RFailed code message \<Rightarrow> retE (MFailed \<lparr>if_code = code, if_message = message\<rparr>)
     | RWebsocketHandled _ _ _ \<Rightarrow> failE ''actor executor returned socket reply to invocation''
     | _ \<Rightarrow> failE ''actor executor returned eviction reply to invocation'')"

definition js_handle_socket :: "'e exchange \<Rightarrow> socket_invocation \<Rightarrow> json option \<Rightarrow> ('e, socket_outcome) eff" where
  "js_handle_socket exchange invocation state =
     bindE (exchange (WebsocketEvent invocation) state) (\<lambda>reply.
     case reply of
       RWebsocketHandled state sequence effects \<Rightarrow>
         retE (case sequence of
             Some n \<Rightarrow> SInterleaved \<lparr>io_sequence = n, io_result = JNull, io_state = state, io_effects = effects\<rparr>
           | None \<Rightarrow> SHandled state effects)
     | RFailed code message \<Rightarrow> retE (SFailed \<lparr>if_code = code, if_message = message\<rparr>)
     | _ \<Rightarrow> failE ''actor executor returned the wrong reply to socket event'')"

definition js_evict :: "'e exchange \<Rightarrow> actor_key \<Rightarrow> ('e, unit) eff" where
  "js_evict exchange actor =
     bindE (exchange (Evict actor) None) (\<lambda>reply.
     case reply of
       REvicted \<Rightarrow> retE ()
     | RFailed code message \<Rightarrow> failE (''actor executor rejected eviction ('' @ code @ ''): '' @ message)
     | RWebsocketHandled _ _ _ \<Rightarrow> failE ''actor executor returned socket reply to eviction''
     | RStateRequired \<Rightarrow> failE ''actor executor returned socket reply to eviction''
     | _ \<Rightarrow> failE ''actor executor returned the wrong reply to eviction'')"

definition js_supports :: "string list \<Rightarrow> string \<Rightarrow> bool" where
  "js_supports actor_names name \<longleftrightarrow> name \<in> set actor_names"

end
