(* ===== verification/Executor_Safety.thy ===== *)
theory Executor_Safety
  imports Executor
begin

text \<open>
  The driver of the executor connection keeps its tables consistent, answers every caller exactly once, and
  answers it with the reply to the message that carried its command; messages are read back from the stream whole.
\<close>

section \<open>The invariant\<close>

definition driver_wf :: "executor_driver \<Rightarrow> bool" where
  "driver_wf d \<longleftrightarrow>
     distinct (map fst (dr_pending d)) \<and> (\<forall>m \<in> fst ` set (dr_pending d). m < dr_next_message_id d) \<and>
     length (dr_pending d) \<le> MAX_PENDING_EXECUTOR_COMMANDS \<and>
     length (dr_outbound d) \<le> MAX_PENDING_EXECUTOR_COMMANDS + 1 \<and>
     distinct (dr_lookup_ids d) \<and> set (dr_lookup_ids d) \<subseteq> fst ` set (dr_pending d) \<and>
     mset (map lt_message_id (dr_loading d)) = mset (dr_lookup_ids d) \<and>
     distinct (dr_publishing_ids d) \<and> set (dr_publishing_ids d) \<subseteq> fst ` set (dr_pending d) \<and>
     mset (map pt_message_id (dr_publishing d)) = mset (dr_publishing_ids d) \<and>
     length (dr_residents d) \<le> 4096"

text \<open>Every command that waits for its reply has been written or waits to be written.\<close>

definition writes :: "executor_driver \<Rightarrow> bytes set" where
  "writes d = set (dr_wire d) \<union> ew_bytes ` set (dr_outbound d)"

definition command_message :: "u64 \<Rightarrow> pending_command \<Rightarrow> server_message" where
  "command_message m p = SvCommand m (pc_command p) (sent_state p) (pc_resident_only p)"

definition sent :: "message_codec \<Rightarrow> executor_driver \<Rightarrow> bool" where
  "sent J d \<longleftrightarrow> (\<forall>(m, p) \<in> set (dr_pending d). \<exists>bytes \<in> writes d. encode_server_message J (command_message m p) = Inr bytes)"

text \<open>The callers that have been answered or wait.\<close>

definition callers :: "executor_driver \<Rightarrow> nat multiset" where
  "callers d = mset (map fst (dr_replies d)) + mset (map (pc_reply \<circ> snd) (dr_pending d))"

definition driver_inv :: "message_codec \<Rightarrow> nat multiset \<Rightarrow> executor_driver \<Rightarrow> bool" where
  "driver_inv J X d \<longleftrightarrow> dr_running d \<and> driver_wf d \<and> sent J d \<and> callers d = X"

definition late :: "nat multiset \<Rightarrow> executor_driver \<Rightarrow> bool" where
  "late X d \<longleftrightarrow> driver_wf d \<and> callers d = X"

abbreviation turn_ok :: "message_codec \<Rightarrow> nat multiset \<Rightarrow> nat multiset \<Rightarrow> (executor_driver, 'a) eff \<Rightarrow> bool" where
  "turn_ok J X Y m \<equiv> triple (driver_inv J X) m (\<lambda>_. driver_inv J Y) (late Y)"

lemmas inv_defs = driver_inv_def late_def driver_wf_def sent_def writes_def callers_def

lemma inv_late: "driver_inv J X d \<Longrightarrow> late X d"
  by (simp add: driver_inv_def late_def)

lemma map_of_fst: "map_of xs k = Some v \<Longrightarrow> k \<in> fst ` set xs"
  by (force dest: map_of_SomeD)

section \<open>Turns\<close>

lemma inv_find: "triple (driver_inv J X) (find_pending m text) (\<lambda>p d. driver_inv J X d \<and> map_of (dr_pending d) m = Some p) (late X)"
  unfolding find_pending_def by (rule tripleI) (auto simp: eff_simps result_simps inv_late)

lemma inv_lift: "(\<And>x. r = Inr x \<Longrightarrow> triple P (f x) Q (late X)) \<Longrightarrow> (\<And>d. P d \<Longrightarrow> driver_inv J X d) \<Longrightarrow> triple P (bindE (liftE r) f) Q (late X)"
  by (rule triple_bind_lift) (auto intro: inv_late)

lemma inv_residency: "turn_ok J X X (note_residency now actors)"
  unfolding note_residency_def
  by (intro inv_lift triple_mod) (auto simp: inv_defs)

lemma update_pending:
  assumes "map_of xs m = Some p" "distinct (map fst xs)"
  shows "mset (map (f \<circ> snd) (AList.update m q xs)) + {#f p#} = mset (map (f \<circ> snd) xs) + {#f q#}"
    and "map fst (AList.update m q xs) = map fst xs"
    and "set (AList.update m q xs) = insert (m, q) (set xs - {(m, p)})"
  using assms
proof (induction xs)
  case (Cons x xs)
  { case 1 with Cons.IH(1) show ?case by (cases x) (auto split: if_splits)
  next
    case 2 with Cons.IH(2) show ?case by (cases x) (auto split: if_splits)
  next
    case 3 with Cons.IH(3) show ?case by (cases x) (force split: if_splits dest: map_of_fst) }
qed simp_all

lemma inv_allow: "turn_ok J X X (allow_next_invocation m)"
  unfolding allow_next_invocation_def
proof (rule triple_bind [OF inv_find], intro inv_lift triple_mod)
  fix p d assume d: "driver_inv J X d \<and> map_of (dr_pending d) m = Some p"
  then have dist: "distinct (map fst (dr_pending d))" by (simp add: driver_inv_def driver_wf_def)
  let ?q = "p\<lparr>pc_admission_granted := True\<rparr>"
  note u = update_pending [OF conjunct2 [OF d] dist, where q = ?q]
  have m: "command_message m ?q = command_message m p" by (simp add: command_message_def sent_state_def)
  have "length (AList.update m ?q (dr_pending d)) = length (dr_pending d)" using u(2) by (metis length_map)
  moreover have "fst ` set (AList.update m ?q (dr_pending d)) = fst ` set (dr_pending d)" using u(2) by (metis list.set_map)
  moreover have "(m, p) \<in> set (dr_pending d)" using d map_of_SomeD by fast
  ultimately show "driver_inv J X (d\<lparr>dr_pending := AList.update m ?q (dr_pending d), dr_admissions := Suc (dr_admissions d)\<rparr>)"
    using d u(1) [of pc_reply] m unfolding inv_defs by (auto simp: u(2,3) simp del: set_map)
qed auto

lemma inv_get: "triple (\<lambda>d. driver_inv J X d \<and> A d) (getE f) (\<lambda>x d. driver_inv J X d \<and> A d \<and> x = f d) (late X)"
  by (rule triple_get) simp

lemma inv_connections: "turn_ok J X X (load_connections m)"
  unfolding load_connections_def
  by (rule triple_bind [OF inv_find], rule inv_lift, rule triple_bind [OF inv_get], rule inv_lift, rule triple_mod)
    (auto simp: inv_defs result_simps dest: map_of_fst)

lemma inv_publish: "turn_ok J X X (driver_publish m effects)"
  unfolding driver_publish_def
  by (rule triple_bind [OF inv_find], rule triple_bind [OF inv_get], rule inv_lift, rule triple_mod)
    (auto simp: inv_defs result_simps dest: map_of_fst)

lemma callers_reply:
  "driver_inv J X d \<Longrightarrow> driver_inv J (add_mset r X) (d\<lparr>dr_replies := dr_replies d @ [(r, v)]\<rparr>)"
  "late X d \<Longrightarrow> late (add_mset r X) (d\<lparr>dr_replies := dr_replies d @ [(r, v)]\<rparr>)"
  by (simp_all add: inv_defs)

lemma inv_send: "turn_ok J X (add_mset r X) (send_reply r v)"
  unfolding send_reply_def by (rule triple_mod) (rule callers_reply)

lemma inv_or_drop:
  assumes "triple P m (\<lambda>_. Q) (late X)"
  shows "triple P (or_drop r m) (\<lambda>_. Q) (late (add_mset r X))"
proof -
  have run: "or_drop r m d = (if is_ok (fst (m d)) then m d
      else (fst (m d), (snd (m d))\<lparr>dr_replies := dr_replies (snd (m d)) @ [(r, disconnected)]\<rparr>))" for d
    by (cases "m d") (auto simp: or_drop_def bindE_def tryE_def send_reply_def split: prod.splits)
  have "Inl e = fst (m d) \<Longrightarrow> P d \<Longrightarrow> late X (snd (m d))" for d e using assms by (metis tripleD_Err prod.collapse)
  then show ?thesis
    by (intro tripleI; unfold run) (use assms in \<open>auto split: if_splits intro!: callers_reply dest: tripleD_Ok\<close>)
qed

lemma checked_next:
  "checked_add m 1 = Some n \<Longrightarrow> m < n \<and> (\<forall>k < m. k < n)"
  by (auto simp: checked_add_def word_less_nat_alt unat_word_ariths split: if_splits)

text \<open>Where a command is written under a number no other command waits for, it may be added.\<close>

lemma inv_enqueue:
  "triple (\<lambda>d. driver_inv J X d \<and> length (dr_pending d) < MAX_PENDING_EXECUTOR_COMMANDS) (enqueue J p)
     (\<lambda>_. driver_inv J (add_mset (pc_reply p) X)) (late (add_mset (pc_reply p) X))"
proof -
  let ?fresh = "\<lambda>m d. driver_inv J X d \<and> length (dr_pending d) < MAX_PENDING_EXECUTOR_COMMANDS \<and> m < dr_next_message_id d \<and>
    m \<notin> fst ` set (dr_pending d)"
  have next_id: "triple (\<lambda>d. driver_inv J X d \<and> length (dr_pending d) < MAX_PENDING_EXECUTOR_COMMANDS \<and> m = dr_next_message_id d)
      (bindE (liftE (ok_or (checked_add m 1) ''actor executor message ID overflow'')) (\<lambda>n. modE (\<lambda>d. d\<lparr>dr_next_message_id := n\<rparr>)))
      (\<lambda>_. ?fresh m) (late X)" for m
    by (rule inv_lift, rule triple_mod) (auto simp: inv_defs result_simps dest!: checked_next)
  have queue: "triple (?fresh m) (try_send_write bytes None)
      (\<lambda>_ d. ?fresh m d \<and> bytes \<in> writes d) (late X)" for m bytes
    unfolding try_send_write_def queue_write_def
    by (rule tripleI) (auto simp: eff_simps result_simps inv_defs queue_room_def)
  have send: "triple (?fresh m) (send_reply (pc_reply p) v) (\<lambda>_. driver_inv J (add_mset (pc_reply p) X)) (late (add_mset (pc_reply p) X))" for m v
    unfolding send_reply_def by (rule triple_mod) (auto intro: callers_reply)
  have add: "triple (\<lambda>d. ?fresh m d \<and> bytes \<in> writes d) (modE (\<lambda>d. d\<lparr>dr_pending := (m, p) # dr_pending d\<rparr>))
      (\<lambda>_. driver_inv J (add_mset (pc_reply p) X)) (late (add_mset (pc_reply p) X))"
    if "encode_server_message J (command_message m p) = Inr bytes" for m bytes
    using that by (intro triple_mod) (auto simp: inv_defs)
  have finish: "triple (?fresh m) (case encode_server_message J (command_message m p) of
       Inr bytes \<Rightarrow> bindE (or_drop (pc_reply p) (try_send_write bytes None)) (\<lambda>_. modE (\<lambda>d. d\<lparr>dr_pending := (m, p) # dr_pending d\<rparr>))
     | Inl TooLarge \<Rightarrow> send_reply (pc_reply p) (Ok (RFailed ''resource_exhausted'' too_large_message))
     | Inl (Encoding e) \<Rightarrow> send_reply (pc_reply p) (Err e))
     (\<lambda>_. driver_inv J (add_mset (pc_reply p) X)) (late (add_mset (pc_reply p) X))" for m
    by (auto split: sum.split encode_error.split intro: send triple_bind [OF inv_or_drop [OF queue] add])
  show ?thesis unfolding enqueue_def
    by (rule triple_bind [OF triple_get [where Q = "\<lambda>m d. driver_inv J X d \<and>
          length (dr_pending d) < MAX_PENDING_EXECUTOR_COMMANDS \<and> m = dr_next_message_id d"]], simp,
        rule triple_bind [OF inv_or_drop [OF next_id]], rule finish [unfolded command_message_def])
qed

lemma inv_handle:
  "triple (\<lambda>d. driver_inv J X d \<and> length (dr_pending d) < MAX_PENDING_EXECUTOR_COMMANDS) (handle_command J (Exchange c s r))
     (\<lambda>_. driver_inv J (add_mset r X)) (late (add_mset r X))"
proof -
  have keep: "driver_inv J X (d\<lparr>dr_residents := removeAll a (dr_residents d)\<rparr>)" if "driver_inv J X d" for a d
    using that le_trans [OF length_removeAll_less_eq [of a "dr_residents d"]] by (auto simp: inv_defs)
  let ?P = "\<lambda>d. driver_inv J X d \<and> length (dr_pending d) < MAX_PENDING_EXECUTOR_COMMANDS"
  have get: "triple ?P (getE f) (\<lambda>_. ?P) (late (add_mset r X))" for f :: "executor_driver \<Rightarrow> 'x" by (rule triple_get)
  show ?thesis unfolding handle_command_def executor_request.case
    by (rule triple_bind [OF get], rule triple_bind [OF triple_mod [where Q = "\<lambda>_. ?P"]], simp add: keep)
      (rule triple_weaken [OF inv_enqueue], auto)
qed

lemma inv_ready: "turn_ok J X X (handle_command J (Ready w p s))"
proof -
  have send: "turn_ok J X X (try_send_write bytes (Some w))" for bytes
    unfolding try_send_write_def queue_write_def
    by (rule tripleI) (auto simp: eff_simps result_simps inv_defs queue_room_def)
  show ?thesis unfolding handle_command_def executor_request.case
    by (rule triple_seq [OF triple_mod [where Q = "\<lambda>_. driver_inv J X"]], simp add: inv_defs) (rule inv_lift [OF send])
qed

lemma inv_queue: "triple (\<lambda>d. driver_inv J X d \<and> queue_room d) (queue_write bytes w) (\<lambda>_. driver_inv J X) (late X)"
  unfolding queue_write_def by (rule triple_mod) (auto simp: inv_defs queue_room_def)

lemma task_ids:
  assumes "t \<in> set ts" "mset (map f ts) = mset ids" "distinct ids"
  shows "mset (map f (remove1 t ts)) = mset (removeAll (f t) ids)" "set (removeAll (f t) ids) \<subseteq> set ids" "distinct (removeAll (f t) ids)"
proof -
  have "mset (map f (remove1 t ts)) = mset (map f ts) - {#f t#}" using assms(1) by (simp add: image_mset_Diff)
  also have "\<dots> = mset (remove1 (f t) ids)" unfolding assms(2) by simp
  also have "remove1 (f t) ids = removeAll (f t) ids" using assms(3) by (rule distinct_remove1_removeAll)
  finally show "mset (map f (remove1 t ts)) = mset (removeAll (f t) ids)" .
qed (use assms(3) in \<open>auto simp: distinct_removeAll\<close>)

lemma inv_published:
  "triple (\<lambda>d. (driver_inv J X d \<and> queue_room d) \<and> t \<in> set (dr_publishing d)) (publish_done J C t outcome) (\<lambda>_. driver_inv J X) (late X)"
  unfolding publish_done_def
proof (rule triple_seq [OF triple_mod [where Q = "\<lambda>_ d. driver_inv J X d \<and> queue_room d"]])
  fix d assume d: "(driver_inv J X d \<and> queue_room d) \<and> t \<in> set (dr_publishing d)"
  then have "mset (map pt_message_id (dr_publishing d)) = mset (dr_publishing_ids d)" "distinct (dr_publishing_ids d)"
    by (simp_all add: inv_defs)
  from d task_ids [OF _ this, of t] show "driver_inv J X (d\<lparr>dr_publishing := remove1 t (dr_publishing d),
      dr_publishing_ids := removeAll (pt_message_id t) (dr_publishing_ids d)\<rparr>) \<and>
    queue_room (d\<lparr>dr_publishing := remove1 t (dr_publishing d), dr_publishing_ids := removeAll (pt_message_id t) (dr_publishing_ids d)\<rparr>)"
    by (auto simp: inv_defs queue_room_def)
qed (rule inv_lift, rule inv_queue, erule conjunct1)

lemma inv_loaded:
  "triple (\<lambda>d. (driver_inv J X d \<and> queue_room d) \<and> t \<in> set (dr_loading d)) (lookup_done J t outcome) (\<lambda>_. driver_inv J X) (late X)"
  unfolding lookup_done_def Let_def
proof (rule triple_seq [OF triple_mod [where Q = "\<lambda>_ d. driver_inv J X d \<and> queue_room d"]])
  fix d assume d: "(driver_inv J X d \<and> queue_room d) \<and> t \<in> set (dr_loading d)"
  then have "mset (map lt_message_id (dr_loading d)) = mset (dr_lookup_ids d)" "distinct (dr_lookup_ids d)"
    by (simp_all add: inv_defs)
  from d task_ids [OF _ this, of t] show "driver_inv J X (d\<lparr>dr_loading := remove1 t (dr_loading d),
      dr_lookup_ids := removeAll (lt_message_id t) (dr_lookup_ids d)\<rparr>) \<and>
    queue_room (d\<lparr>dr_loading := remove1 t (dr_loading d), dr_lookup_ids := removeAll (lt_message_id t) (dr_lookup_ids d)\<rparr>)"
    by (auto simp: inv_defs queue_room_def)
qed (rule inv_lift, rule inv_queue, erule conjunct1)

lemma inv_write: "turn_ok J X X (write_turn outcome)"
  unfolding write_turn_def
  by (rule tripleI) (fastforce simp: eff_simps inv_defs split: list.splits option.splits sum.splits)+

lemma delete_pending:
  assumes "map_of xs m = Some p" "distinct (map fst xs)"
  shows "mset (map (f \<circ> snd) xs) = add_mset (f p) (mset (map (f \<circ> snd) (AList.delete m xs)))"
    and "length xs = Suc (length (AList.delete m xs))"
proof -
  have "(m, p) \<in> set xs" using assms(1) by (rule map_of_SomeD)
  then obtain ys zs where xs: "xs = ys @ (m, p) # zs" by (meson split_list)
  with assms(2) have "AList.delete m ys = ys" "AList.delete m zs = zs" by (auto intro: delete_idem)
  then have "AList.delete m xs = ys @ zs" by (simp add: xs AList.delete_eq)
  with xs show "mset (map (f \<circ> snd) xs) = add_mset (f p) (mset (map (f \<circ> snd) (AList.delete m xs)))"
    "length xs = Suc (length (AList.delete m xs))" by simp_all
qed

lemma inv_delete:
  assumes "driver_inv J X d" "map_of (dr_pending d) m = Some p" "m \<notin> set (dr_lookup_ids d)" "m \<notin> set (dr_publishing_ids d)"
  shows "driver_inv J (X - {#pc_reply p#}) (d\<lparr>dr_pending := AList.delete m (dr_pending d)\<rparr>)" "pc_reply p \<in># X"
    "length (AList.delete m (dr_pending d)) < MAX_PENDING_EXECUTOR_COMMANDS"
proof -
  have d: "distinct (map fst (dr_pending d))" using assms(1) by (simp add: inv_defs)
  note del = delete_pending(1) [OF assms(2) d, where f = pc_reply] delete_pending(2) [OF assms(2) d]
  have sub: "set (AList.delete m (dr_pending d)) \<subseteq> set (dr_pending d)" by (auto simp: AList.delete_eq)
  have keys: "fst ` set (AList.delete m (dr_pending d)) = fst ` set (dr_pending d) - {m}" by (force simp: AList.delete_eq)
  have dist: "distinct (map fst (AList.delete m (dr_pending d)))" using d by (rule distinct_delete)
  show "length (AList.delete m (dr_pending d)) < MAX_PENDING_EXECUTOR_COMMANDS" using assms(1) del(2) by (simp add: inv_defs)
  show "pc_reply p \<in># X" using assms(1) del(1) by (auto simp: inv_defs)
  show "driver_inv J (X - {#pc_reply p#}) (d\<lparr>dr_pending := AList.delete m (dr_pending d)\<rparr>)"
    using assms(1,3,4) del dist keys sub unfolding inv_defs by auto
qed

lemma inv_answer:
  assumes "r \<in># X"
  shows "triple (\<lambda>d. driver_inv J (X - {#r#}) d \<and> length (dr_pending d) < MAX_PENDING_EXECUTOR_COMMANDS) (send_reply r v)
    (\<lambda>_. driver_inv J X) (late X)"
  using triple_weaken [OF inv_send [of J "X - {#r#}" r v]] insert_DiffM [OF assms] by fastforce

lemma inv_resident:
  "driver_inv J X d \<and> A (dr_pending d) \<Longrightarrow>
     driver_inv J X (d\<lparr>dr_residents := List.insert a (if 4096 \<le> length (dr_residents d) then [] else dr_residents d)\<rparr>) \<and> A (dr_pending d)"
  by (auto simp: inv_defs List.insert_def)

lemma inv_reply:
  assumes "pc_reply p \<in># X"
  shows "triple (\<lambda>d. driver_inv J (X - {#pc_reply p#}) d \<and> length (dr_pending d) < MAX_PENDING_EXECUTOR_COMMANDS)
    (case reply of
       RStateRequired \<Rightarrow>
         if pc_resident_only p then enqueue J (p\<lparr>pc_resident_only := False\<rparr>)
         else send_reply (pc_reply p) (Err (Msg ''actor executor refused explicit hydration''))
     | _ \<Rightarrow>
         bindE (case reply of
             RFailed _ _ \<Rightarrow> retE ()
           | REvicted \<Rightarrow> retE ()
           | _ \<Rightarrow> modE (\<lambda>d. d\<lparr>dr_residents := List.insert (command_actor (pc_command p))
               (if 4096 \<le> length (dr_residents d) then [] else dr_residents d)\<rparr>)) (\<lambda>_.
         send_reply (pc_reply p) (Ok reply)))
    (\<lambda>_. driver_inv J X) (late X)"
proof -
  let ?P = "\<lambda>d. driver_inv J (X - {#pc_reply p#}) d \<and> length (dr_pending d) < MAX_PENDING_EXECUTOR_COMMANDS"
  have again: "triple ?P (enqueue J (p\<lparr>pc_resident_only := False\<rparr>)) (\<lambda>_. driver_inv J X) (late X)"
    using inv_enqueue [of J "X - {#pc_reply p#}" "p\<lparr>pc_resident_only := False\<rparr>"] insert_DiffM [OF assms] by simp
  have note_resident: "triple ?P (modE (\<lambda>d. d\<lparr>dr_residents := List.insert a
      (if 4096 \<le> length (dr_residents d) then [] else dr_residents d)\<rparr>)) (\<lambda>_. ?P) (late X)" for a
    by (rule triple_mod) (use inv_resident [where A = "\<lambda>x. length x < MAX_PENDING_EXECUTOR_COMMANDS"] in force)
  show ?thesis
    by (cases reply) (auto intro!: again inv_answer [OF assms] triple_seq [OF note_resident])
qed

text \<open>The reply is refused while socket output or a lookup of the invocation is under way.\<close>

definition reply_checks :: "u64 \<Rightarrow> (executor_driver, unit) eff" where
  "reply_checks m =
     bindE (getE (\<lambda>d. m \<in> set (dr_lookup_ids d))) (\<lambda>looking.
     bindE (liftE (ensure (\<not> looking) ''actor completed before connection lookup finished'')) (\<lambda>_.
     bindE (getE (\<lambda>d. m \<in> set (dr_publishing_ids d))) (\<lambda>publishing.
     liftE (ensure (\<not> publishing) ''actor completed before socket output was acknowledged''))))"

lemma bindE_assoc: "bindE (bindE m f) g = bindE m (\<lambda>x. bindE (f x) g)"
  by (auto simp: bindE_def fun_eq_iff split: prod.splits sum.splits)

lemma inv_taken:
  "triple (driver_inv J X) (bindE (reply_checks m) (\<lambda>_. bindE (find_pending m t) (\<lambda>p.
     bindE (modE (\<lambda>d. d\<lparr>dr_pending := AList.delete m (dr_pending d)\<rparr>)) (\<lambda>_. retE p))))
   (\<lambda>p d. (driver_inv J (X - {#pc_reply p#}) d \<and> length (dr_pending d) < MAX_PENDING_EXECUTOR_COMMANDS) \<and> pc_reply p \<in># X) (late X)"
  unfolding reply_checks_def find_pending_def
  by (rule tripleI) (auto simp: eff_simps result_simps inv_late intro: inv_delete)

lemma inv_deliver: "turn_ok J X X (deliver J m reply)"
proof -
  have "deliver J m reply = bindE (bindE (reply_checks m) (\<lambda>_.
      bindE (find_pending m (''actor executor replied to unknown message '' @ show_u64 m)) (\<lambda>p.
      bindE (modE (\<lambda>d. d\<lparr>dr_pending := AList.delete m (dr_pending d)\<rparr>)) (\<lambda>_. retE p)))) (\<lambda>p. 
    case reply of
       RStateRequired \<Rightarrow>
         if pc_resident_only p then enqueue J (p\<lparr>pc_resident_only := False\<rparr>)
         else send_reply (pc_reply p) (Err (Msg ''actor executor refused explicit hydration''))
     | _ \<Rightarrow>
         bindE (case reply of
             RFailed _ _ \<Rightarrow> retE ()
           | REvicted \<Rightarrow> retE ()
           | _ \<Rightarrow> modE (\<lambda>d. d\<lparr>dr_residents := List.insert (command_actor (pc_command p))
               (if 4096 \<le> length (dr_residents d) then [] else dr_residents d)\<rparr>)) (\<lambda>_.
         send_reply (pc_reply p) (Ok reply)))"
    unfolding deliver_def reply_checks_def bindE_assoc bindE_pure ..
  then show ?thesis by (simp only:) (rule triple_bind [OF inv_taken], rule triple_assume, rule inv_reply)
qed

lemma inv_client: "turn_ok J X X (client_turn J now message)"
  unfolding client_turn_def
  by (cases message) (auto intro: inv_residency inv_allow inv_deliver inv_publish inv_connections triple_fail inv_late)

section \<open>Runs\<close>

fun taken :: "executor_driver \<Rightarrow> driver_event \<Rightarrow> nat multiset" where
  "taken d (DCommand (Exchange c s r)) =
     (if dr_running d \<and> length (dr_pending d) < MAX_PENDING_EXECUTOR_COMMANDS then {#r#} else {#})"
| "taken d _ = {#}"

lemma turn_run:
  assumes "triple P m (\<lambda>_. driver_inv J Y) (late Y)" "P d" "m d = (r, d')"
  shows "(is_ok r \<longrightarrow> driver_inv J Y d') \<and> late Y d'"
  using assms by (cases r) (auto dest: tripleD_Ok tripleD_Err inv_late)

lemma turn_apply:
  "driver_turn J C (DCommand q) d = (if length (dr_pending d) < MAX_PENDING_EXECUTOR_COMMANDS then handle_command J q d else (Inr (), d))"
  "driver_turn J C (DMessage now (Inr m)) d = client_turn J now m d"
  "driver_turn J C (DMessage now (Inl e)) d = (Inl e, d)"
  "driver_turn J C (DPublished i u) d =
     (if queue_room d \<and> i < length (dr_publishing d) then publish_done J C (dr_publishing d ! i) u d else (Inr (), d))"
  "driver_turn J C (DLoaded i l) d =
     (if queue_room d \<and> i < length (dr_loading d) then lookup_done J (dr_loading d ! i) l d else (Inr (), d))"
  "driver_turn J C (DWrite u) d = write_turn u d"
  "driver_turn J C DClosed d = (Inr (), d)"
  by (simp_all add: driver_turn_def)

lemma inv_turn:
  assumes "driver_inv J X d" "driver_turn J C ev d = (r, d')"
  shows "(is_ok r \<longrightarrow> driver_inv J (X + taken d ev) d') \<and> late (X + taken d ev) d'"
proof (cases ev)
  case (DCommand q)
  show ?thesis
  proof (cases "length (dr_pending d) < MAX_PENDING_EXECUTOR_COMMANDS")
    case True
    note run = assms(2) [unfolded DCommand turn_apply if_P [OF True]]
    have "dr_running d" using assms(1) by (simp add: driver_inv_def)
    with True DCommand turn_run [OF inv_ready assms(1)] turn_run [OF inv_handle] assms(1) run show ?thesis
      by (cases q) auto
  next
    case False
    then have "taken d ev = {#}" by (cases q) (simp_all add: DCommand)
    with assms False DCommand show ?thesis by (auto simp: turn_apply inv_late)
  qed
next
  case (DMessage now m)
  with assms turn_run [OF inv_client assms(1)] show ?thesis by (cases m) (auto simp: turn_apply inv_late)
next
  case (DPublished i u)
  with assms turn_run [OF inv_published [of J X "dr_publishing d ! i" C u], of d] show ?thesis by (auto simp: turn_apply inv_late split: if_splits)
next
  case (DLoaded i l)
  with assms turn_run [OF inv_loaded [of J X "dr_loading d ! i" l], of d] show ?thesis by (auto simp: turn_apply inv_late split: if_splits)
next
  case (DWrite u)
  with assms turn_run [OF inv_write assms(1)] show ?thesis by (auto simp: turn_apply)
qed (use assms in \<open>auto simp: turn_apply inv_late\<close>)

text \<open>A driver that runs has the invariant; one that has stopped has told every caller.\<close>

definition driver_ok :: "message_codec \<Rightarrow> nat multiset \<Rightarrow> executor_driver \<Rightarrow> bool" where
  "driver_ok J X d \<longleftrightarrow> driver_wf d \<and> sent J d \<and> callers d = X \<and> (dr_running d \<or> dr_pending d = [])"

lemma stop_ok: "late X d \<Longrightarrow> driver_ok J X (stop_driver d)"
proof -
  have "map fst (map (\<lambda>(_, p). (pc_reply p, disconnected)) ps) = map (pc_reply \<circ> snd) ps" for ps :: "(u64 \<times> pending_command) list"
    by (simp add: comp_def split_def)
  then show "late X d \<Longrightarrow> driver_ok J X (stop_driver d)"
    unfolding driver_ok_def stop_driver_def inv_defs by (simp add: comp_def split_def)
qed

lemma step_ok:
  assumes "driver_ok J X d"
  shows "driver_ok J (X + taken d ev) (driver_step J C ev d)"
proof (cases "dr_running d")
  case False
  moreover then have "taken d ev = {#}" by (cases "(d, ev)" rule: taken.cases) auto
  ultimately show ?thesis using assms by (simp add: driver_step_def)
next
  case True
  then have inv: "driver_inv J X d" using assms by (simp add: driver_ok_def driver_inv_def)
  obtain r d' where run: "driver_turn J C ev d = (r, d')" by fastforce
  from inv_turn [OF inv run] True stop_ok inv_late [OF inv] run show ?thesis
    by (cases r) (auto simp: driver_step_def driver_ok_def driver_inv_def)
qed

fun accepted :: "message_codec \<Rightarrow> socket_codec \<Rightarrow> driver_event list \<Rightarrow> executor_driver \<Rightarrow> nat multiset" where
  "accepted J C [] d = {#}"
| "accepted J C (ev # evs) d = taken d ev + accepted J C evs (driver_step J C ev d)"

lemma run_ok: "driver_ok J X d \<Longrightarrow> driver_ok J (X + accepted J C evs d) (driver_run J C evs d)"
proof (induction evs arbitrary: X d)
  case (Cons ev evs)
  from Cons.IH [OF step_ok [OF Cons.prems]] show ?case by (simp add: driver_run_def add.assoc)
qed (simp add: driver_run_def)

lemma new_ok: "driver_ok J {#} new_driver"
  by (simp add: driver_ok_def inv_defs new_driver_def)

lemmas reached_ok = run_ok [OF new_ok, simplified]

text \<open>
  C34: The tables of the driver stay consistent: after any messages, commands, completions and writes, at most 64
  commands wait under distinct numbers below the next one, at most 65 writes are queued, and socket output and
  lookups under way belong to commands that wait, at most one of each per command.
\<close>

theorem driver_well_formed: "driver_wf (driver_run J C evs new_driver)"
  using reached_ok [of J C evs] by (simp add: driver_ok_def)

text \<open>
  C32: Every caller is answered exactly once: the callers of the commands the driver took are those it has
  answered and those whose command waits, with multiplicities, and none waits once the connection has stopped.
\<close>

theorem callers_answered_once:
  "accepted J C evs new_driver = mset (map fst (dr_replies (driver_run J C evs new_driver))) +
     mset (map (pc_reply \<circ> snd) (dr_pending (driver_run J C evs new_driver))) \<and>
   (dr_running (driver_run J C evs new_driver) \<or> dr_pending (driver_run J C evs new_driver) = [])"
  using reached_ok [of J C evs] by (auto simp: driver_ok_def callers_def)

section \<open>Replies\<close>

lemma replies_kept:
  "note_residency now actors d = (r, d') \<Longrightarrow> dr_replies d' = dr_replies d"
  "allow_next_invocation m d = (r, d') \<Longrightarrow> dr_replies d' = dr_replies d"
  "load_connections m d = (r, d') \<Longrightarrow> dr_replies d' = dr_replies d"
  "driver_publish m fs d = (r, d') \<Longrightarrow> dr_replies d' = dr_replies d"
  "publish_done J C t u d = (r, d') \<Longrightarrow> dr_replies d' = dr_replies d"
  "lookup_done J k l d = (r, d') \<Longrightarrow> dr_replies d' = dr_replies d"
  "write_turn u d = (r, d') \<Longrightarrow> dr_replies d' = dr_replies d"
  "try_send_write b w d = (r, d') \<Longrightarrow> dr_replies d' = dr_replies d"
  unfolding note_residency_def allow_next_invocation_def load_connections_def driver_publish_def publish_done_def
    lookup_done_def write_turn_def find_pending_def queue_write_def try_send_write_def Let_def
  by (cases r; auto simp: eff_simps split: list.splits)+

definition answers :: "executor_driver \<Rightarrow> (nat \<Rightarrow> executor_reply \<Rightarrow> bool) \<Rightarrow> executor_driver \<Rightarrow> bool" where
  "answers d P d' \<longleftrightarrow> (\<exists>vs. dr_replies d' = dr_replies d @ vs \<and> (\<forall>(c, v) \<in> set vs. \<forall>x. v = Inr x \<longrightarrow> P c x))"

lemma answers_none: "dr_replies d' = dr_replies d \<Longrightarrow> answers d P d'"
  by (simp add: answers_def)

lemma answers_mono: "answers d P d' \<Longrightarrow> (\<And>c x. P c x \<Longrightarrow> Q c x) \<Longrightarrow> answers d Q d'"
  unfolding answers_def by fastforce

lemma answers_stop: "answers d P d' \<Longrightarrow> answers d P (stop_driver d')"
  unfolding answers_def stop_driver_def disconnected_def by (auto, fastforce)

abbreviation refused :: "executor_reply \<Rightarrow> bool" where
  "refused x \<equiv> x = RFailed ''resource_exhausted'' too_large_message"

lemma enqueue_answers: "enqueue J p d = (r, d') \<Longrightarrow> answers d (\<lambda>_. refused) d'"
  unfolding enqueue_def or_drop_def send_reply_def try_send_write_def queue_write_def disconnected_def answers_def
  by (cases r) (auto simp: eff_simps split: sum.splits encode_error.splits if_splits)

lemma handle_answers: "handle_command J q d = (r, d') \<Longrightarrow> answers d (\<lambda>_. refused) d'"
proof (cases q)
  case (Exchange c s v)
  assume "handle_command J q d = (r, d')"
  with Exchange obtain p d1 where "enqueue J p d1 = (r, d')" "dr_replies d1 = dr_replies d"
    by (cases r) (auto simp: handle_command_def eff_simps)
  with enqueue_answers [of J p d1 r d'] show ?thesis by (simp add: answers_def)
next
  case (Ready w u v)
  assume "handle_command J q d = (r, d')"
  with Ready have "dr_replies d' = dr_replies d"
    by (cases r) (auto simp: handle_command_def try_send_write_def queue_write_def eff_simps)
  then show ?thesis by (rule answers_none)
qed

lemma deliver_answers:
  assumes "deliver J m reply d = (r, d')"
  shows "answers d (\<lambda>c x. refused x \<or> x = reply \<and> (\<exists>p. map_of (dr_pending d) m = Some p \<and> pc_reply p = c)) d'"
proof (cases "map_of (dr_pending d) m")
  case None
  with assms have "d' = d" by (cases r) (auto simp: deliver_def find_pending_def eff_simps result_simps)
  then show ?thesis by (simp add: answers_none)
next
  case (Some p)
  with assms have "d' = d \<or> (\<exists>d1 q. dr_replies d1 = dr_replies d \<and> enqueue J q d1 = (r, d')) \<or>
      (\<exists>v. dr_replies d' = dr_replies d @ [(pc_reply p, v)] \<and> (\<forall>x. v = Inr x \<longrightarrow> x = reply))"
    by (cases r) (auto simp: deliver_def find_pending_def send_reply_def eff_simps result_simps split: executor_reply.splits if_splits)
  then show ?thesis
  proof (elim disjE exE conjE)
    fix d1 q assume "dr_replies d1 = dr_replies d" "enqueue J q d1 = (r, d')"
    with enqueue_answers [of J q d1 r d'] have "answers d (\<lambda>_. refused) d'" by (simp add: answers_def)
    then show ?thesis by (rule answers_mono) simp
  next
    fix v assume "dr_replies d' = dr_replies d @ [(pc_reply p, v)]" "\<forall>x. v = Inr x \<longrightarrow> x = reply"
    with Some show ?thesis by (auto simp: answers_def)
  qed (simp add: answers_none)
qed

definition from_reply :: "driver_event \<Rightarrow> executor_driver \<Rightarrow> nat \<Rightarrow> executor_reply \<Rightarrow> bool" where
  "from_reply ev d c x \<longleftrightarrow> refused x \<or>
     (\<exists>now m p. ev = DMessage now (Inr (CReply m x)) \<and> map_of (dr_pending d) m = Some p \<and> pc_reply p = c)"

lemma turn_answers:
  assumes "driver_turn J C ev d = (r, d')"
  shows "answers d (from_reply ev d) d'"
proof (cases ev)
  case (DMessage now m)
  show ?thesis
  proof (cases m)
    case (Inr msg)
    with DMessage assms have run: "client_turn J now msg d = (r, d')" by (simp add: turn_apply)
    show ?thesis
    proof (cases msg)
      case (CReply k reply)
      with run have "deliver J k reply d = (r, d')" by (simp add: client_turn_def)
      from answers_mono [OF deliver_answers [OF this]] DMessage Inr CReply show ?thesis by (fastforce simp: from_reply_def)
    qed (use run replies_kept in \<open>auto simp: client_turn_def eff_simps intro!: answers_none\<close>)
  qed (use DMessage assms in \<open>auto simp: turn_apply intro: answers_none\<close>)
next
  case (DCommand q)
  with assms handle_answers [of J q d] show ?thesis
    by (auto simp: turn_apply from_reply_def split: if_splits intro: answers_none answers_mono)
qed (use assms replies_kept in \<open>auto simp: turn_apply split: if_splits intro: answers_none\<close>)


section \<open>Framing\<close>

text \<open>A text that can stand on a line of its own.\<close>

definition line_text :: "bytes \<Rightarrow> bool" where
  "line_text line \<longleftrightarrow> line \<noteq> [] \<and> CHR 0x0A \<notin> set line \<and> \<not> ascii_whitespace (last line) \<and>
     length line < MAX_ACTOR_EXECUTOR_MESSAGE_BYTES"

lemma read_until_line: "CHR 0x0A \<notin> set line \<Longrightarrow> read_until (line @ CHR 0x0A # rest) = (line @ [CHR 0x0A], rest)"
  by (induction line) auto

lemma read_line:
  assumes "line_text line"
  shows "read_client_message f (line @ CHR 0x0A # rest) = (bindR (f line) (\<lambda>m. Ok (Some m)), rest)"
proof -
  let ?n = "Suc MAX_ACTOR_EXECUTOR_MESSAGE_BYTES"
  have "take ?n (line @ CHR 0x0A # rest) = line @ CHR 0x0A # take (?n - Suc (length line)) rest"
    using assms by (simp add: line_text_def take_Cons' Suc_diff_le)
  then have "fst (read_until (take ?n (line @ CHR 0x0A # rest))) = line @ [CHR 0x0A]"
    using assms by (simp add: line_text_def read_until_line)
  moreover have "trim_ascii_end (line @ [CHR 0x0A]) = line"
    using assms by (cases line rule: rev_cases) (auto simp: trim_ascii_end_def line_text_def ascii_whitespace_def)
  ultimately show ?thesis using assms
    by (auto simp: read_client_message_def Let_def line_text_def ensure_def split: prod.splits)
qed

text \<open>
  C35: The reader takes messages whole: from a stream of lines, each with the text of one message, it hands over the decoded
  messages in order, and then reports the disconnection.
\<close>

theorem messages_roundtrip:
  assumes "list_all line_text texts" "list_all (\<lambda>line. from_slice line = Inr (decoded line)) texts"
  shows "read_executor_messages from_slice (concat (map (\<lambda>line. line @ [CHR 0x0A]) texts)) =
    map (\<lambda>line. Inr (decoded line)) texts @ [Err (Msg ''customer JavaScript actor executor disconnected'')]"
  using assms
proof (induction texts)
  case Nil show ?case by (simp add: read_client_message_def)
next
  case (Cons line texts)
  then show ?case by (subst read_executor_messages.simps) (simp add: read_line del: read_executor_messages.simps)
qed

section \<open>Examples\<close>

definition demo_messages :: message_codec where
  "demo_messages m = (case m of SvCommand k _ _ _ \<Rightarrow> Ok (''command '' @ show_u64 k)
     | SvAttached _ _ \<Rightarrow> Ok ''attached'' | SvSocketEffectsPublished k _ \<Rightarrow> Ok (''published '' @ show_u64 k)
     | SvSocketConnections k _ _ \<Rightarrow> Ok (''connections '' @ show_u64 k))"

definition demo_socket_codec :: socket_codec where
  "demo_socket_codec = \<lparr>json_to_vec = (\<lambda>_. []), effect_to_vec = (\<lambda>_. []), standard_decode = (\<lambda>_. None)\<rparr>"

definition demo_call :: actor_invocation where
  "demo_call = \<lparr>inv_request_id = ''q'', inv_actor = demo_actor ''a'', inv_method = ''m'', inv_args = []\<rparr>"

definition demo_turns :: "driver_event list" where
  "demo_turns = [DCommand (Exchange (Invoke demo_call) None 7), DWrite (Inr ()), DMessage 0 (Inr (CSocketEffects 1 [])),
     DMessage 0 (Inr (CGetConnections 1)), DPublished 0 (Inr ()), DLoaded 0 (Inr [])]"

abbreviation demo_driver :: executor_driver where
  "demo_driver \<equiv> driver_run demo_messages demo_socket_codec demo_turns new_driver"

abbreviation demo_reply :: driver_event where
  "demo_reply \<equiv> DMessage 0 (Inr (CReply 1 (RInvoked JNull JNull None [])))"

text \<open>The acknowledgement of socket output and the answer to a lookup of one command can both wait in the queue of writes.\<close>

lemma acknowledgements_queue: "length (dr_pending demo_driver) = 1 \<and> length (dr_outbound demo_driver) = 2"
  by code_simp

lemma demo_answer:
  "dr_replies demo_driver = [] \<and>
   dr_replies (driver_step demo_messages demo_socket_codec demo_reply demo_driver) = [(7, Inr (RInvoked JNull JNull None []))]"
  by code_simp


theorem messages_roundtrip_witness:
  "read_executor_messages (\<lambda>line. Inr (CAttach (length line) [line])) (''ab'' @ [CHR 0x0A] @ ''c'' @ [CHR 0x0A]) =
     [Inr (CAttach 2 [''ab'']), Inr (CAttach 1 [''c'']), Err (Msg ''customer JavaScript actor executor disconnected'')]"
  using messages_roundtrip [of "[''ab'', ''c'']" "\<lambda>line. Inr (CAttach (length line) [line])" "\<lambda>line. CAttach (length line) [line]"]
  by (simp add: line_text_def ascii_whitespace_def MAX_ACTOR_EXECUTOR_MESSAGE_BYTES_def del: read_executor_messages.simps)

end
