(* ===== verification/Actor_Commits.thy ===== *)
theory Actor_Commits
  imports Actor_Runtime
begin

text \<open>
  What the runtime of an actor guarantees about commits. The ledger is the abstract contract: it holds the
  committed version, state and last result, and the one write that may be in flight. Services that keep a
  log of what the runtime loads, executes and writes show that every history of the runtime is a history
  of the ledger, whatever the services answer.
\<close>

section \<open>The ledger\<close>

datatype actor_event =
    EvAcquire actor_activation
  | EvLoad u64 "(u64 \<times> bytes) result"
  | EvExecute string "json option" "(json \<times> json) option"
  | EvWrite write_plan bytes bool

record ledger =
  lg_epoch :: u64
  lg_version :: u64
  lg_state :: "json option"
  lg_last :: "(string \<times> json) option"
  lg_attempt :: "(replica_stream \<times> string \<times> state_snapshot \<times> json) option"

definition ledger_of :: "cached_actor_state \<Rightarrow> ledger" where
  "ledger_of c = \<lparr>lg_epoch = ca_owner_epoch c, lg_version = ca_state_version c, lg_state = ca_state c,
     lg_last = (case (ca_last_request_id c, ca_last_result c) of (Some r, Some v) \<Rightarrow> Some (r, v) | _ \<Rightarrow> None),
     lg_attempt = None\<rparr>"

definition acquired_state :: "snapshot_codec \<Rightarrow> actor_activation \<Rightarrow> cached_actor_state result" where
  "acquired_state J a =
     (if act_state_version a = 0 then Ok (new_cached (act_owner_epoch a))
      else bindR (ok_or (act_state a) ''activation has no recovered state'') (\<lambda>bytes.
        from_loaded J (act_owner_epoch a) (act_state_version a) bytes))"

definition loaded_state :: "snapshot_codec \<Rightarrow> u64 \<Rightarrow> u64 \<Rightarrow> bytes \<Rightarrow> cached_actor_state result" where
  "loaded_state J epoch version loaded =
     (if version = 0 then bindR (ensure (loaded = []) ''uninitialized actor has state'') (\<lambda>_. Ok (new_cached epoch))
      else from_loaded J epoch version loaded)"

text \<open>
  A write of the ledger of an owner epoch: the snapshot of the next version of an actor state. While its outcome
  is unknown nothing else is written or executed, and a retry writes the same bytes under the same name.
  A load starts the ledger of another epoch, and an activation starts the first one or is ignored.
\<close>

definition next_snapshot :: "snapshot_codec \<Rightarrow> u64 \<Rightarrow> ledger \<Rightarrow> state_snapshot \<Rightarrow> json \<Rightarrow> bool" where
  "next_snapshot J n L s state \<longleftrightarrow>
     checked_add (lg_version L) 1 = Some (ss_state_version s) \<and> ss_owner_epoch s = n \<and>
     ss_state s = to_raw_value J state \<and> validate_snapshot s = Ok ()"

definition committed :: "ledger \<Rightarrow> state_snapshot \<Rightarrow> json \<Rightarrow> ledger" where
  "committed L s state = \<lparr>lg_epoch = lg_epoch L, lg_version = ss_state_version s, lg_state = Some state,
     lg_last = Some (ss_request_id s, ss_result s), lg_attempt = None\<rparr>"

definition started :: "snapshot_codec \<Rightarrow> u64 \<Rightarrow> (u64 \<times> bytes) result \<Rightarrow> ledger option" where
  "started J m r = (case bindR r (\<lambda>(v, b). loaded_state J m v b) of Inr c \<Rightarrow> Some (ledger_of c) | Inl _ \<Rightarrow> None)"

inductive ledger_step :: "snapshot_codec \<Rightarrow> ledger option \<Rightarrow> actor_event \<Rightarrow> ledger option \<Rightarrow> bool" for J where
  Acquire: "acquired_state J a = Ok c \<Longrightarrow> ledger_step J None (EvAcquire a) (Some (ledger_of c))"
| Acquire_ignored: "ledger_step J L (EvAcquire a) L"
| Load: "(\<And>L'. L = Some L' \<Longrightarrow> lg_epoch L' \<noteq> m) \<Longrightarrow> ledger_step J L (EvLoad m r) (started J m r)"
| Execute: "lg_attempt L = None \<Longrightarrow> ledger_step J (Some L) (EvExecute r (lg_state L) new) (Some L)"
| Write: "lg_attempt L = None \<Longrightarrow> next_snapshot J (lg_epoch L) L s state \<Longrightarrow> rs_owner_epoch (wp_stream plan) = lg_epoch L \<Longrightarrow>
    ledger_step J (Some L) (EvWrite plan (snapshot_to_vec J s) ok)
      (Some (if ok then committed L s state
             else L\<lparr>lg_attempt := Some (wp_stream plan, wp_object_name plan, s, state)\<rparr>))"
| Retry: "lg_attempt L = Some (wp_stream plan, wp_object_name plan, s, state) \<Longrightarrow>
    ledger_step J (Some L) (EvWrite plan (snapshot_to_vec J s) ok) (Some (if ok then committed L s state else L))"

inductive_cases ledger_writeE: "ledger_step J L (EvWrite plan b ok) L'"
inductive_cases ledger_executeE: "ledger_step J L (EvExecute r state new) L'"

inductive ledger_run :: "snapshot_codec \<Rightarrow> ledger option \<Rightarrow> actor_event list \<Rightarrow> ledger option \<Rightarrow> bool" for J where
  run_Nil [simp, intro]: "ledger_run J L [] L"
| run_snoc: "ledger_run J L es L' \<Longrightarrow> ledger_step J L' e L'' \<Longrightarrow> ledger_run J L (es @ [e]) L''"

section \<open>Logged services\<close>

definition keep_log :: "('e, 'a) eff \<Rightarrow> ('e \<times> actor_event list, 'a) eff" where
  "keep_log m w = (case m (fst w) of (r, e) \<Rightarrow> (r, (e, snd w)))"

definition log_ok :: "('a \<Rightarrow> actor_event) \<Rightarrow> ('e, 'a) eff \<Rightarrow> ('e \<times> actor_event list, 'a) eff" where
  "log_ok ev m w = (case m (fst w) of (Inr x, e) \<Rightarrow> (Inr x, (e, snd w @ [ev x])) | (Inl er, e) \<Rightarrow> (Inl er, (e, snd w)))"

definition log_call :: "('a result \<Rightarrow> actor_event) \<Rightarrow> ('e, 'a) eff \<Rightarrow> ('e \<times> actor_event list, 'a) eff" where
  "log_call ev m w = (case m (fst w) of (r, e) \<Rightarrow> (r, (e, snd w @ [ev r])))"

text \<open>The result and the new state an executor returned.\<close>

definition method_state :: "method_outcome result \<Rightarrow> (json \<times> json) option" where
  "method_state r = (case r of Inr (MCompleted result state _) \<Rightarrow> Some (result, state) | _ \<Rightarrow> None)"

definition socket_state :: "socket_outcome result \<Rightarrow> (json \<times> json) option" where
  "socket_state r = (case r of Inr (SHandled state _) \<Rightarrow> Some (JNull, state) | _ \<Rightarrow> None)"

definition logged :: "'e actor_services \<Rightarrow> ('e \<times> actor_event list) actor_services" where
  "logged S =
     \<lparr>sv_host = sv_host S, sv_snapshots = sv_snapshots S, sv_sockets = sv_sockets S,
      sv_unix_millis = keep_log (sv_unix_millis S), x_supports = x_supports S,
      x_hydrate = (\<lambda>a st. keep_log (x_hydrate S a st)),
      x_invoke = (\<lambda>i st. log_call (\<lambda>r. EvExecute (inv_request_id i) st (method_state r)) (x_invoke S i st)),
      x_handle_socket = (\<lambda>i st. log_call (\<lambda>r. EvExecute (si_request_id i) st (socket_state r)) (x_handle_socket S i st)),
      x_evict = (\<lambda>a. keep_log (x_evict S a)),
      s_acquire = (\<lambda>a h. log_ok EvAcquire (s_acquire S a h)),
      s_load_state = (\<lambda>a h n. log_call (EvLoad n) (s_load_state S a h n)),
      s_ensure_authority = keep_log (s_ensure_authority S),
      s_prepare_write = (\<lambda>a h n v. keep_log (s_prepare_write S a h n v)),
      s_write_snapshot = (\<lambda>plan b. log_call (\<lambda>r. EvWrite plan b (is_ok r)) (s_write_snapshot S plan b)),
      s_publish = (\<lambda>a es. keep_log (s_publish S a es))\<rparr>"

lemma triple_if:
  "(b \<Longrightarrow> triple P m Q E) \<Longrightarrow> (\<not> b \<Longrightarrow> triple P m' Q E) \<Longrightarrow> triple P (if b then m else m') Q E"
  by simp

text \<open>What the log says about the cached state.\<close>

definition agrees :: "snapshot_codec \<Rightarrow> u64 \<Rightarrow> cached_actor_state \<Rightarrow> ledger \<Rightarrow> bool" where
  "agrees J n c L \<longleftrightarrow>
     ca_owner_epoch c = n \<and>
     (case ca_pending c of
        None \<Rightarrow> L = ledger_of c
      | Some p \<Rightarrow>
          next_snapshot J n (ledger_of c) (pe_snapshot p) (pe_state p) \<and> rs_owner_epoch (wp_stream (pe_ticket p)) = n \<and>
          L = (if pe_durable p then committed (ledger_of c) (pe_snapshot p) (pe_state p)
               else (ledger_of c)\<lparr>lg_attempt :=
                 Some (wp_stream (pe_ticket p), wp_object_name (pe_ticket p), pe_snapshot p, pe_state p)\<rparr>))"

definition tracked :: "snapshot_codec \<Rightarrow> u64 \<Rightarrow> cached_actor_state \<Rightarrow> actor_event list \<Rightarrow> bool" where
  "tracked J n c log \<longleftrightarrow> (\<exists>L. ledger_run J None log (Some L) \<and> agrees J n c L)"

lemma ledger_of_upd [simp]:
  "ledger_of (c\<lparr>ca_next_write := x\<rparr>) = ledger_of c" "ledger_of (c\<lparr>ca_pending := y\<rparr>) = ledger_of c"
  by (simp_all add: ledger_of_def)

lemma tracked_next_write [simp]: "tracked J n (c\<lparr>ca_next_write := x\<rparr>) l \<longleftrightarrow> tracked J n c l"
  by (cases "ca_pending c") (simp_all add: tracked_def agrees_def)

lemma logged_sel [simp]:
  "sv_host (logged S) = sv_host S" "sv_snapshots (logged S) = sv_snapshots S" "sv_sockets (logged S) = sv_sockets S"
  "sv_unix_millis (logged S) = keep_log (sv_unix_millis S)" "x_hydrate (logged S) a st = keep_log (x_hydrate S a st)"
  "x_invoke (logged S) i st = log_call (\<lambda>r. EvExecute (inv_request_id i) st (method_state r)) (x_invoke S i st)"
  "x_handle_socket (logged S) j st = log_call (\<lambda>r. EvExecute (si_request_id j) st (socket_state r)) (x_handle_socket S j st)"
  "x_evict (logged S) a = keep_log (x_evict S a)" "s_acquire (logged S) a h = log_ok EvAcquire (s_acquire S a h)"
  "s_load_state (logged S) a h n = log_call (EvLoad n) (s_load_state S a h n)"
  "s_ensure_authority (logged S) = keep_log (s_ensure_authority S)"
  "s_prepare_write (logged S) a h n v = keep_log (s_prepare_write S a h n v)"
  "s_write_snapshot (logged S) plan b = log_call (\<lambda>r. EvWrite plan b (is_ok r)) (s_write_snapshot S plan b)"
  "s_publish (logged S) a es = keep_log (s_publish S a es)"
  by (simp_all add: logged_def)

text \<open>Assertions about the cached state and the log, and rules for the computations on them.\<close>

definition onC :: "(cached_actor_state \<Rightarrow> actor_event list \<Rightarrow> bool) \<Rightarrow> cached_actor_state \<times> 'e \<times> actor_event list \<Rightarrow> bool" where
  "onC Q w = Q (fst w) (snd (snd w))"

lemma C_keep:
  assumes "\<And>x. triple (onC Q) (f x) R (onC E)" "\<And>c l. Q c l \<Longrightarrow> E c l"
  shows "triple (onC Q) (bindE (envC (keep_log m)) f) R (onC E)"
  by (rule triple_bind [where R = "\<lambda>_. onC Q"], rule tripleI)
    (use assms in \<open>auto simp: onC_def envC_def keep_log_def eff_simps split: prod.splits\<close>)

lemma C_keep_last:
  assumes "\<And>x c l. Q c l \<Longrightarrow> R x c l" "\<And>c l. Q c l \<Longrightarrow> E c l"
  shows "triple (onC Q) (envC (keep_log m)) (\<lambda>x. onC (R x)) (onC E)"
  by (rule tripleI) (use assms in \<open>auto simp: onC_def envC_def keep_log_def eff_simps split: prod.splits\<close>)

lemma C_get:
  assumes "\<And>c0. triple (onC (\<lambda>c l. Q c l \<and> c = c0)) (f (g c0)) R E"
  shows "triple (onC Q) (bindE (getE (\<lambda>w. g (fst w))) f) R E"
  using assms unfolding triple_def onC_def bindE_def by fastforce

lemma C_mod:
  assumes "\<And>c l. Q c l \<Longrightarrow> Q' (g c) l" "triple (onC Q') (f ()) R E"
  shows "triple (onC Q) (bindE (modC g) f) R E"
  by (rule triple_bind [where R = "\<lambda>_. onC Q'"], rule tripleI)
    (use assms in \<open>auto simp: onC_def modC_def\<close>)

lemma C_lift:
  assumes "\<And>x. r = Inr x \<Longrightarrow> triple (onC Q) (f x) R (onC E)" "\<And>c l. Q c l \<Longrightarrow> E c l"
  shows "triple (onC Q) (bindE (liftE r) f) R (onC E)"
  by (rule triple_bind_lift) (use assms in \<open>auto simp: onC_def\<close>)

lemma C_ret: "(\<And>c l. Q c l \<Longrightarrow> R x c l) \<Longrightarrow> triple (onC Q) (retE x) (\<lambda>x. onC (R x)) E"
  by (rule triple_ret) (simp add: onC_def)

lemma C_write:
  assumes "\<And>c l. Q c l \<Longrightarrow> Q' c (l @ [EvWrite plan b True])" "\<And>c l. Q c l \<Longrightarrow> E c (l @ [EvWrite plan b False])"
    "\<And>x. triple (onC Q') (f x) R (onC E)"
  shows "triple (onC Q) (bindE (envC (log_call (\<lambda>r. EvWrite plan b (is_ok r)) m)) f) R (onC E)"
  by (rule triple_bind [where R = "\<lambda>_. onC Q'"], rule tripleI)
    (use assms in \<open>auto simp: onC_def envC_def log_call_def eff_simps is_ok_def split: prod.splits\<close>)

lemma C_weaken: "triple (onC Q) m R E \<Longrightarrow> (\<And>c l. Q' c l \<Longrightarrow> Q c l) \<Longrightarrow> triple (onC Q') m R E"
  unfolding triple_def onC_def by blast

lemma C_mod_ret:
  "(\<And>c l. Q c l \<Longrightarrow> R x (g c) l) \<Longrightarrow> triple (onC Q) (bindE (modC g) (\<lambda>_. retE x)) (\<lambda>x. onC (R x)) E"
  by (rule tripleI) (auto simp: onC_def modC_def eff_simps)

lemmas C_rules = C_keep C_keep_last C_get C_lift C_ret

text \<open>A write of the pending commit, with its acknowledgement recorded or not.\<close>

lemma write_pending:
  assumes run: "ledger_run J None log (Some L)" and L: "L = ledger_of c \<or> L = (ledger_of c)\<lparr>lg_attempt :=
      Some (wp_stream (pe_ticket p), wp_object_name (pe_ticket p), pe_snapshot p, pe_state p)\<rparr>"
    and ok: "next_snapshot J n (ledger_of c) (pe_snapshot p) (pe_state p)" "rs_owner_epoch (wp_stream (pe_ticket p)) = n"
    and c: "ca_owner_epoch c = n" "\<not> pe_durable p"
  shows "tracked J n (c\<lparr>ca_pending := Some (p\<lparr>pe_durable := b\<rparr>)\<rparr>) (log @ [EvWrite (pe_ticket p) (snapshot_to_vec J (pe_snapshot p)) b])"
proof -
  let ?L = "if b then committed (ledger_of c) (pe_snapshot p) (pe_state p)
    else (ledger_of c)\<lparr>lg_attempt := Some (wp_stream (pe_ticket p), wp_object_name (pe_ticket p), pe_snapshot p, pe_state p)\<rparr>"
  from L have "ledger_step J (Some L) (EvWrite (pe_ticket p) (snapshot_to_vec J (pe_snapshot p)) b) (Some ?L)"
  proof
    assume "L = ledger_of c"
    moreover have "lg_attempt (ledger_of c) = None" "lg_epoch (ledger_of c) = n" using c(1) by (simp_all add: ledger_of_def)
    ultimately show ?thesis using ledger_step.Write [of "ledger_of c" J "pe_snapshot p" "pe_state p" "pe_ticket p" b] ok by simp
  next
    assume L: "L = (ledger_of c)\<lparr>lg_attempt :=
      Some (wp_stream (pe_ticket p), wp_object_name (pe_ticket p), pe_snapshot p, pe_state p)\<rparr>"
    then have "committed L (pe_snapshot p) (pe_state p) = committed (ledger_of c) (pe_snapshot p) (pe_state p)"
      by (simp add: committed_def)
    with L show ?thesis using ledger_step.Retry [of L "pe_ticket p" "pe_snapshot p" "pe_state p" J b] by (cases b) simp_all
  qed
  from run_snoc [OF run this] show ?thesis using ok c by (auto simp: tracked_def agrees_def)
qed

lemma renew_pending_tracked:
  "triple (onC (\<lambda>c l. tracked J n c l \<and> ca_pending c = Some p \<and> \<not> pe_durable p)) (renew_pending (logged S) i p)
     (\<lambda>p'. onC (\<lambda>c l. tracked J n c l \<and> ca_pending c = Some p' \<and> \<not> pe_durable p')) (onC (tracked J n))"
proof -
  have renewed: "tracked J n (c\<lparr>ca_pending := Some (p\<lparr>pe_ticket := t\<rparr>)\<rparr>) l"
    if "tracked J n c l" "ca_pending c = Some p" "\<not> pe_durable p" "wp_stream t = wp_stream (pe_ticket p)"
      "wp_object_name t = wp_object_name (pe_ticket p)" for c t l
    using that by (auto simp: tracked_def agrees_def ledger_of_def)
  show ?thesis
    unfolding renew_pending_def Let_def logged_sel
    by (rule C_keep) (auto intro!: C_rules C_get [where g = "\<lambda>c. c"] C_mod_ret renewed simp: result_simps)
qed

lemma settle_tracked:
  "triple (onC (\<lambda>c l. tracked J n c l \<and> ca_pending c = Some p \<and> pe_durable p)) (settle p)
     (\<lambda>_. onC (\<lambda>c l. tracked J n c l \<and> ca_pending c = None)) (onC (tracked J n))"
proof -
  have last: "(\<And>c l. Q c l \<Longrightarrow> R (g c) l) \<Longrightarrow> triple (onC Q) (modC g) (\<lambda>_. onC R) E" for Q R g E
    by (rule tripleI) (auto simp: onC_def modC_def eff_simps)
  show ?thesis
    unfolding settle_def Let_def
    by (rule C_lift, rule last) (auto simp: tracked_def agrees_def committed_def ledger_of_def)
qed

definition writable :: "snapshot_codec \<Rightarrow> u64 \<Rightarrow> pending_commit \<Rightarrow> cached_actor_state \<Rightarrow> actor_event list \<Rightarrow> bool" where
  "writable J n p c l \<longleftrightarrow>
     ca_pending c = Some p \<and> \<not> pe_durable p \<and> ca_owner_epoch c = n \<and>
     next_snapshot J n (ledger_of c) (pe_snapshot p) (pe_state p) \<and> rs_owner_epoch (wp_stream (pe_ticket p)) = n \<and>
     (\<exists>L. ledger_run J None l (Some L) \<and> (L = ledger_of c \<or> L = (ledger_of c)\<lparr>lg_attempt :=
        Some (wp_stream (pe_ticket p), wp_object_name (pe_ticket p), pe_snapshot p, pe_state p)\<rparr>))"

lemma tracked_writable: "tracked J n c l \<Longrightarrow> ca_pending c = Some p \<Longrightarrow> \<not> pe_durable p \<Longrightarrow> writable J n p c l"
  by (auto simp: tracked_def agrees_def writable_def)

lemma write_durable:
  assumes "triple (onC (\<lambda>c l. tracked J n c l \<and> ca_pending c = Some (p\<lparr>pe_durable := True\<rparr>))) (f ()) R (onC (tracked J n))"
  shows "triple (onC (writable J n p))
    (bindE (envC (log_call (\<lambda>r. EvWrite (pe_ticket p) (snapshot_to_vec J (pe_snapshot p)) (is_ok r)) m)) (\<lambda>_.
     bindE (modC (\<lambda>c. c\<lparr>ca_pending := Some (p\<lparr>pe_durable := True\<rparr>)\<rparr>)) f)) R (onC (tracked J n))"
proof (rule C_write)
  fix c l assume w: "writable J n p c l"
  then have t: "tracked J n (c\<lparr>ca_pending := Some (p\<lparr>pe_durable := b\<rparr>)\<rparr>) (l @ [EvWrite (pe_ticket p) (snapshot_to_vec J (pe_snapshot p)) b])" for b
    by (auto simp: writable_def intro: write_pending)
  have "p\<lparr>pe_durable := False\<rparr> = p" "c\<lparr>ca_pending := Some p\<rparr> = c" using w by (simp_all add: writable_def)
  with t [of False] show "tracked J n c (l @ [EvWrite (pe_ticket p) (snapshot_to_vec J (pe_snapshot p)) False])" by simp
  from t [of True] show "tracked J n (c\<lparr>ca_pending := Some (p\<lparr>pe_durable := True\<rparr>)\<rparr>) (l @ [EvWrite (pe_ticket p) (snapshot_to_vec J (pe_snapshot p)) True])" .
next
  show "triple (onC (\<lambda>c. tracked J n (c\<lparr>ca_pending := Some (p\<lparr>pe_durable := True\<rparr>)\<rparr>)))
      (bindE (modC (\<lambda>c. c\<lparr>ca_pending := Some (p\<lparr>pe_durable := True\<rparr>)\<rparr>)) f) R (onC (tracked J n))"
    using assms by (rule C_mod [rotated]) simp
qed

lemma finish_pending_commit_tracked:
  assumes J: "sv_snapshots S = J"
  shows "triple (onC (tracked J n)) (finish_pending_commit (logged S) i)
     (\<lambda>_. onC (\<lambda>c l. tracked J n c l \<and> ca_pending c = None)) (onC (tracked J n))"
proof -
  let ?P = "\<lambda>p c l. tracked J n c l \<and> ca_pending c = Some p"
  have wr: "triple (onC (\<lambda>c l. tracked J n c l \<and> ca_pending c = Some p \<and> \<not> pe_durable p))
      (bindE (liftE (encode J (pe_snapshot p))) (\<lambda>b.
        bindE (envC (log_call (\<lambda>r. EvWrite (pe_ticket p) b (is_ok r)) (s_write_snapshot S (pe_ticket p) b))) (\<lambda>_.
        bindE (modC (\<lambda>c. c\<lparr>ca_pending := Some (p\<lparr>pe_durable := True\<rparr>)\<rparr>)) (\<lambda>_. retE (p\<lparr>pe_durable := True\<rparr>)))))
      (\<lambda>p. onC (\<lambda>c l. tracked J n c l \<and> ca_pending c = Some p \<and> pe_durable p)) (onC (tracked J n))" for p
    by (rule C_lift, clarsimp simp: encode_Ok, rule C_weaken [OF write_durable])
      (auto intro!: C_ret tracked_writable)
  have "triple (onC (?P p))
      (bindE (if pe_durable p then retE p
         else bindE (renew_pending (logged S) i p) (\<lambda>p. bindE (liftE (encode (sv_snapshots (logged S)) (pe_snapshot p))) (\<lambda>b.
           bindE (envC (s_write_snapshot (logged S) (pe_ticket p) b)) (\<lambda>_. let p = p\<lparr>pe_durable := True\<rparr> in
           bindE (modC (\<lambda>c. c\<lparr>ca_pending := Some p\<rparr>)) (\<lambda>_. retE p))))) settle)
      (\<lambda>_. onC (\<lambda>c l. tracked J n c l \<and> ca_pending c = None)) (onC (tracked J n))" for p
    unfolding logged_sel J Let_def
    by (rule triple_bind [OF _ settle_tracked])
      (auto intro!: C_ret C_weaken [OF triple_bind [OF renew_pending_tracked wr]])
  note main = this
  show ?thesis
    unfolding finish_pending_commit_def
  proof (rule C_get [where g = ca_pending])
    fix c0
    show "triple (onC (\<lambda>c l. tracked J n c l \<and> c = c0)) (case ca_pending c0 of None \<Rightarrow> retE ()
       | Some p \<Rightarrow> bindE (if pe_durable p then retE p
         else bindE (renew_pending (logged S) i p) (\<lambda>p. bindE (liftE (encode (sv_snapshots (logged S)) (pe_snapshot p))) (\<lambda>b.
           bindE (envC (s_write_snapshot (logged S) (pe_ticket p) b)) (\<lambda>_. let p = p\<lparr>pe_durable := True\<rparr> in
           bindE (modC (\<lambda>c. c\<lparr>ca_pending := Some p\<rparr>)) (\<lambda>_. retE p))))) settle)
      (\<lambda>_. onC (\<lambda>c l. tracked J n c l \<and> ca_pending c = None)) (onC (tracked J n))"
    proof (cases "ca_pending c0")
      case None then show ?thesis unfolding None option.case by (intro C_ret) (auto simp: None)
    next
      case (Some p) then show ?thesis unfolding Some option.case by (intro C_weaken [OF main]) (auto simp: Some)
    qed
  qed
qed

lemma publish_result_tracked:
  fixes S :: "'e actor_services"
  assumes J: "sv_snapshots S = J"
  shows "triple (onC (\<lambda>c l. tracked J n c l \<and> ca_pending c = None)) (publish_result (logged S) i n result next_state origin)
     (\<lambda>r. onC (\<lambda>c l. tracked J n c l \<and> ca_pending c = None \<and> r = Completed result [] \<and>
        ca_state c = Some next_state \<and> ca_last_request_id c = Some (inv_request_id i) \<and> ca_last_result c = Some result))
     (onC (tracked J n))"
proof -
  have ticket: "triple (onC (\<lambda>c l. tracked J n c l \<and> ca_pending c = None \<and> ca_state_version c = v))
      (state_write_ticket (logged S) i n w)
      (\<lambda>_. onC (\<lambda>c l. tracked J n c l \<and> ca_pending c = None \<and> ca_state_version c = v)) (onC (tracked J n))" for v w
  proof -
    let ?Q = "\<lambda>c l. tracked J n c l \<and> ca_pending c = None \<and> ca_state_version c = v"
    have fresh: "triple (onC ?Q) (envC (keep_log m)) (\<lambda>_. onC ?Q) (onC (tracked J n))" for m :: "('e, write_plan) eff"
      by (rule C_keep_last) simp_all
    have usable: "triple (onC ?Q) (bindE (envC (keep_log u)) (\<lambda>now. if b now then retE t else envC (keep_log m))) (\<lambda>_. onC ?Q) (onC (tracked J n))"
      for u :: "('e, int) eff" and b and t :: write_plan and m
      by (rule C_keep) (auto intro: C_ret fresh)
    show ?thesis
      unfolding state_write_ticket_def Let_def logged_sel
    proof (rule C_get [where g = "\<lambda>c. c"], rule C_mod [where Q' = ?Q])
      fix c0 c l
      show "?Q (c\<lparr>ca_next_write := None\<rparr>) l" if "?Q c l \<and> c = c0" using that by auto
      show "triple (onC ?Q) (case ca_next_write c0 of
          None \<Rightarrow> envC (keep_log (s_prepare_write S (inv_actor i) (sv_host S) n (ca_state_version c0)))
        | Some ticket \<Rightarrow>
            if wp_state_version ticket = w then
              bindE (envC (keep_log (sv_unix_millis S))) (\<lambda>now.
                if i64_saturating_add now 5000 < wp_expires_at_ms ticket then retE ticket
                else envC (keep_log (s_prepare_write S (inv_actor i) (sv_host S) n (ca_state_version c0))))
            else envC (keep_log (s_prepare_write S (inv_actor i) (sv_host S) n (ca_state_version c0))))
        (\<lambda>_. onC ?Q) (onC (tracked J n))"
        by (auto intro!: fresh usable split: option.split)
    qed
  qed
  have settled: "triple (onC (\<lambda>c l. tracked J n c l \<and> ca_pending c = Some p \<and> pe_durable p))
      (bindE (finish_pending_commit (logged S) i) (\<lambda>_. retE (Completed result [])))
      (\<lambda>r. onC (\<lambda>c l. tracked J n c l \<and> ca_pending c = None \<and> r = Completed result [] \<and> ca_state c = Some (pe_state p) \<and>
         ca_last_request_id c = Some (ss_request_id (pe_snapshot p)) \<and> ca_last_result c = Some (ss_result (pe_snapshot p))))
      (onC (tracked J n))" for p
  proof (rule tripleI)
    fix w w' :: "cached_actor_state \<times> 'e \<times> actor_event list" and r
    assume w: "onC (\<lambda>c l. tracked J n c l \<and> ca_pending c = Some p \<and> pe_durable p) w"
    have fin: "triple (onC (tracked J n)) (finish_pending_commit (logged S) i)
     (\<lambda>_. onC (\<lambda>c l. tracked J n c l \<and> ca_pending c = None)) (onC (tracked J n))" by (rule finish_pending_commit_tracked [OF J])
    have w0: "onC (tracked J n) w" using w by (simp add: onC_def)
    show "onC (tracked J n) w'" if "bindE (finish_pending_commit (logged S) i) (\<lambda>_. retE (Completed result [])) w = (Inl r, w')" for r
      using that tripleD_Err [OF fin w0] by (auto simp: eff_simps)
    assume "bindE (finish_pending_commit (logged S) i) (\<lambda>_. retE (Completed result [])) w = (Inr r, w')"
    then have f: "finish_pending_commit (logged S) i w = (Inr (), w')" and r: "r = Completed result []" by (auto simp: eff_simps)
    have "ca_state (fst w') = Some (pe_state p) \<and>
         ca_last_request_id (fst w') = Some (ss_request_id (pe_snapshot p)) \<and> ca_last_result (fst w') = Some (ss_result (pe_snapshot p))"
      using f w by (auto simp: finish_pending_commit_def settle_def onC_def modC_def Let_def eff_simps)
    with r tripleD_Ok [OF fin w0 f]
    show "onC (\<lambda>c l. tracked J n c l \<and> ca_pending c = None \<and> r = Completed result [] \<and> ca_state c = Some (pe_state p) \<and>
         ca_last_request_id c = Some (ss_request_id (pe_snapshot p)) \<and> ca_last_result c = Some (ss_result (pe_snapshot p))) w'"
      by (simp add: onC_def)
  qed
  show ?thesis
    unfolding publish_result_def Let_def logged_sel J
  proof (rule C_get [where g = ca_state_version], rule C_lift, rule triple_bind [OF C_weaken [OF ticket]])
    fix c0 v t
    assume v: "ok_or (checked_add (ca_state_version c0) 1) ''actor state version overflow'' = Inr v"
    let ?Q = "\<lambda>c l. tracked J n c l \<and> ca_pending c = None \<and> ca_state_version c = ca_state_version c0"
    let ?s = "\<lambda>s now. s\<lparr>ss_attribution := Some \<lparr>att_operation = inv_method i, att_connection_id = co_connection_id origin,
      att_committed_at_ms = word_of_int now, att_interleaved = co_interleaved origin\<rparr>\<rparr>"
    let ?p = "\<lambda>s now. \<lparr>pe_snapshot = ?s s now, pe_state = next_state, pe_ticket = t, pe_durable = False\<rparr>"
    have commit: "triple (onC ?Q)
      (bindE (modC (\<lambda>c. c\<lparr>ca_pending := Some (?p s now)\<rparr>)) (\<lambda>_.
       bindE (envC (log_call (\<lambda>r. EvWrite t b (is_ok r)) (s_write_snapshot S t b))) (\<lambda>_.
       bindE (modC (\<lambda>c. c\<lparr>ca_pending := Some (?p s now\<lparr>pe_durable := True\<rparr>)\<rparr>)) (\<lambda>_.
       bindE (finish_pending_commit (logged S) i) (\<lambda>_. retE (Completed result []))))))
      (\<lambda>r. onC (\<lambda>c l. tracked J n c l \<and> ca_pending c = None \<and> r = Completed result [] \<and>
        ca_state c = Some next_state \<and> ca_last_request_id c = Some (inv_request_id i) \<and> ca_last_result c = Some result))
      (onC (tracked J n))"
      if "rs_owner_epoch (wp_stream t) = n" "new_snapshot J v n (inv_request_id i) next_state result = Inr s"
        "encode J (?s s now) = Inr b" for s now b
    proof (rule C_mod [where Q' = "writable J n (?p s now)"])
      have s: "ss_state_version s = v" "ss_owner_epoch s = n" "ss_state s = to_raw_value J next_state"
        "ss_request_id s = inv_request_id i" "ss_result s = result"
        using that(2) by (auto simp: new_snapshot_def Let_def result_simps)
      have b: "validate_snapshot (?s s now) = Ok ()" "b = snapshot_to_vec J (?s s now)" using that(3) by (simp_all add: encode_Ok)
      fix c l
      show "writable J n (?p s now) (c\<lparr>ca_pending := Some (?p s now)\<rparr>) l" if "?Q c l"
        using that \<open>rs_owner_epoch (wp_stream t) = n\<close> s b v
        by (auto simp: writable_def tracked_def agrees_def next_snapshot_def result_simps) (simp_all add: ledger_of_def)
      show "triple (onC (writable J n (?p s now)))
       (bindE (envC (log_call (\<lambda>r. EvWrite t b (is_ok r)) (s_write_snapshot S t b))) (\<lambda>_.
       bindE (modC (\<lambda>c. c\<lparr>ca_pending := Some (?p s now\<lparr>pe_durable := True\<rparr>)\<rparr>)) (\<lambda>_.
       bindE (finish_pending_commit (logged S) i) (\<lambda>_. retE (Completed result [])))))
      (\<lambda>r. onC (\<lambda>c l. tracked J n c l \<and> ca_pending c = None \<and> r = Completed result [] \<and>
        ca_state c = Some next_state \<and> ca_last_request_id c = Some (inv_request_id i) \<and> ca_last_result c = Some result))
      (onC (tracked J n))"
        using write_durable [where p = "?p s now" and f = "\<lambda>_. bindE (finish_pending_commit (logged S) i) (\<lambda>_. retE (Completed result []))",
            OF C_weaken [OF settled [of "?p s now\<lparr>pe_durable := True\<rparr>"]], where m = "s_write_snapshot S t b"] s
        by (simp add: b(2))
    qed
    show "triple (onC ?Q)
      (bindE (liftE (ensure (wp_state_version t = v) ''state write ticket has the wrong version'')) (\<lambda>_.
       bindE (liftE (ensure (rs_owner_epoch (wp_stream t) = n) ''write capability belongs to another owner epoch'')) (\<lambda>_.
       bindE (liftE (new_snapshot J v n (inv_request_id i) next_state result)) (\<lambda>s.
       bindE (envC (keep_log (sv_unix_millis S))) (\<lambda>now.
       bindE (liftE (encode J (?s s now))) (\<lambda>b.
       bindE (modC (\<lambda>c. c\<lparr>ca_pending := Some (?p s now)\<rparr>)) (\<lambda>_.
       bindE (envC (log_call (\<lambda>r. EvWrite t b (is_ok r)) (s_write_snapshot S t b))) (\<lambda>_.
       bindE (modC (\<lambda>c. c\<lparr>ca_pending := Some (?p s now\<lparr>pe_durable := True\<rparr>)\<rparr>)) (\<lambda>_.
       bindE (finish_pending_commit (logged S) i) (\<lambda>_. retE (Completed result []))))))))))) 
      (\<lambda>r. onC (\<lambda>c l. tracked J n c l \<and> ca_pending c = None \<and> r = Completed result [] \<and>
        ca_state c = Some next_state \<and> ca_last_request_id c = Some (inv_request_id i) \<and> ca_last_result c = Some result))
      (onC (tracked J n))"
      by (intro C_lift C_keep commit) (simp_all add: result_simps)
  qed simp_all
qed

section \<open>Runtime operations\<close>

definition onA :: "(cached_actor_state option \<Rightarrow> actor_event list \<Rightarrow> bool) \<Rightarrow> ('e \<times> actor_event list) actor_runtime \<Rightarrow> bool" where
  "onA Q rt = Q (ar_cached rt) (snd (ar_env rt))"

definition rt_inv :: "snapshot_codec \<Rightarrow> cached_actor_state option \<Rightarrow> actor_event list \<Rightarrow> bool" where
  "rt_inv J x l = (case x of None \<Rightarrow> ledger_run J None l None | Some c \<Rightarrow> tracked J (ca_owner_epoch c) c l)"

definition holding :: "snapshot_codec \<Rightarrow> u64 \<Rightarrow> cached_actor_state \<Rightarrow> cached_actor_state option \<Rightarrow> actor_event list \<Rightarrow> bool" where
  "holding J n c x l \<longleftrightarrow> x = None \<and> tracked J n c l"

lemma agrees_epoch: "agrees J n c L \<Longrightarrow> lg_epoch L = n"
  by (auto simp: agrees_def ledger_of_def committed_def split: option.splits if_splits)

lemma tracked_epoch: "tracked J n c l \<Longrightarrow> ca_owner_epoch c = n"
  by (auto simp: tracked_def agrees_def)

lemma rt_inv_None [simp]: "rt_inv J None l \<longleftrightarrow> ledger_run J None l None"
  by (simp add: rt_inv_def)

lemma rt_inv_tracked: "tracked J n c l \<Longrightarrow> rt_inv J (Some c) l"
  using tracked_epoch by (fastforce simp: rt_inv_def)

lemma A_keep:
  assumes "\<And>x. triple (onA Q) (f x) R (onA E)" "\<And>x l. Q x l \<Longrightarrow> E x l"
  shows "triple (onA Q) (bindE (envA (keep_log m)) f) R (onA E)"
  by (rule triple_bind [where R = "\<lambda>_. onA Q"], rule tripleI)
    (use assms in \<open>auto simp: onA_def envA_def keep_log_def eff_simps split: prod.splits\<close>)

lemma A_try_keep:
  assumes "\<And>r. triple (onA Q) (f r) R E"
  shows "triple (onA Q) (bindE (tryE (envA (keep_log m))) f) R E"
  by (rule triple_bind [where R = "\<lambda>_. onA Q"], rule tripleI)
    (use assms in \<open>auto simp: onA_def envA_def keep_log_def eff_simps split: prod.splits\<close>)

lemma A_try_last: "triple (onA Q) (tryE (envA (keep_log m))) (\<lambda>_. onA Q) E"
  by (rule tripleI) (auto simp: onA_def envA_def keep_log_def eff_simps split: prod.splits)

lemma A_lift:
  assumes "\<And>x. r = Inr x \<Longrightarrow> triple (onA Q) (f x) R (onA E)" "\<And>x l. Q x l \<Longrightarrow> E x l"
  shows "triple (onA Q) (bindE (liftE r) f) R (onA E)"
  by (rule triple_bind_lift) (use assms in \<open>auto simp: onA_def\<close>)

lemma A_ret: "(\<And>c l. Q c l \<Longrightarrow> R x c l) \<Longrightarrow> triple (onA Q) (retE x) (\<lambda>x. onA (R x)) E"
  by (rule triple_ret) (simp add: onA_def)

lemma A_put:
  assumes "\<And>x l. Q x l \<Longrightarrow> Q' (Some c) l" "triple (onA Q') (f ()) R E"
  shows "triple (onA Q) (bindE (put_cached c) f) R E"
  by (rule triple_bind [where R = "\<lambda>_. onA Q'"], rule tripleI)
    (use assms in \<open>auto simp: onA_def put_cached_def\<close>)

lemma A_take:
  assumes "\<And>x. triple (onA (\<lambda>y l. Q x l \<and> y = None)) (f x) R E"
  shows "triple (onA Q) (bindE take_cached f) R E"
  by (rule triple_bind [where R = "\<lambda>x. onA (\<lambda>y l. Q x l \<and> y = None)"], rule tripleI)
    (use assms in \<open>auto simp: onA_def take_cached_def\<close>)

lemma A_weaken: "triple (onA Q) m R E \<Longrightarrow> (\<And>x l. Q' x l \<Longrightarrow> Q x l) \<Longrightarrow> triple (onA Q') m R E"
  unfolding triple_def onA_def by blast

lemma A_cached:
  assumes m: "triple (onC P) m (\<lambda>v. onC (Q v)) (onC E)" and c: "\<And>x l. H x l \<Longrightarrow> P c l"
    and k: "\<And>r c'. triple (onA (\<lambda>x l. case r of Inr v \<Rightarrow> Q v c' l | Inl _ \<Rightarrow> E c' l)) (f (r, c')) R X"
  shows "triple (onA H) (bindE (on_cached c m) f) R X"
proof (rule triple_bind [where R = "\<lambda>(r, c'). onA (\<lambda>x l. case r of Inr v \<Rightarrow> Q v c' l | Inl _ \<Rightarrow> E c' l)"], rule tripleI)
  fix rt x rt' assume "onA H rt" and run: "on_cached c m rt = (Inr x, rt')"
  then have P: "onC P (c, ar_env rt)" using c by (simp add: onA_def onC_def)
  obtain r c' e' where m': "m (c, ar_env rt) = (r, c', e')" by (cases "m (c, ar_env rt)") auto
  with run have x: "x = (r, c')" "rt' = rt\<lparr>ar_env := e'\<rparr>" by (auto simp: on_cached_def)
  show "(case x of (r, c') \<Rightarrow> onA (\<lambda>x l. case r of Inr v \<Rightarrow> Q v c' l | Inl _ \<Rightarrow> E c' l)) rt'"
  proof (cases r)
    case Inl with m' tripleD_Err [OF m P] show ?thesis by (simp add: x onA_def onC_def)
  next
    case Inr with m' tripleD_Ok [OF m P] show ?thesis by (simp add: x onA_def onC_def)
  qed
qed (use k in \<open>auto simp: on_cached_def split: prod.splits\<close>)

lemmas A_rules = A_keep A_try_keep A_lift A_ret A_take


lemma loaded_state_agrees: "loaded_state J n v b = Inr c \<Longrightarrow> agrees J n c (ledger_of c)"
  by (auto simp: loaded_state_def from_loaded_def new_cached_def agrees_def result_simps split: if_splits)

lemma acquired_state_agrees: "acquired_state J a = Inr c \<Longrightarrow> agrees J (act_owner_epoch a) c (ledger_of c)"
  by (auto simp: acquired_state_def from_loaded_def new_cached_def agrees_def result_simps split: if_splits)

lemma load_state_eq:
  "load_state S a n = bindE (envA (s_load_state S a (sv_host S) n)) (\<lambda>(v, b). liftE (loaded_state (sv_snapshots S) n v b))"
  by (rule ext) (auto simp: load_state_def loaded_state_def bindE_def retE_def liftE_def bindR_def split: prod.splits sum.splits)

lemma load_state_tracked:
  assumes J: "sv_snapshots S = J"
  shows "triple (onA (\<lambda>x l. x = None \<and> (\<exists>L. ledger_run J None l L \<and> (\<forall>L'. L = Some L' \<longrightarrow> lg_epoch L' \<noteq> n)))) (load_state (logged S) a n)
     (\<lambda>c. onA (\<lambda>x l. x = None \<and> tracked J n c l)) (onA (rt_inv J))"
  unfolding load_state_eq
proof (rule triple_bind)
  let ?P = "\<lambda>v b (x :: cached_actor_state option) l. x = None \<and> ledger_run J None l (started J n (Inr (v, b)))"
  have step: "ledger_run J None (l @ [EvLoad n r]) (started J n r)"
    if "ledger_run J None l L" "\<forall>L'. L = Some L' \<longrightarrow> lg_epoch L' \<noteq> n" for l L r
    using that by (blast intro: run_snoc ledger_step.Load)
  have none: "started J n (Inl e) = None" for e by (simp add: started_def)
  show "triple (onA (\<lambda>x l. x = None \<and> (\<exists>L. ledger_run J None l L \<and> (\<forall>L'. L = Some L' \<longrightarrow> lg_epoch L' \<noteq> n))))
     (envA (s_load_state (logged S) a (sv_host (logged S)) n)) (\<lambda>(v, b). onA (?P v b)) (onA (rt_inv J))"
    by (rule tripleI) (auto simp: onA_def envA_def log_call_def eff_simps intro: step step [of _ _ "Inl _", unfolded none] split: prod.splits)
  show "triple (case x of (v, b) \<Rightarrow> onA (?P v b)) (case x of (v, b) \<Rightarrow> liftE (loaded_state (sv_snapshots (logged S)) n v b))
      (\<lambda>c. onA (\<lambda>x l. x = None \<and> tracked J n c l)) (onA (rt_inv J))" for x
    by (cases x, rule tripleI)
      (auto simp: onA_def J eff_simps started_def tracked_def dest: loaded_state_agrees)
qed

lemma take_or_load_tracked:
  assumes J: "sv_snapshots S = J"
  shows "triple (onA (rt_inv J)) (take_or_load_state (logged S) a n)
     (\<lambda>c. onA (\<lambda>x l. x = None \<and> tracked J n c l)) (onA (rt_inv J))"
  unfolding take_or_load_state_def
  apply (rule A_take)
  subgoal for x
  proof (cases x)
    case None show ?thesis unfolding None option.case by (rule A_weaken [OF load_state_tracked [OF J]]) auto
  next
    case (Some c)
    have other: "\<exists>L. ledger_run J None l L \<and> (\<forall>L'. L = Some L' \<longrightarrow> lg_epoch L' \<noteq> n)"
      if "rt_inv J (Some c) l" "ca_owner_epoch c \<noteq> n" for l
      using that agrees_epoch by (fastforce simp: rt_inv_def tracked_def)
    show ?thesis
      unfolding Some option.case
      by (rule triple_if) (auto intro!: A_ret A_weaken [OF load_state_tracked [OF J]] other simp: rt_inv_def)
  qed
  done

definition extends :: "('w \<Rightarrow> 'x list) \<Rightarrow> ('w, 'a) eff \<Rightarrow> bool" where
  "extends g m \<longleftrightarrow> (\<forall>w r w'. m w = (r, w') \<longrightarrow> (\<exists>l. g w' = g w @ l))"

lemma extendsI: "(\<And>w r w'. m w = (r, w') \<Longrightarrow> \<exists>l. g w' = g w @ l) \<Longrightarrow> extends g m"
  and extendsD: "extends g m \<Longrightarrow> m w = (r, w') \<Longrightarrow> \<exists>l. g w' = g w @ l"
  by (auto simp: extends_def)

lemma extends_bind:
  assumes m: "extends g m" and f: "\<And>x. extends g (f x)"
  shows "extends g (bindE m f)"
proof (rule extendsI)
  fix w r w' assume run: "bindE m f w = (r, w')"
  obtain r1 w1 where m1: "m w = (r1, w1)" by (cases "m w")
  then obtain l where l: "g w1 = g w @ l" using extendsD [OF m] by blast
  show "\<exists>l. g w' = g w @ l"
  proof (cases r1)
    case Inl with run m1 l show ?thesis by (auto simp: bindE_def)
  next
    case (Inr x) with run m1 have "f x w1 = (r, w')" by (simp add: bindE_def)
    from extendsD [OF f this] l show ?thesis by auto
  qed
qed

lemma extends_simple: "extends g (retE x)" "extends g (liftE r)" "extends g (getE h)"
  by (auto intro!: extendsI)

lemma extends_mod: "(\<And>w. g (h w) = g w) \<Longrightarrow> extends g (modE h)"
  by (auto intro!: extendsI)

lemma extends_try: "extends g m \<Longrightarrow> extends g (tryE m)"
  by (auto intro!: extendsI dest: extendsD simp: tryE_def split: prod.splits)

lemma extends_logs: "extends snd (keep_log m)" "extends snd (log_ok ev m')" "extends snd (log_call ev' m)"
  by (auto intro!: extendsI simp: keep_log_def log_ok_def log_call_def split: prod.splits sum.splits)

lemma extends_envC: "extends snd m \<Longrightarrow> extends (\<lambda>w. snd (snd w)) (envC m)"
  by (auto intro!: extendsI dest!: extendsD simp: envC_def zoomE_def split: prod.splits)

lemma extends_envA: "extends snd m \<Longrightarrow> extends (\<lambda>rt. snd (ar_env rt)) (envA m)"
  by (auto intro!: extendsI dest!: extendsD simp: envA_def zoomE_def split: prod.splits)

lemma extends_on_cached: "extends (\<lambda>w. snd (snd w)) m \<Longrightarrow> extends (\<lambda>rt. snd (ar_env rt)) (on_cached c m)"
  by (rule extendsI) (auto dest: extendsD simp: on_cached_def split: prod.splits)

lemma extends_cached:
  "extends (\<lambda>w. snd (snd w)) (modC h)" "extends (\<lambda>rt. snd (ar_env rt)) (put_cached c)"
  by (auto intro!: extendsI simp: modC_def put_cached_def)

lemmas extends_intros = extends_bind extends_simple extends_mod extends_try extends_logs extends_envC extends_envA extends_on_cached extends_cached

lemma finish_pending_extends: "extends (\<lambda>w. snd (snd w)) (finish_pending_commit (logged S) i)"
  unfolding finish_pending_commit_def renew_pending_def settle_def Let_def logged_sel
  by (intro extends_intros | auto intro!: extends_intros split: option.split)+

lemma publish_result_extends: "extends (\<lambda>w. snd (snd w)) (publish_result (logged S) i n result next_state origin)"
  unfolding publish_result_def state_write_ticket_def Let_def logged_sel
  by (intro extends_intros finish_pending_extends | auto intro!: extends_intros split: option.split)+

lemma evict_extends: "extends (\<lambda>rt. snd (ar_env rt)) (evict (logged S) a)"
  unfolding evict_def logged_sel by (intro extends_intros)

lemma complete_extends: "extends (\<lambda>rt. snd (ar_env rt)) (complete_with_state (logged S) a v result effects)"
  unfolding complete_with_state_def Let_def logged_sel
  by (intro extends_intros | auto intro!: extends_intros split: sum.split)+

lemma commit_outcome_extends: "extends (\<lambda>rt. snd (ar_env rt)) (commit_outcome (logged S) i n c outcome origin)"
proof -
  have "extends (\<lambda>rt. snd (ar_env rt)) (case r of Inr (Completed result _) \<Rightarrow> complete_with_state (logged S) a v result effects
          | Inr r \<Rightarrow> retE r | Inl _ \<Rightarrow> retE (Failed outcome_unknown_after_execution))" for r a v effects
    by (auto intro!: complete_extends extends_intros split: sum.split execution_result.split)
  then show ?thesis
    unfolding commit_outcome_def
    by (auto intro!: complete_extends evict_extends publish_result_extends extends_intros split: prod.split)
qed

lemma A_since:
  fixes m :: "(('e \<times> actor_event list) actor_runtime, 'a) eff"
  assumes "triple (onA Q) m (\<lambda>r. onA (R r)) E" "extends (\<lambda>rt. snd (ar_env rt)) m"
  shows "triple (onA (\<lambda>x l. Q x l \<and> e \<in> set l)) m (\<lambda>r. onA (\<lambda>x l. R r x l \<and> e \<in> set l)) E"
proof (rule tripleI)
  fix rt rt' :: "('e \<times> actor_event list) actor_runtime" and r
  assume Q: "onA (\<lambda>x l. Q x l \<and> e \<in> set l) rt"
  then have Q': "onA Q rt" by (simp add: onA_def)
  show "E rt'" if "m rt = (Inl r, rt')" for r using tripleD_Err [OF assms(1) Q' that] .
  assume run: "m rt = (Inr r, rt')"
  from extendsD [OF assms(2) run] Q tripleD_Ok [OF assms(1) Q' run] show "onA (\<lambda>x l. R r x l \<and> e \<in> set l) rt'"
    by (auto simp: onA_def)
qed


text \<open>A runtime at rest: the cached state is the committed state, and nothing is in flight.\<close>

definition settled :: "snapshot_codec \<Rightarrow> u64 \<Rightarrow> (cached_actor_state \<Rightarrow> bool) \<Rightarrow> cached_actor_state option \<Rightarrow> actor_event list \<Rightarrow> bool" where
  "settled J n P x l \<longleftrightarrow> (\<exists>c. x = Some c \<and> tracked J n c l \<and> ca_pending c = None \<and> P c)"

lemma settled_inv: "settled J n P x l \<Longrightarrow> rt_inv J x l"
  by (auto simp: settled_def intro: rt_inv_tracked)

text \<open>A completed request: its result is the last committed one, or the executor ran it from the committed
  state and the state it returned is committed.\<close>

definition answered :: "snapshot_codec \<Rightarrow> u64 \<Rightarrow> string \<Rightarrow> execution_result \<Rightarrow> cached_actor_state option \<Rightarrow> actor_event list \<Rightarrow> bool" where
  "answered J n request r x l \<longleftrightarrow>
     rt_inv J x l \<and>
     (case r of
        Completed v _ \<Rightarrow>
          settled J n (\<lambda>c. cached_replay c request = Some v) x l \<or>
          (\<exists>st st'. EvExecute request st (Some (v, st')) \<in> set l \<and> settled J n (\<lambda>c. ca_state c = Some st') x l)
      | _ \<Rightarrow> True)"

lemma prepare_invocation_tracked:
  assumes J: "sv_snapshots S = J"
  shows "triple (onA (rt_inv J)) (prepare_invocation (logged S) i n replay)
     (\<lambda>p. onA (\<lambda>x l. case p of PExecute st \<Rightarrow> settled J n (\<lambda>c. ca_state c = st) x l
        | PCompleted r \<Rightarrow> answered J n (inv_request_id i) r x l)) (onA (rt_inv J))"
  unfolding prepare_invocation_def logged_sel
  apply (rule A_keep, rule triple_bind [OF take_or_load_tracked [OF J]], rule A_cached [OF finish_pending_commit_tracked [where n = n, OF J]])
  subgoal by simp
  subgoal for u c r c'
    unfolding prod.case
    by (rule A_put [where Q' = "\<lambda>x l. x = Some c' \<and> tracked J n c' l \<and> (is_ok r \<longrightarrow> ca_pending c' = None)"])
      (cases r; auto intro!: A_ret simp: answered_def settled_def intro: rt_inv_tracked split: option.split)+
  subgoal by simp
  done

lemma A_seq:
  assumes "triple (onA Q) m (\<lambda>x. onA (R' x)) (onA E)" "\<And>x. triple (onA (R' x)) (f x) R (onA E)"
  shows "triple (onA Q) (bindE m f) R (onA E)"
  by (rule triple_bind [OF assms])

lemma A_none: "(\<And>x l. \<not> Q x l) \<Longrightarrow> triple (onA Q) m R E"
  by (simp add: triple_def onA_def)

lemma A_evict: "(\<And>x l. Q x l \<Longrightarrow> R () x l) \<Longrightarrow> triple (onA Q) (evict (logged S) a) (\<lambda>x. onA (R x)) E"
  unfolding evict_def logged_sel by (rule A_try_keep) (rule A_ret)

lemma A_evict_seq: "triple (onA Q) (f ()) R E \<Longrightarrow> triple (onA Q) (bindE (evict (logged S) a) f) R E"
  by (rule triple_bind [where R = "\<lambda>_. onA Q"]) (auto intro: A_evict)

lemma complete_tracked:
  assumes "\<And>x l. Q x l \<Longrightarrow> rt_inv J x l"
  shows "triple (onA Q) (complete_with_state (logged S) a v result effects)
     (\<lambda>r. onA (\<lambda>x l. Q x l \<and> (case r of Completed v _ \<Rightarrow> v = result | _ \<Rightarrow> True))) (onA (rt_inv J))"
  unfolding complete_with_state_def Let_def logged_sel
  apply (rule A_keep)
  subgoal
    by (rule A_seq [where R' = "\<lambda>_. Q"])
      (auto intro!: A_ret A_try_last split: sum.split)
  using assms by simp

lemma commit_outcome_tracked:
  assumes J: "sv_snapshots S = J"
  shows "triple (onA (\<lambda>x l. tracked J n c l \<and> ca_pending c = None)) (commit_outcome (logged S) i n c (result, st', effects) origin)
     (\<lambda>r. onA (\<lambda>x l. rt_inv J x l \<and> (case r of Completed v _ \<Rightarrow> v = result \<and> settled J n (\<lambda>c. ca_state c = Some st') x l | _ \<Rightarrow> True)))
     (onA (rt_inv J))"
proof -
  have kept: "triple (onA (settled J n P)) (complete_with_state (logged S) a v result effects)
      (\<lambda>r. onA (\<lambda>x l. rt_inv J x l \<and> (case r of Completed v _ \<Rightarrow> v = result \<and> settled J n P x l | _ \<Rightarrow> True)))
      (onA (rt_inv J))" for P a v
    by (rule triple_weaken [OF complete_tracked [of "settled J n P" J]])
      (auto simp: onA_def intro: settled_inv split: execution_result.splits)
  show ?thesis
    unfolding commit_outcome_def prod.case
    apply (rule triple_if)
    subgoal by (rule A_put [OF _ kept]) (auto simp: settled_def)
    apply (rule A_cached [OF publish_result_tracked [where n = n, OF J]])
    subgoal by simp
    subgoal for r c'
      unfolding prod.case
      apply (rule A_seq [where R' = "\<lambda>_ x l. tracked J n c' l \<and> (\<forall>v. r = Inr v \<longrightarrow> v = Completed result [] \<and> ca_pending c' = None \<and> ca_state c' = Some st')"])
      subgoal by (cases r) (auto intro!: A_ret A_evict)
      apply (rule A_put [where Q' = "\<lambda>x l. x = Some c' \<and> tracked J n c' l \<and> (\<forall>v. r = Inr v \<longrightarrow> v = Completed result [] \<and> ca_pending c' = None \<and> ca_state c' = Some st')"])
      subgoal by simp
      subgoal
      proof (cases "r = Inr (Completed result [])")
        case True then show ?thesis by simp (rule A_weaken [OF kept], simp add: settled_def)
      next
        case False
        then show ?thesis
        proof (cases r)
          case Inl then show ?thesis by simp (rule A_ret, auto intro: rt_inv_tracked)
        next
          case Inr with False show ?thesis by (intro A_none) auto
        qed
      qed
      done
    done
qed


lemma execute_settled:
  assumes "tracked J n c l" "ca_pending c = None"
  shows "tracked J n c (l @ [EvExecute request (ca_state c) new])"
proof -
  from assms have run: "ledger_run J None l (Some (ledger_of c))" and c: "ca_owner_epoch c = n" by (auto simp: tracked_def agrees_def)
  have "lg_attempt (ledger_of c) = None" "lg_state (ledger_of c) = ca_state c" by (simp_all add: ledger_of_def)
  then have "ledger_step J (Some (ledger_of c)) (EvExecute request (ca_state c) new) (Some (ledger_of c))"
    using ledger_step.Execute [of "ledger_of c"] by simp
  from run_snoc [OF run this] c assms(2) show ?thesis by (auto simp: tracked_def agrees_def)
qed

lemma method_result_keeps:
  "triple (onA Q) (method_result (logged S) i outcome)
     (\<lambda>x. onA (\<lambda>y l. Q y l \<and> (case x of Inr (v, st, es) \<Rightarrow> method_state outcome = Some (v, st) | Inl f \<Rightarrow> \<exists>g. f = Failed g))) E"
proof (cases outcome)
  case (Inl e)
  then show ?thesis unfolding method_result_def by (simp only: sum.case) (intro A_evict_seq A_ret, simp add: failed_def)
next
  case (Inr o')
  have ends: "triple (onA Q) (retE (Inl f)) (\<lambda>x. onA (\<lambda>y l. Q y l \<and> (case x of Inr (v, st, es) \<Rightarrow> m = Some (v, st) | Inl f \<Rightarrow> \<exists>g. f = Failed g))) E"
    if "f = failed code message" for f code message m by (rule A_ret) (simp add: that failed_def)
  have evicts: "triple (onA Q) (if b then evict (logged S) a else retE ()) (\<lambda>_. onA Q) E" for b a
    by (auto intro: A_evict A_ret)
  show ?thesis
  proof (cases o')
    case (MFailed f)
    then show ?thesis unfolding method_result_def Inr sum.case method_state_def
      by (simp only: method_outcome.case) (rule triple_bind [OF evicts ends [OF refl]])
  qed (auto intro!: A_ret A_evict_seq ends [OF refl] simp: method_result_def Inr method_state_def split: sum.split)
qed

text \<open>What the executor's run left: its answer is in the log, or the request failed.\<close>

definition ran :: "string \<Rightarrow> json option \<Rightarrow> executed \<Rightarrow> actor_event list \<Rightarrow> bool" where
  "ran request st x l \<longleftrightarrow>
     (case x of Inr (v, st', es) \<Rightarrow> EvExecute request st (Some (v, st')) \<in> set l | Inl f \<Rightarrow> \<exists>g. f = Failed g)"

lemma execute_method_tracked:
  "triple (onA (settled J n (\<lambda>c. ca_state c = st))) (execute_method (logged S) i st)
     (\<lambda>x. onA (\<lambda>y l. settled J n (\<lambda>c. ca_state c = st) y l \<and>
        ran (inv_request_id i) st x l)) E"
  unfolding execute_method_def logged_sel
  apply (rule triple_bind [where R = "\<lambda>o'. onA (\<lambda>y l. settled J n (\<lambda>c. ca_state c = st) y l \<and>
        EvExecute (inv_request_id i) st (method_state o') \<in> set l)"])
  subgoal by (rule tripleI) (auto simp: onA_def settled_def envA_def log_call_def eff_simps intro: execute_settled split: prod.splits)
  subgoal for o'
    by (rule triple_weaken [OF method_result_keeps [where Q = "\<lambda>y l. settled J n (\<lambda>c. ca_state c = st) y l \<and>
        EvExecute (inv_request_id i) st (method_state o') \<in> set l"]]) (auto simp: onA_def ran_def split: sum.splits)
  done

lemma execute_socket_tracked:
  "triple (onA (\<lambda>x l. tracked J n c l \<and> ca_pending c = None \<and> ca_state c = st)) (execute_socket_event (logged S) i st)
     (\<lambda>x. onA (\<lambda>y l. (tracked J n c l \<and> ca_pending c = None) \<and>
        ran (si_request_id i) st x l)) E"
  unfolding execute_socket_event_def logged_sel
  apply (rule triple_bind [where R = "\<lambda>o'. onA (\<lambda>y l. (tracked J n c l \<and> ca_pending c = None) \<and>
        EvExecute (si_request_id i) st (socket_state o') \<in> set l)"])
  subgoal by (rule tripleI) (auto simp: onA_def envA_def log_call_def eff_simps intro: execute_settled split: prod.splits)
  subgoal for o'
    by (cases o') (auto intro!: A_ret A_evict_seq simp: socket_state_def ran_def failed_def split: socket_outcome.split sum.split)
  done

lemma committed_answered:
  assumes J: "sv_snapshots S = J"
  shows "triple (onA (\<lambda>x l. (tracked J n c l \<and> ca_pending c = None) \<and> EvExecute (inv_request_id i) st (Some (v, st')) \<in> set l))
     (commit_outcome (logged S) i n c (v, st', es) origin) (\<lambda>r. onA (answered J n (inv_request_id i) r)) (onA (rt_inv J))"
  by (rule triple_weaken [OF A_since [OF commit_outcome_tracked [OF J] commit_outcome_extends]])
    (auto simp: onA_def answered_def split: execution_result.splits)

lemma finish_method_tracked:
  assumes J: "sv_snapshots S = J"
  shows "triple (onA (\<lambda>x l. settled J n (\<lambda>c. True) x l \<and>
        ran (inv_request_id i) st ex l))
     (finish_method (logged S) i n ex origin) (\<lambda>r. onA (answered J n (inv_request_id i) r)) (onA (rt_inv J))"
proof (cases ex)
  case (Inl r)
  then show ?thesis unfolding finish_method_def
    by simp (rule A_ret, auto simp: answered_def ran_def intro: settled_inv split: execution_result.split)
next
  case (Inr out)
  obtain v st' es where out: "out = (v, st', es)" by (cases out)
  show ?thesis
    unfolding finish_method_def Inr sum.case out
    apply (rule A_take)
    subgoal for x
      by (cases x) (auto intro!: A_none A_weaken [OF committed_answered [OF J]] simp: settled_def ran_def)
    done
qed


lemma invoke_once_tracked:
  assumes J: "sv_snapshots S = J"
  shows "triple (onA (rt_inv J)) (invoke_actor_once (logged S) i n) (\<lambda>r. onA (answered J n (inv_request_id i) r)) (onA (rt_inv J))"
  unfolding invoke_actor_once_def
  apply (rule triple_bind [OF prepare_invocation_tracked [OF J]])
  subgoal for p
  proof (cases p)
    case (PExecute st)
    have "triple (onA (settled J n (\<lambda>c. ca_state c = st)))
        (bindE (execute_method (logged S) i st) (\<lambda>ex. finish_method (logged S) i n ex default_origin))
        (\<lambda>r. onA (answered J n (inv_request_id i) r)) (onA (rt_inv J))"
      by (rule triple_bind [OF execute_method_tracked], rule A_weaken [OF finish_method_tracked [where st = st, OF J]]) (auto simp: settled_def)
    with PExecute show ?thesis by simp
  next
    case (PCompleted r) then show ?thesis by simp (rule A_ret)
  qed
  done

lemma socket_once_tracked:
  assumes J: "sv_snapshots S = J"
  shows "triple (onA (rt_inv J)) (handle_socket_event_once (logged S) i n) (\<lambda>r. onA (answered J n (si_request_id i) r)) (onA (rt_inv J))"
  unfolding handle_socket_event_once_def
  apply (rule triple_bind [OF take_or_load_tracked [OF J]], rule A_cached [OF finish_pending_commit_tracked [where n = n, OF J]])
  subgoal by simp
  subgoal for c r c'
  proof (cases r)
    case (Inl e)
    show ?thesis unfolding Inl prod.case sum.case
      by (rule A_put [where Q' = "rt_inv J"]) (auto intro!: A_ret simp: answered_def intro: rt_inv_tracked)
  next
    case (Inr u)
    have fail: "triple (onA (\<lambda>y l. (tracked J n c' l \<and> ca_pending c' = None) \<and> ran (si_request_id i) (ca_state c') (Inl f) l))
      (bindE (put_cached c') (\<lambda>_. retE f)) (\<lambda>r. onA (answered J n (si_request_id i) r)) (onA (rt_inv J))" for f
      by (rule A_put [where Q' = "\<lambda>x l. rt_inv J x l \<and> (\<exists>g. f = Failed g)"])
        (auto intro!: A_ret simp: answered_def ran_def intro: rt_inv_tracked)
    have commit: "triple (onA (\<lambda>y l. (tracked J n c' l \<and> ca_pending c' = None) \<and> ran (si_request_id i) (ca_state c') (Inr out) l))
      (commit_outcome (logged S) (socket_persistence i) n c' out (socket_origin (si_event i)))
      (\<lambda>r. onA (answered J n (si_request_id i) r)) (onA (rt_inv J))" for out
      using committed_answered [OF J, where i = "socket_persistence i" and n = n and c = c' and st = "ca_state c'" and
          v = "fst out" and st' = "fst (snd out)" and es = "snd (snd out)" and origin = "socket_origin (si_event i)"]
      by (simp add: socket_persistence_def ran_def split_beta)
    show ?thesis
      unfolding Inr prod.case sum.case
      apply (rule triple_bind [OF A_weaken [OF execute_socket_tracked [where c = c' and J = J and n = n and st = "ca_state c'"]]])
      subgoal by simp
      subgoal for ex by (cases ex) (simp_all only: sum.case fail commit)
      done
  qed
  done


lemma guarded_tracked:
  assumes m: "triple (onA (rt_inv J)) m (\<lambda>r. onA (answered J n request r)) (onA (rt_inv J))"
  shows "triple (onA (rt_inv J)) (guarded (logged S) m) (\<lambda>r. onA (answered J n request r)) (onA (rt_inv J))"
proof -
  have ans: "answered J n request r x l \<Longrightarrow> rt_inv J x l" for r x l by (simp add: answered_def)
  show ?thesis
    unfolding guarded_def logged_sel
    apply (rule A_keep)
    subgoal
      apply (rule A_seq [where R' = "\<lambda>r x l. case r of Inr r \<Rightarrow> answered J n request r x l | Inl _ \<Rightarrow> rt_inv J x l"])
      subgoal using m unfolding triple_def by (fastforce simp: tryE_def onA_def split: prod.splits sum.splits)
      subgoal for r
        by (rule A_keep) (auto intro!: tripleI simp: onA_def eff_simps intro: ans split: sum.splits)
      done
    by simp
qed

lemma invoke_actor_tracked:
  assumes "sv_snapshots S = J"
  shows "triple (onA (rt_inv J)) (invoke_actor (logged S) i n) (\<lambda>r. onA (answered J n (inv_request_id i) r)) (onA (rt_inv J))"
  unfolding invoke_actor_def by (rule guarded_tracked [OF invoke_once_tracked [OF assms]])

lemma handle_socket_tracked:
  assumes "sv_snapshots S = J"
  shows "triple (onA (rt_inv J)) (handle_socket_event (logged S) i n) (\<lambda>r. onA (answered J n (si_request_id i) r)) (onA (rt_inv J))"
  unfolding handle_socket_event_def by (rule guarded_tracked [OF socket_once_tracked [OF assms]])

lemma A_get: "(\<And>y. triple P (f y) R E) \<Longrightarrow> triple P (bindE (getE g) f) R E"
  by (auto simp: triple_def bindE_def)

lemma A_get_cached:
  assumes "\<And>y. triple (onA (\<lambda>x l. Q x l \<and> x = y)) (f y) R E"
  shows "triple (onA Q) (bindE (getE ar_cached) f) R E"
  by (rule triple_bind [where R = "\<lambda>y. onA (\<lambda>x l. Q x l \<and> x = y)"], rule tripleI) (use assms in \<open>auto simp: onA_def eff_simps\<close>)

lemma activate_tracked:
  fixes S :: "'e actor_services"
  assumes J: "sv_snapshots S = J"
  shows "triple (onA (rt_inv J)) (rt_activate_actor (logged S) a) (\<lambda>_. onA (rt_inv J)) (onA (rt_inv J))"
proof -
  have same: "ledger_run J None l L \<Longrightarrow> ledger_run J None (l @ [EvAcquire act]) L" for l L act
    by (rule run_snoc [OF _ ledger_step.Acquire_ignored])
  have ignored: "rt_inv J x l \<Longrightarrow> rt_inv J x (l @ [EvAcquire act])" for x l act
    unfolding rt_inv_def tracked_def using same by (auto split: option.splits)
  have started: "rt_inv J (Some c) (l @ [EvAcquire act])"
    if "ledger_run J None l None" "acquired_state J act = Inr c" for l act c
  proof (rule rt_inv_tracked)
    show "tracked J (act_owner_epoch act) c (l @ [EvAcquire act])" unfolding tracked_def
      using that acquired_state_agrees [OF that(2)] by (auto intro!: exI [of _ "ledger_of c"] run_snoc ledger_step.Acquire)
  qed
  have hyd: "triple (onA (rt_inv J)) (bindE (getE g) (\<lambda>state. bindE (envA (keep_log (h state))) (\<lambda>_.
         bindE (envA (keep_log e)) (\<lambda>_. bindE (modE (\<lambda>rt. rt\<lparr>ar_activation := Some act\<rparr>)) (\<lambda>_. retE act)))))
      (\<lambda>_. onA (rt_inv J)) (onA (rt_inv J))" for g and h :: "_ \<Rightarrow> ('e, unit) eff" and e :: "('e, unit) eff" and act
    by (rule A_get, rule A_keep, rule A_keep) (auto intro!: tripleI simp: onA_def eff_simps)
  let ?Q = "\<lambda>act x l. rt_inv J x l \<and> (x = None \<longrightarrow> (\<exists>l0. l = l0 @ [EvAcquire act] \<and> ledger_run J None l0 None))"
  have start: "triple (onA (\<lambda>x l. ?Q act x l \<and> x = None))
      (if act_state_version act = 0 then bindE (put_cached (new_cached (act_owner_epoch act))) (\<lambda>_. retE act)
       else bindE (liftE (ok_or (act_state act) ''activation has no recovered state'')) (\<lambda>bytes.
            bindE (liftE (from_loaded J (act_owner_epoch act) (act_state_version act) bytes)) (\<lambda>c.
            bindE (put_cached c) (\<lambda>_. retE (act\<lparr>act_state := None\<rparr>)))))
      (\<lambda>_. onA (rt_inv J)) (onA (rt_inv J))" for act
    by (intro triple_if A_lift A_put [where Q' = "rt_inv J"] A_ret)
      (auto simp: acquired_state_def result_simps intro!: started)
  show ?thesis
    unfolding rt_activate_actor_def logged_sel J
    apply (rule A_keep, rule A_get)
    subgoal for u y
    proof (cases y)
      case None
      show ?thesis
        unfolding None option.case
        apply (rule A_seq [where R' = ?Q])
        subgoal by (rule tripleI) (auto simp: onA_def envA_def log_ok_def eff_simps intro: ignored same split: prod.splits sum.splits)
        subgoal for act
          apply (rule A_get_cached)
          subgoal for x
            by (rule A_seq [OF _ hyd], cases x) (simp_all only: option.case start, rule A_ret, simp)
          done
        done
    next
      case (Some act) show ?thesis unfolding Some option.case by (rule A_ret)
    qed
    by simp
qed

end
