(* ===== verification/Actor_Mailbox.thy ===== *)
theory Actor_Mailbox
  imports Actor_Runtime "HOL-Library.AList"
begin

text \<open>
  The task of an actor: the requests it takes from its channel, \<^verbatim>\<open>src/host/actor_host.rs\<close>, the task that
  serves them one after another (\<open>run_actor\<close>), and the mailbox that lets an executor run several of them
  at a time, \<^verbatim>\<open>src/host/actor_host/admission.rs\<close>.

  A request is identified by the channel of its reply. Completions are the list of what was sent to the
  dispatcher, oldest first. The futures of the mailbox are the list of the executions that have not
  returned yet, with the state each of them started from; an execution returns when the step picks it.
  Traces, timings and the inventory handle of a waiting request do not change what happens to it.
\<close>

section \<open>Requests\<close>

datatype actor_operation =
    OpActivate actor_key
  | OpMethod actor_invocation
  | OpSocket socket_invocation

record actor_request =
  rq_reply :: nat
  rq_operation :: actor_operation
  rq_owner_epoch :: u64

definition op_commit_origin :: "actor_operation \<Rightarrow> commit_origin" where
  "op_commit_origin op' = (case op' of OpSocket i \<Rightarrow> socket_origin (si_event i) | _ \<Rightarrow> default_origin)"

definition op_resets_idle_timer :: "actor_operation \<Rightarrow> bool" where
  "op_resets_idle_timer op' =
     (case op' of OpActivate _ \<Rightarrow> True | OpMethod _ \<Rightarrow> True
      | OpSocket i \<Rightarrow> (case si_event i of Message _ _ \<Rightarrow> True | _ \<Rightarrow> False))"

definition op_actor :: "actor_operation \<Rightarrow> actor_key" where
  "op_actor op' = (case op' of OpActivate actor \<Rightarrow> actor | OpMethod i \<Rightarrow> inv_actor i | OpSocket i \<Rightarrow> si_actor i)"

definition op_is_disconnect :: "actor_operation \<Rightarrow> bool" where
  "op_is_disconnect op' =
     (case op' of OpSocket i \<Rightarrow> (case si_event i of Disconnect _ _ _ _ \<Rightarrow> True | _ \<Rightarrow> False) | _ \<Rightarrow> False)"

definition activate_invocation :: "actor_key \<Rightarrow> actor_invocation" where
  "activate_invocation actor =
     \<lparr>inv_request_id = ''activate'', inv_actor = actor, inv_method = ''activate'', inv_args = []\<rparr>"

definition op_invocation :: "actor_operation \<Rightarrow> actor_invocation" where
  "op_invocation op' =
     (case op' of
        OpActivate actor \<Rightarrow> activate_invocation actor
      | OpMethod i \<Rightarrow> i
      | OpSocket i \<Rightarrow> \<lparr>inv_request_id = si_request_id i, inv_actor = si_actor i,
          inv_method = socket_event_name (si_event i), inv_args = []\<rparr>)"

definition op_validate :: "actor_operation \<Rightarrow> unit result" where
  "op_validate op' = validate_invocation (op_invocation op')"

record actor_completion =
  cm_resets_idle_timer :: bool
  cm_reply :: nat
  cm_result :: "execution_result result"

section \<open>The serial task\<close>

record 'e actor_task =
  at_runtime :: "'e actor_runtime"
  at_completed :: "actor_completion list"
  at_activated :: "(nat \<times> actor_activation result) list"

definition onT :: "('e actor_runtime, 'a) eff \<Rightarrow> ('e actor_task, 'a result) eff" where
  "onT m = tryE (zoomE at_runtime (\<lambda>rt t. t\<lparr>at_runtime := rt\<rparr>) m)"

text \<open>One turn of the loop, on the request that was received.\<close>

definition serve_request :: "'e actor_services \<Rightarrow> bool \<Rightarrow> actor_request \<Rightarrow> ('e actor_task, unit) eff" where
  "serve_request S accepting request =
     bindE (if \<not> accepting \<and> \<not> op_is_disconnect (rq_operation request) then retE (Ok HostUnavailable)
       else (case rq_operation request of
           OpActivate actor \<Rightarrow>
             bindE (onT (rt_activate_actor S actor)) (\<lambda>activated.
             bindE (modE (\<lambda>t. t\<lparr>at_activated := at_activated t @ [(rq_reply request, activated)]\<rparr>)) (\<lambda>_.
             retE (Ok (Completed JNull []))))
         | OpMethod i \<Rightarrow> onT (invoke_actor S i (rq_owner_epoch request))
         | OpSocket i \<Rightarrow> onT (handle_socket_event S i (rq_owner_epoch request)))) (\<lambda>result.
     modE (\<lambda>t. t\<lparr>at_completed := at_completed t @ [\<lparr>cm_resets_idle_timer = op_resets_idle_timer (rq_operation request),
       cm_reply = rq_reply request, cm_result = result\<rparr>]\<rparr>))"

fun run_actor :: "'e actor_services \<Rightarrow> (bool \<times> actor_request) list \<Rightarrow> ('e actor_task, unit) eff" where
  "run_actor S [] = retE ()"
| "run_actor S ((accepting, request) # requests) =
     bindE (serve_request S accepting request) (\<lambda>_. run_actor S requests)"

section \<open>The mailbox\<close>

record 'e mailbox =
  mb_runtime :: "'e actor_runtime"
  mb_completed :: "actor_completion list"
  mb_activated :: "(nat \<times> actor_activation result) list"
  mb_running :: "(u64 \<times> actor_request \<times> json option) list"
  mb_ready :: "(u64 \<times> u64 \<times> actor_request \<times> interleaved_outcome) list"
  mb_next_invocation :: u64
  mb_blocked_on :: "u64 option"
  mb_interleaved :: bool
  mb_next_sequence :: u64
  mb_open :: bool

definition new_mailbox :: "'e actor_runtime \<Rightarrow> 'e mailbox" where
  "new_mailbox runtime = \<lparr>mb_runtime = runtime, mb_completed = [], mb_activated = [], mb_running = [], mb_ready = [],
     mb_next_invocation = 0, mb_blocked_on = None, mb_interleaved = False, mb_next_sequence = 1, mb_open = True\<rparr>"

definition onM :: "('e actor_runtime, 'a) eff \<Rightarrow> ('e mailbox, 'a result) eff" where
  "onM m = tryE (zoomE mb_runtime (\<lambda>rt mb. mb\<lparr>mb_runtime := rt\<rparr>) m)"

definition mb_finish :: "actor_request \<Rightarrow> execution_result result \<Rightarrow> ('e mailbox, unit) eff" where
  "mb_finish request result =
     modE (\<lambda>mb. mb\<lparr>mb_completed := mb_completed mb @ [\<lparr>cm_resets_idle_timer = op_resets_idle_timer (rq_operation request),
       cm_reply = rq_reply request, cm_result = result\<rparr>]\<rparr>)"

definition mb_stop :: "'e actor_services \<Rightarrow> actor_request \<Rightarrow> ('e mailbox, bool) eff" where
  "mb_stop S request =
     bindE (onM (evict S (op_actor (rq_operation request)))) (\<lambda>_.
     bindE (mb_finish request (Ok (Failed outcome_unknown_after_execution))) (\<lambda>_.
     retE False))"

definition mb_release :: "u64 \<Rightarrow> ('e mailbox, unit) eff" where
  "mb_release i = modE (\<lambda>mb. if mb_blocked_on mb = Some i then mb\<lparr>mb_blocked_on := None\<rparr> else mb)"

definition mb_activate :: "'e actor_services \<Rightarrow> actor_request \<Rightarrow> actor_key \<Rightarrow> ('e mailbox, bool) eff" where
  "mb_activate S request actor =
     bindE (onM (rt_activate_actor S actor)) (\<lambda>result.
     bindE (modE (\<lambda>mb. mb\<lparr>mb_activated := mb_activated mb @ [(rq_reply request, result)]\<rparr>)) (\<lambda>_.
     bindE (mb_finish (request\<lparr>rq_operation := OpMethod (activate_invocation actor)\<rparr>) (Ok (Completed JNull []))) (\<lambda>_.
     retE (is_ok result))))"

definition mb_start :: "'e actor_services \<Rightarrow> actor_request \<Rightarrow> prepared_invocation result \<Rightarrow> ('e mailbox, bool) eff" where
  "mb_start S request prepared =
     (case prepared of
        Inr (PExecute state) \<Rightarrow>
          bindE (modE (\<lambda>mb. let i = mb_next_invocation mb + 1 in
            mb\<lparr>mb_next_invocation := i, mb_blocked_on := Some i, mb_running := mb_running mb @ [(i, request, state)]\<rparr>)) (\<lambda>_.
          retE True)
      | Inr (PCompleted result) \<Rightarrow> bindE (mb_finish request (Ok result)) (\<lambda>_. retE True)
      | Inl _ \<Rightarrow> mb_stop S request)"

definition mb_admit :: "'e actor_services \<Rightarrow> actor_request \<Rightarrow> bool \<Rightarrow> ('e mailbox, bool) eff" where
  "mb_admit S request accepting =
     (if \<not> accepting \<and> \<not> op_is_disconnect (rq_operation request) then
        bindE (mb_finish request (Ok HostUnavailable)) (\<lambda>_. retE True)
      else (case rq_operation request of
          OpActivate actor \<Rightarrow> mb_activate S request actor
        | OpMethod i \<Rightarrow> bindE (onM (prepare_invocation S i (rq_owner_epoch request) True)) (mb_start S request)
        | OpSocket _ \<Rightarrow>
            bindE (onM (prepare_invocation S (op_invocation (rq_operation request)) (rq_owner_epoch request) False)) (mb_start S request)))"

text \<open>The loop removes one outcome a turn, so the number of outcomes that are ready bounds it.\<close>

primrec commit_ready_loop :: "nat \<Rightarrow> 'e actor_services \<Rightarrow> ('e mailbox, bool) eff" where
  "commit_ready_loop 0 S = liftE (Inl Diverged)"
| "commit_ready_loop (Suc n) S =
     bindE (getE (\<lambda>mb. map_of (mb_ready mb) (mb_next_sequence mb))) (\<lambda>next.
     case next of
       None \<Rightarrow> retE True
     | Some (i, request, outcome) \<Rightarrow>
         bindE (modE (\<lambda>mb. mb\<lparr>mb_ready := AList.delete (mb_next_sequence mb) (mb_ready mb)\<rparr>)) (\<lambda>_.
         bindE (onM (commit_interleaved S (op_invocation (rq_operation request)) (rq_owner_epoch request) outcome
           (op_commit_origin (rq_operation request)))) (\<lambda>result.
         case result of
           Inr (Completed v effects) \<Rightarrow>
             bindE (modE (\<lambda>mb. mb\<lparr>mb_next_sequence := mb_next_sequence mb + 1\<rparr>)) (\<lambda>_.
             bindE (mb_finish request (Ok (Completed v effects))) (\<lambda>_.
             bindE (mb_release i) (\<lambda>_.
             commit_ready_loop n S)))
         | _ \<Rightarrow> mb_stop S request)))"

definition commit_ready :: "'e actor_services \<Rightarrow> ('e mailbox, bool) eff" where
  "commit_ready S = bindE (getE (\<lambda>mb. length (mb_ready mb))) (\<lambda>n. commit_ready_loop (Suc n) S)"

definition tolerated_failure :: "string \<Rightarrow> bool" where
  "tolerated_failure code \<longleftrightarrow>
     code \<in> {''actor_method_failed'', ''actor_socket_failed'', ''method_not_found'', ''method_not_callable''}"

definition mb_answer :: "u64 \<Rightarrow> actor_request \<Rightarrow> execution_result result \<Rightarrow> ('e mailbox, bool) eff" where
  "mb_answer i request result = bindE (mb_finish request result) (\<lambda>_. bindE (mb_release i) (\<lambda>_. retE True))"

definition mb_interleave :: "'e actor_services \<Rightarrow> u64 \<Rightarrow> actor_request \<Rightarrow> interleaved_outcome \<Rightarrow> ('e mailbox, bool) eff" where
  "mb_interleave S i request outcome =
     bindE (modE (\<lambda>mb. mb\<lparr>mb_interleaved := True\<rparr>)) (\<lambda>_.
     bindE (getE (\<lambda>mb. io_sequence outcome < mb_next_sequence mb \<or> map_of (mb_ready mb) (io_sequence outcome) \<noteq> None)) (\<lambda>repeated.
     if repeated then mb_stop S request
     else
       bindE (modE (\<lambda>mb. mb\<lparr>mb_ready := (io_sequence outcome, i, request, outcome) # mb_ready mb\<rparr>)) (\<lambda>_.
       commit_ready S)))"

definition mb_failed :: "'e actor_services \<Rightarrow> u64 \<Rightarrow> actor_request \<Rightarrow> method_outcome result \<Rightarrow> ('e mailbox, bool) eff" where
  "mb_failed S i request result =
     (case result of
        Inr (MFailed failure) \<Rightarrow>
          if tolerated_failure (if_code failure) then mb_answer i request (Ok (failed ''actor_error'' (if_message failure)))
          else mb_stop S request
      | _ \<Rightarrow> mb_stop S request)"

definition mb_serial :: "'e actor_services \<Rightarrow> u64 \<Rightarrow> actor_request \<Rightarrow> method_outcome result \<Rightarrow> ('e mailbox, bool) eff" where
  "mb_serial S i request result =
     bindE (onM (finish_serial S (op_invocation (rq_operation request)) (rq_owner_epoch request) result
       (op_commit_origin (rq_operation request)))) (mb_answer i request)"

definition mb_executed :: "'e actor_services \<Rightarrow> u64 \<Rightarrow> actor_request \<Rightarrow> method_outcome result \<Rightarrow> ('e mailbox, bool) eff" where
  "mb_executed S i request result =
     (case result of
        Inr (MInterleaved outcome) \<Rightarrow> mb_interleave S i request outcome
      | _ \<Rightarrow> bindE (getE mb_interleaved) (\<lambda>interleaved.
          if interleaved then mb_failed S i request result else mb_serial S i request result))"

definition execute_operation :: "'e actor_services \<Rightarrow> actor_operation \<Rightarrow> json option \<Rightarrow> ('e, method_outcome) eff" where
  "execute_operation S op' state =
     (case op' of
        OpSocket i \<Rightarrow>
          bindE (x_handle_socket S i state) (\<lambda>outcome.
          retE (case outcome of
              SInterleaved outcome \<Rightarrow> MInterleaved outcome
            | SHandled state effects \<Rightarrow> MCompleted JNull state effects
            | SFailed failure \<Rightarrow> MFailed failure))
      | _ \<Rightarrow> x_invoke S (op_invocation op') state)"

text \<open>
  The events of the loop: an execution returns, the executor permits the next invocation while one blocks
  the mailbox, the permission channel closes, a request arrives when none blocks, the request channel closes.
  A step returns whether the task goes on. An event that the loop does not wait for leaves it as it is.
\<close>

datatype mailbox_event =
    MExecuted u64
  | MPermission bool
  | MRequest actor_request bool
  | MClosed

type_synonym 'e op_executor = "actor_operation \<Rightarrow> json option \<Rightarrow> ('e, method_outcome) eff"

definition mailbox_step :: "'e actor_services \<Rightarrow> 'e op_executor \<Rightarrow> mailbox_event \<Rightarrow> ('e mailbox, bool) eff" where
  "mailbox_step S X event =
     (case event of
        MExecuted i \<Rightarrow>
          bindE (getE (\<lambda>mb. map_of (mb_running mb) i)) (\<lambda>found.
          case found of
            None \<Rightarrow> retE True
          | Some (request, state) \<Rightarrow>
              bindE (onM (envA (X (rq_operation request) state))) (\<lambda>result.
              bindE (modE (\<lambda>mb. mb\<lparr>mb_running := remove1 (i, request, state) (mb_running mb)\<rparr>)) (\<lambda>_.
              mb_executed S i request result)))
      | MPermission granted \<Rightarrow>
          bindE (getE mb_blocked_on) (\<lambda>blocked.
          if blocked = None then retE True
          else if \<not> granted then retE False
          else bindE (modE (\<lambda>mb. mb\<lparr>mb_interleaved := True, mb_blocked_on := None\<rparr>)) (\<lambda>_. retE True))
      | MRequest request accepting \<Rightarrow>
          bindE (getE (\<lambda>mb. mb_open mb \<and> mb_blocked_on mb = None)) (\<lambda>ready.
          if ready then mb_admit S request accepting else retE True)
      | MClosed \<Rightarrow>
          bindE (getE (\<lambda>mb. mb_open mb \<and> mb_blocked_on mb = None)) (\<lambda>ready.
          bindE (modE (\<lambda>mb. if ready then mb\<lparr>mb_open := False\<rparr> else mb)) (\<lambda>_. retE True)))"

primrec mailbox_run :: "'e actor_services \<Rightarrow> 'e op_executor \<Rightarrow> mailbox_event list \<Rightarrow> ('e mailbox, bool) eff" where
  "mailbox_run S X [] = retE True"
| "mailbox_run S X (event # events) =
     bindE (mailbox_step S X event) (\<lambda>continue. if continue then mailbox_run S X events else retE False)"

end
