(* ===== verification/Mailbox_Safety.thy ===== *)
theory Mailbox_Safety
  imports Actor_Commits Actor_Mailbox "HOL-Library.Multiset"
begin

text \<open>
  The tasks of an actor keep the ledger: every history of the serial task and of the mailbox is a history
  of the ledger of \<^verbatim>\<open>Actor_Commits\<close>, the loop of the mailbox never runs out of its bound, and every request
  it takes is answered at most once.
\<close>

lemma bindE_run: "bindE m f w = (r, w') \<longleftrightarrow>
    (\<exists>e. m w = (Inl e, w') \<and> r = Inl e) \<or> (\<exists>x w1. m w = (Inr x, w1) \<and> f x w1 = (r, w'))"
  by (auto simp: bindE_def split: prod.splits sum.splits)

lemmas run_simps = bindE_run retE_eq liftE_eq getE_eq modE_eq tryE_eq zoomE_eq

section \<open>The runtime operations of the mailbox\<close>

definition quiet :: "cached_actor_state option \<Rightarrow> bool" where
  "quiet x \<longleftrightarrow> (\<forall>c. x = Some c \<longrightarrow> ca_pending c = None)"

lemma quiet_simps [simp]: "quiet None" "quiet (Some c) \<longleftrightarrow> ca_pending c = None"
  by (simp_all add: quiet_def)

lemma settled_quiet: "settled J n P x l \<Longrightarrow> quiet x"
  by (auto simp: settled_def)

lemma envA_run: "envA m rt = (r, rt') \<longleftrightarrow> (\<exists>e. m (ar_env rt) = (r, e) \<and> rt' = rt\<lparr>ar_env := e\<rparr>)"
  by (auto simp: envA_def eff_simps)

lemma loaded_quiet: "load_state S a n rt = (Inr c, rt') \<Longrightarrow> ca_pending c = None"
  by (auto simp: load_state_def eff_simps result_simps from_loaded_def new_cached_def split: if_splits)

lemma prepare_quiet:
  assumes "prepare_invocation S i n replay rt = (Inr p, rt')" "quiet (ar_cached rt)"
  shows "quiet (ar_cached rt')"
proof -
  from assms(1) obtain rt1 c rt2 f c' rt3 where run: "take_or_load_state S (inv_actor i) n rt1 = (Inr c, rt2)"
      "on_cached c (finish_pending_commit S i) rt2 = (Inr (f, c'), rt3)" "ar_cached rt1 = ar_cached rt"
    and rest: "(case f of Inl _ \<Rightarrow> retE (PCompleted (Failed outcome_unknown_after_execution))
       | Inr _ \<Rightarrow> retE (case if replay then cached_replay c' (inv_request_id i) else None of
             Some result \<Rightarrow> PCompleted (Completed result []) | None \<Rightarrow> PExecute (ca_state c'))) (rt3\<lparr>ar_cached := Some c'\<rparr>) = (Inr p, rt')"
    unfolding prepare_invocation_def put_cached_def bindE_Ok by (auto simp: envA_run)
  from rest have rt': "ar_cached rt' = Some c'" by (cases f) auto
  from run(1,3) assms(2) have "ca_pending c = None"
    by (auto simp: take_or_load_state_def take_cached_def eff_simps dest: loaded_quiet split: option.splits if_splits)
  then have "c' = c" using run(2) by (auto simp: on_cached_def finish_pending_commit_def eff_simps split: prod.splits)
  with rt' \<open>ca_pending c = None\<close> show ?thesis by simp
qed

lemma activate_quiet:
  fixes S :: "'e actor_services"
  assumes run: "rt_activate_actor S a rt = (Inr act, rt')" and q: "quiet (ar_cached rt)"
  shows "quiet (ar_cached rt')"
proof -
  let ?Q = "\<lambda>rt :: 'e actor_runtime. quiet (ar_cached rt)" and ?T = "\<lambda>_ :: 'e actor_runtime. True"
  have env: "triple ?Q (bindE (envA m) f) (\<lambda>_. ?Q) ?T"
    if "\<And>x. triple ?Q (f x) (\<lambda>_. ?Q) ?T" for m :: "('e, 'b) eff" and f :: "'b \<Rightarrow> ('e actor_runtime, 'c) eff"
    by (rule triple_bind [OF _ that], rule tripleI) (auto simp: envA_run)
  have put: "triple ?Q (bindE (put_cached c) (\<lambda>_. retE v)) (\<lambda>_. ?Q) ?T" if "ca_pending c = None" for c and v :: 'c
    using that by (auto simp: triple_def put_cached_def bindE_def)
  have get: "triple ?Q (bindE (getE g) f) (\<lambda>_. ?Q) ?T"
    if "\<And>x. triple ?Q (f x) (\<lambda>_. ?Q) ?T" for g :: "'e actor_runtime \<Rightarrow> 'b" and f :: "'b \<Rightarrow> ('e actor_runtime, 'c) eff"
    by (rule triple_bind [OF _ that], rule tripleI) auto
  have set_act: "triple ?Q (bindE (modE (\<lambda>rt. rt\<lparr>ar_activation := x\<rparr>)) (\<lambda>_. retE v)) (\<lambda>_. ?Q) ?T" for x and v :: 'c
    by (rule tripleI) (auto simp: eff_simps)
  have start: "triple ?Q (case cached of
             Some _ \<Rightarrow> retE activation
           | None \<Rightarrow>
               if act_state_version activation = 0 then
                 bindE (put_cached (new_cached (act_owner_epoch activation))) (\<lambda>_. retE activation)
               else
                 bindE (liftE (ok_or (act_state activation) ''activation has no recovered state'')) (\<lambda>bytes.
                 bindE (liftE (from_loaded (sv_snapshots S) (act_owner_epoch activation) (act_state_version activation) bytes)) (\<lambda>c.
                 bindE (put_cached c) (\<lambda>_. retE (activation\<lparr>act_state := None\<rparr>))))) (\<lambda>_. ?Q) ?T"
    for cached :: "cached_actor_state option" and activation
    by (cases cached) (auto intro!: triple_if triple_bind_lift put triple_ret simp: from_loaded_def new_cached_def result_simps)
  have "triple ?Q (rt_activate_actor S a) (\<lambda>_. ?Q) ?T"
    unfolding rt_activate_actor_def
    by (rule env, rule get) (auto intro!: env get triple_bind [OF start] set_act triple_ret split: option.split)
  from tripleD_Ok [OF this q run] show ?thesis .
qed

definition recorded :: "snapshot_codec \<Rightarrow> actor_event list \<Rightarrow> bool" where
  "recorded J l \<longleftrightarrow> (\<exists>L. ledger_run J None l L)"

lemma rt_inv_recorded: "rt_inv J x l \<Longrightarrow> recorded J l"
  by (auto simp: rt_inv_def recorded_def tracked_def split: option.splits)

lemma finish_serial_tracked:
  assumes J: "sv_snapshots S = J"
  shows "triple (onA (settled J n (\<lambda>_. True))) (finish_serial (logged S) i n outcome origin) (\<lambda>_. onA (rt_inv J)) (onA (rt_inv J))"
  unfolding finish_serial_def
proof (rule triple_bind [OF method_result_keeps])
  fix ex
  show "triple (onA (\<lambda>y l. settled J n (\<lambda>_. True) y l \<and>
      (case ex of Inr (v, st, es) \<Rightarrow> method_state outcome = Some (v, st) | Inl f \<Rightarrow> \<exists>g. f = Failed g)))
     (finish_method (logged S) i n ex origin) (\<lambda>_. onA (rt_inv J)) (onA (rt_inv J))"
  proof (cases ex)
    case (Inl f) then show ?thesis unfolding finish_method_def by simp (rule A_ret, auto intro: settled_inv)
  next
    case (Inr out)
    obtain v st' es where out: "out = (v, st', es)" by (cases out)
    have commit: "triple (onA (\<lambda>x l. tracked J n c l \<and> ca_pending c = None)) (commit_outcome (logged S) i n c (v, st', es) origin)
        (\<lambda>_. onA (rt_inv J)) (onA (rt_inv J))" for c
      by (rule triple_weaken [OF commit_outcome_tracked [OF J]]) (auto simp: onA_def)
    show ?thesis
      unfolding finish_method_def Inr sum.case out
      apply (rule A_take)
      subgoal for x
        by (cases x) (auto intro!: A_none A_weaken [OF commit] simp: settled_def)
      done
  qed
qed

lemma commit_interleaved_tracked:
  assumes J: "sv_snapshots S = J"
  shows "triple (onA (\<lambda>x l. rt_inv J x l \<and> quiet x)) (commit_interleaved (logged S) i n outcome origin)
     (\<lambda>r. onA (\<lambda>x l. recorded J l \<and> (case r of Completed _ _ \<Rightarrow> rt_inv J x l \<and> quiet x | _ \<Rightarrow> True))) (onA (\<lambda>x l. recorded J l))"
proof -
  let ?E = "onA (\<lambda>x l. recorded J l) :: ('a \<times> actor_event list) actor_runtime \<Rightarrow> bool"
  have pub: "triple (onC (\<lambda>c l. tracked J n c l \<and> ca_pending c = None))
      (if b then publish_result (logged S) i n v st o' else retE (Completed v []))
      (\<lambda>_. onC (\<lambda>c l. tracked J n c l \<and> ca_pending c = None)) (onC (tracked J n))" for b v st o'
    by (auto intro!: C_ret triple_weaken [OF publish_result_tracked [OF J]] simp: onC_def)
  have fin: "triple (onA (\<lambda>x l. rt_inv J x l \<and> quiet x)) (complete_with_state (logged S) a v res effects)
      (\<lambda>r. onA (\<lambda>x l. recorded J l \<and> (case r of Completed _ _ \<Rightarrow> rt_inv J x l \<and> quiet x | _ \<Rightarrow> True))) ?E" for a v res effects
    by (rule triple_weaken [OF complete_tracked [of "\<lambda>x l. rt_inv J x l \<and> quiet x" J]])
      (auto simp: onA_def intro: rt_inv_recorded split: execution_result.splits)
  show ?thesis
    unfolding commit_interleaved_def Let_def logged_sel
    apply (rule A_keep, rule A_lift, rule A_take)
    subgoal for u u' x
      apply (rule A_lift)
      subgoal for c
        apply (rule A_lift)
        subgoal
          apply (rule A_cached [OF pub])
          subgoal by (auto simp: result_simps rt_inv_def)
          subgoal for r c'
            unfolding prod.case
            apply (rule A_put [where Q' = "\<lambda>x l. recorded J l \<and> (is_ok r \<longrightarrow> rt_inv J x l \<and> quiet x)"])
            subgoal by (cases r) (auto intro: rt_inv_tracked rt_inv_recorded)
            subgoal
              apply (rule A_lift)
              subgoal by (rule A_weaken [OF fin]) simp
              by simp
            done
          done
        by (auto intro: rt_inv_recorded)
      by (auto intro: rt_inv_recorded)
    by (auto intro: rt_inv_recorded)
qed


section \<open>The mailbox\<close>

definition mb_log :: "('e \<times> actor_event list) mailbox \<Rightarrow> actor_event list" where
  "mb_log mb = snd (ar_env (mb_runtime mb))"

definition mb_cached :: "'e mailbox \<Rightarrow> cached_actor_state option" where
  "mb_cached mb = ar_cached (mb_runtime mb)"

text \<open>
  Until an execution interleaves, at most one runs, it blocks the mailbox, and the cached state is the
  committed state of its epoch. Nothing is in flight while an execution runs or its outcome waits.
\<close>

definition mailbox_inv :: "snapshot_codec \<Rightarrow> ('e \<times> actor_event list) mailbox \<Rightarrow> bool" where
  "mailbox_inv J mb \<longleftrightarrow>
     rt_inv J (mb_cached mb) (mb_log mb) \<and>
     (mb_running mb \<noteq> [] \<or> mb_ready mb \<noteq> [] \<longrightarrow> quiet (mb_cached mb)) \<and>
     (mb_interleaved mb \<or> mb_ready mb = [] \<and>
       (mb_running mb = [] \<or>
        (\<exists>i rq st. mb_running mb = [(i, rq, st)] \<and> mb_blocked_on mb = Some i \<and>
           settled J (rq_owner_epoch rq) (\<lambda>_. True) (mb_cached mb) (mb_log mb))))"

definition mailbox_post :: "snapshot_codec \<Rightarrow> bool result \<Rightarrow> ('e \<times> actor_event list) mailbox \<Rightarrow> bool" where
  "mailbox_post J r mb \<longleftrightarrow> recorded J (mb_log mb) \<and> (r = Inr True \<and> mailbox_inv J mb \<or> r = Inr False)"

lemma onM_triple:
  assumes "triple (onA P) m (\<lambda>v. onA (Q v)) (onA E)" "onM m mb = (r, mb')" "P (mb_cached mb) (mb_log mb)"
  shows "\<exists>rt r0. r = Inr r0 \<and> mb' = mb\<lparr>mb_runtime := rt\<rparr> \<and>
    (case r0 of Inr v \<Rightarrow> Q v (mb_cached mb') (mb_log mb') | Inl _ \<Rightarrow> E (mb_cached mb') (mb_log mb'))"
proof -
  from assms(2) obtain r0 rt where run: "m (mb_runtime mb) = (r0, rt)" and r: "r = Inr r0" "mb' = mb\<lparr>mb_runtime := rt\<rparr>"
    by (auto simp: onM_def eff_simps)
  have P: "onA P (mb_runtime mb)" using assms(3) by (simp add: onA_def mb_cached_def mb_log_def)
  have "case r0 of Inr v \<Rightarrow> Q v (ar_cached rt) (snd (ar_env rt)) | Inl _ \<Rightarrow> E (ar_cached rt) (snd (ar_env rt))"
    using tripleD_Ok [OF assms(1) P] tripleD_Err [OF assms(1) P] run by (cases r0) (simp_all add: onA_def)
  with r show ?thesis by (cases r0) (auto simp: mb_cached_def mb_log_def)
qed

lemma stopped:
  assumes run: "mb_stop (logged S) rq mb = (r, mb')" and rec: "recorded J (mb_log mb)"
  shows "mailbox_post J r mb'"
proof -
  have ev: "triple (onA (\<lambda>x l. recorded J l)) (evict (logged S) a) (\<lambda>_. onA (\<lambda>x l. recorded J l)) (onA (\<lambda>x l. recorded J l))" for a
    by (rule A_evict)
  from run obtain r0 mb1 where on: "onM (evict (logged S) (op_actor (rq_operation rq))) mb = (r0, mb1)"
    by (auto simp: mb_stop_def run_simps)
  then have "mb_log mb' = mb_log mb1 \<and> r = Inr False"
    using run unfolding mb_stop_def mb_finish_def onM_def mb_log_def by (auto simp: run_simps)
  with onM_triple [OF ev on rec] show ?thesis by (auto simp: mailbox_post_def split: sum.splits)
qed

lemma activate_post:
  assumes J: "sv_snapshots S = J" and inv: "mailbox_inv J mb" and free: "mb_blocked_on mb = None"
    and run: "mb_activate (logged S) rq a mb = (r, mb')"
  shows "mailbox_post J r mb'"
proof -
  from run obtain r0 mb1 where on: "onM (rt_activate_actor (logged S) a) mb = (Inr r0, mb1)"
    and r: "r = Inr (is_ok r0)" and mb': "mb_runtime mb' = mb_runtime mb1" "mb_running mb' = mb_running mb1" "mb_ready mb' = mb_ready mb1"
      "mb_interleaved mb' = mb_interleaved mb1" "mb_blocked_on mb' = mb_blocked_on mb1"
    unfolding mb_activate_def mb_finish_def onM_def by (auto simp: run_simps)
  from onM_triple [OF activate_tracked [OF J] on] inv obtain rt where mb1: "mb1 = mb\<lparr>mb_runtime := rt\<rparr>"
      and inv1: "rt_inv J (mb_cached mb1) (mb_log mb1)"
    by (auto simp: mailbox_inv_def split: sum.splits)
  have "quiet (mb_cached mb) \<Longrightarrow> is_ok r0 \<Longrightarrow> quiet (mb_cached mb1)"
    using on activate_quiet by (cases r0) (auto simp: onM_def mb_cached_def is_ok_def eff_simps)
  with inv inv1 free mb1 mb' r show ?thesis
    by (cases "is_ok r0") (auto simp: mailbox_post_def mailbox_inv_def mb_cached_def mb_log_def intro: rt_inv_recorded)
qed


lemma mailbox_invD:
  assumes "mailbox_inv J mb"
  shows "rt_inv J (mb_cached mb) (mb_log mb)" "recorded J (mb_log mb)"
  using assms by (auto simp: mailbox_inv_def intro: rt_inv_recorded)

lemma mb_finish_run [simp]:
  "mb_finish rq v mb = (r, mb') \<longleftrightarrow> r = Inr () \<and>
     mb' = mb\<lparr>mb_completed := mb_completed mb @ [\<lparr>cm_resets_idle_timer = op_resets_idle_timer (rq_operation rq),
       cm_reply = rq_reply rq, cm_result = v\<rparr>]\<rparr>"
  by (auto simp: mb_finish_def run_simps)

lemma mb_release_run [simp]:
  "mb_release i mb = (r, mb') \<longleftrightarrow> r = Inr () \<and>
     mb' = mb\<lparr>mb_blocked_on := if mb_blocked_on mb = Some i then None else mb_blocked_on mb\<rparr>"
  by (auto simp: mb_release_def run_simps)

lemma mb_view [simp]:
  "mb_log (mb\<lparr>mb_completed := x\<rparr>) = mb_log mb" "mb_cached (mb\<lparr>mb_completed := x\<rparr>) = mb_cached mb"
  "mailbox_inv J (mb\<lparr>mb_completed := x\<rparr>) = mailbox_inv J mb"
  by (simp_all add: mb_log_def mb_cached_def mailbox_inv_def)

lemma prepared_post:
  assumes J: "sv_snapshots S = J" and inv: "mailbox_inv J mb" and free: "mb_blocked_on mb = None"
    and on: "onM (prepare_invocation (logged S) i (rq_owner_epoch rq) replay) mb = (Inr r0, mb1)"
  shows "recorded J (mb_log mb1)"
    and "r0 = Inr (PCompleted v) \<Longrightarrow> mailbox_inv J mb1"
    and "r0 = Inr (PExecute st) \<Longrightarrow> mailbox_inv J (mb1\<lparr>mb_next_invocation := k, mb_blocked_on := Some k, mb_running := mb_running mb1 @ [(k, rq, st)]\<rparr>)"
proof -
  from onM_triple [OF prepare_invocation_tracked [OF J] on mailbox_invD(1) [OF inv]] obtain rt where mb1: "mb1 = mb\<lparr>mb_runtime := rt\<rparr>"
    and post: "case r0 of Inr p \<Rightarrow> (case p of PExecute st \<Rightarrow> settled J (rq_owner_epoch rq) (\<lambda>c. ca_state c = st) (mb_cached mb1) (mb_log mb1)
        | PCompleted r \<Rightarrow> answered J (rq_owner_epoch rq) (inv_request_id i) r (mb_cached mb1) (mb_log mb1))
      | Inl _ \<Rightarrow> rt_inv J (mb_cached mb1) (mb_log mb1)"
    by auto
  from post have inv1: "rt_inv J (mb_cached mb1) (mb_log mb1)"
    by (auto simp: answered_def intro: settled_inv split: sum.splits prepared_invocation.splits)
  then show "recorded J (mb_log mb1)" by (rule rt_inv_recorded)
  have q: "quiet (mb_cached mb) \<Longrightarrow> r0 = Inr p \<Longrightarrow> quiet (mb_cached mb1)" for p
    using on prepare_quiet by (auto simp: onM_def mb_cached_def eff_simps)
  have none: "mb_interleaved mb \<or> mb_ready mb = [] \<and> mb_running mb = []" using inv free by (auto simp: mailbox_inv_def)
  show "mailbox_inv J mb1" if "r0 = Inr (PCompleted v)"
    using inv inv1 q that none by (auto simp: mailbox_inv_def mb1)
  show "mailbox_inv J (mb1\<lparr>mb_next_invocation := k, mb_blocked_on := Some k, mb_running := mb_running mb1 @ [(k, rq, st)]\<rparr>)"
    if r0: "r0 = Inr (PExecute st)"
  proof -
    have "settled J (rq_owner_epoch rq) (\<lambda>_. True) (mb_cached mb1) (mb_log mb1)" using post r0 by (auto simp: settled_def)
    with inv1 none settled_quiet [OF this] show ?thesis
      by (auto simp: mailbox_inv_def mb1 mb_cached_def mb_log_def)
  qed
qed

lemma start_post:
  assumes J: "sv_snapshots S = J" and inv: "mailbox_inv J mb" and free: "mb_blocked_on mb = None"
    and run: "bindE (onM (prepare_invocation (logged S) i (rq_owner_epoch rq) replay)) (mb_start (logged S) rq) mb = (r, mb')"
  shows "mailbox_post J r mb'"
proof -
  from run obtain r0 mb1 where on: "onM (prepare_invocation (logged S) i (rq_owner_epoch rq) replay) mb = (Inr r0, mb1)"
    and rest: "mb_start (logged S) rq r0 mb1 = (r, mb')" by (auto simp: bindE_run onM_def tryE_eq)
  note post = prepared_post [OF J inv free on]
  show ?thesis
  proof (cases r0)
    case Inl with rest show ?thesis by (auto simp: mb_start_def intro: stopped [OF _ post(1)])
  next
    case (Inr p)
    show ?thesis
    proof (cases p)
      case (PExecute st)
      with rest Inr post(1) post(3) [of st] show ?thesis by (auto simp: mb_start_def run_simps mailbox_post_def Let_def mb_log_def)
    next
      case (PCompleted v)
      with rest Inr post(1) post(2) [of v] show ?thesis by (auto simp: mb_start_def run_simps mailbox_post_def)
    qed
  qed
qed

lemma admit_post:
  assumes J: "sv_snapshots S = J" and inv: "mailbox_inv J mb" and free: "mb_blocked_on mb = None"
    and run: "mb_admit (logged S) rq accepting mb = (r, mb')"
  shows "mailbox_post J r mb'"
proof (cases "\<not> accepting \<and> \<not> op_is_disconnect (rq_operation rq)")
  case True
  with run inv show ?thesis by (auto simp: mb_admit_def run_simps mailbox_post_def mailbox_invD)
next
  case False
  with run show ?thesis
    by (cases "rq_operation rq") (auto simp: mb_admit_def intro: activate_post [OF J inv free] start_post [OF J inv free])
qed

lemma commit_ready_loop_post:
  assumes J: "sv_snapshots S = J"
    and "rt_inv J (mb_cached mb) (mb_log mb)" "quiet (mb_cached mb)" "mb_interleaved mb" "length (mb_ready mb) < n"
    and "commit_ready_loop n (logged S) mb = (r, mb')"
  shows "mailbox_post J r mb'"
  using assms(2-)
proof (induction n arbitrary: mb)
  case (Suc n)
  show ?case
  proof (cases "map_of (mb_ready mb) (mb_next_sequence mb)")
    case None
    with Suc show ?thesis by (auto simp: run_simps mailbox_post_def mailbox_inv_def intro: rt_inv_recorded)
  next
    case (Some e)
    obtain i rq out where e: "e = (i, rq, out)" by (cases e)
    let ?m = "commit_interleaved (logged S) (op_invocation (rq_operation rq)) (rq_owner_epoch rq) out (op_commit_origin (rq_operation rq))"
    let ?mb = "mb\<lparr>mb_ready := AList.delete (mb_next_sequence mb) (mb_ready mb)\<rparr>"
    have less: "length (mb_ready ?mb) < n"
    proof -
      have "length (AList.delete k xs) < length xs" if "map_of xs k = Some v" for k v and xs :: "('k \<times> 'v) list"
        using that length_filter_less [of "(k, v)" xs] map_of_SomeD [OF that] by (auto simp: AList.delete_eq)
      from this [OF Some] Suc.prems show ?thesis by simp
    qed
    from Suc.prems(5) Some e obtain r0 mb1 where on: "onM ?m ?mb = (Inr r0, mb1)" and rest: "(case r0 of
        Inr (Completed v effects) \<Rightarrow>
             bindE (modE (\<lambda>mb. mb\<lparr>mb_next_sequence := mb_next_sequence mb + 1\<rparr>)) (\<lambda>_.
             bindE (mb_finish rq (Ok (Completed v effects))) (\<lambda>_.
             bindE (mb_release i) (\<lambda>_.
             commit_ready_loop n (logged S))))
         | _ \<Rightarrow> mb_stop (logged S) rq) mb1 = (r, mb')"
      by (auto simp: bindE_run onM_def tryE_eq getE_eq modE_eq)
    have pre: "rt_inv J (mb_cached ?mb) (mb_log ?mb) \<and> quiet (mb_cached ?mb)"
      using Suc.prems by (simp add: mb_cached_def mb_log_def)
    note post = onM_triple [OF commit_interleaved_tracked [OF J] on pre]
    then obtain rt where mb1: "mb1 = ?mb\<lparr>mb_runtime := rt\<rparr>" by blast
    from post have rec: "recorded J (mb_log mb1)" by (auto split: sum.splits)
    from post have ok: "r0 = Inr (Completed v es) \<Longrightarrow> rt_inv J (mb_cached mb1) (mb_log mb1) \<and> quiet (mb_cached mb1)" for v es by auto
    show ?thesis
    proof (cases "\<exists>v es. r0 = Inr (Completed v es)")
      case True
      then obtain v es where r0: "r0 = Inr (Completed v es)" by blast
      from rest r0 obtain mb2 where "commit_ready_loop n (logged S) mb2 = (r, mb')" "mb_runtime mb2 = mb_runtime mb1"
        "mb_ready mb2 = mb_ready mb1" "mb_interleaved mb2 = mb_interleaved mb1"
        by (auto simp: run_simps mb_release_def)
      with Suc.IH [of mb2] ok [OF r0] Suc.prems(3) less show ?thesis by (simp add: mb1 mb_cached_def mb_log_def)
    next
      case False
      with rest have "mb_stop (logged S) rq mb1 = (r, mb')" by (auto split: sum.splits execution_result.splits)
      from stopped [OF this rec] show ?thesis .
    qed
  qed
qed simp


text \<open>What an execution leaves when it returns: nothing in flight, and its own epoch unless executions interleave.\<close>

definition returned_inv :: "snapshot_codec \<Rightarrow> actor_request \<Rightarrow> ('e \<times> actor_event list) mailbox \<Rightarrow> bool" where
  "returned_inv J rq mb \<longleftrightarrow>
     rt_inv J (mb_cached mb) (mb_log mb) \<and> quiet (mb_cached mb) \<and>
     (mb_interleaved mb \<or> mb_ready mb = [] \<and> mb_running mb = [] \<and>
       settled J (rq_owner_epoch rq) (\<lambda>_. True) (mb_cached mb) (mb_log mb))"

lemma serial_post:
  assumes J: "sv_snapshots S = J" and ret: "returned_inv J rq mb" "\<not> mb_interleaved mb"
    and run: "mb_serial (logged S) i rq result mb = (r, mb')"
  shows "mailbox_post J r mb'"
proof -
  let ?m = "finish_serial (logged S) (op_invocation (rq_operation rq)) (rq_owner_epoch rq) result (op_commit_origin (rq_operation rq))"
  from ret have pre: "settled J (rq_owner_epoch rq) (\<lambda>_. True) (mb_cached mb) (mb_log mb)" by (simp add: returned_inv_def)
  from run obtain r0 mb1 where on: "onM ?m mb = (Inr r0, mb1)" and r: "r = Inr True" and mb': "mb_runtime mb' = mb_runtime mb1"
      "mb_ready mb' = mb_ready mb1" "mb_running mb' = mb_running mb1" "mb_interleaved mb' = mb_interleaved mb1"
    by (auto simp: mb_serial_def mb_answer_def bindE_run onM_def tryE_eq retE_eq)
  from onM_triple [OF finish_serial_tracked [OF J] on pre] obtain rt where mb1: "mb1 = mb\<lparr>mb_runtime := rt\<rparr>"
    and "rt_inv J (mb_cached mb1) (mb_log mb1)" by (auto split: sum.splits)
  with ret mb' r show ?thesis
    by (auto simp: mailbox_post_def mailbox_inv_def returned_inv_def mb_cached_def mb_log_def intro: rt_inv_recorded)
qed

lemma interleaved_post:
  assumes J: "sv_snapshots S = J" and ret: "returned_inv J rq mb"
    and run: "mb_interleave (logged S) i rq out mb = (r, mb')"
  shows "mailbox_post J r mb'"
proof -
  let ?mb = "mb\<lparr>mb_interleaved := True\<rparr>"
  have keep: "rt_inv J (mb_cached ?mb) (mb_log ?mb)" "quiet (mb_cached ?mb)"
    using ret by (simp_all add: returned_inv_def mb_cached_def mb_log_def)
  consider "mb_stop (logged S) rq ?mb = (r, mb')"
    | "commit_ready (logged S) (?mb\<lparr>mb_ready := (io_sequence out, i, rq, out) # mb_ready mb\<rparr>) = (r, mb')"
    using run by (auto simp: mb_interleave_def run_simps split: if_splits)
  then show ?thesis
  proof cases
    case 1 then show ?thesis by (rule stopped) (rule rt_inv_recorded [OF keep(1)])
  next
    case 2
    let ?mb' = "?mb\<lparr>mb_ready := (io_sequence out, i, rq, out) # mb_ready mb\<rparr>"
    from 2 have "commit_ready_loop (Suc (length (mb_ready ?mb'))) (logged S) ?mb' = (r, mb')"
      unfolding commit_ready_def bindE_run getE_eq by blast
    from commit_ready_loop_post [OF J _ _ _ _ this] keep show ?thesis
      by (simp add: mb_cached_def mb_log_def del: commit_ready_loop.simps)
  qed
qed

lemma failed_cases:
  assumes "mb_failed S i rq result mb = (r, mb')"
  obtains "mb_stop S rq mb = (r, mb')" | v where "mb_answer i rq v mb = (r, mb')"
  using assms unfolding mb_failed_def by (auto split: sum.splits method_outcome.splits if_splits)

lemma failed_post:
  assumes ret: "returned_inv J rq mb" "mb_interleaved mb"
    and run: "mb_failed (logged S) i rq result mb = (r, mb')"
  shows "mailbox_post J r mb'"
proof -
  have rec: "recorded J (mb_log mb)" using ret by (auto simp: returned_inv_def intro: rt_inv_recorded)
  from run show ?thesis
  proof (cases rule: failed_cases)
    case 1 then show ?thesis by (rule stopped) (rule rec)
  next
    case 2
    with ret rec show ?thesis
      by (auto simp: mb_answer_def run_simps mailbox_post_def mailbox_inv_def returned_inv_def mb_cached_def mb_log_def)
  qed
qed

lemma executed_cases:
  assumes "mb_executed S i rq result mb = (r, mb')"
  obtains out where "mb_interleave S i rq out mb = (r, mb')"
    | "mb_interleaved mb" "mb_failed S i rq result mb = (r, mb')"
    | "\<not> mb_interleaved mb" "mb_serial S i rq result mb = (r, mb')"
  using assms unfolding mb_executed_def
  by (auto simp: bindE_run getE_eq split: sum.splits method_outcome.splits if_splits)

lemma executed_post:
  assumes J: "sv_snapshots S = J" and ret: "returned_inv J rq mb"
    and run: "mb_executed (logged S) i rq result mb = (r, mb')"
  shows "mailbox_post J r mb'"
  using run by (cases rule: executed_cases) (auto intro: interleaved_post [OF J ret] failed_post [OF ret] serial_post [OF J ret])

lemma onM_keep:
  assumes "onM (envA (keep_log m)) mb = (r, mb')"
  shows "\<exists>rt. mb' = mb\<lparr>mb_runtime := rt\<rparr>" "mb_cached mb' = mb_cached mb" "mb_log mb' = mb_log mb"
  using assms by (auto simp: onM_def run_simps envA_run keep_log_def mb_cached_def mb_log_def split: prod.splits)

lemma step_post:
  assumes J: "sv_snapshots S = J" and inv: "mailbox_inv J mb"
    and run: "mailbox_step (logged S) (\<lambda>op' st. keep_log (X op' st)) e mb = (r, mb')"
  shows "mailbox_post J r mb'"
proof (cases e)
  case (MExecuted i)
  show ?thesis
  proof (cases "map_of (mb_running mb) i")
    case None
    with run MExecuted inv show ?thesis by (auto simp: mailbox_step_def run_simps mailbox_post_def mailbox_invD)
  next
    case (Some f)
    obtain rq st where f: "f = (rq, st)" by (cases f)
    from run MExecuted Some f obtain r0 mb1 where on: "onM (envA (keep_log (X (rq_operation rq) st))) mb = (Inr r0, mb1)"
      and ex: "mb_executed (logged S) i rq r0 (mb1\<lparr>mb_running := remove1 (i, rq, st) (mb_running mb1)\<rparr>) = (r, mb')"
      by (auto simp: mailbox_step_def bindE_run getE_eq modE_eq onM_def tryE_eq)
    note kept = onM_keep [OF on]
    then obtain rt where mb1: "mb1 = mb\<lparr>mb_runtime := rt\<rparr>" by blast
    let ?mb = "mb1\<lparr>mb_running := remove1 (i, rq, st) (mb_running mb1)\<rparr>"
    have view: "mb_cached ?mb = mb_cached mb" "mb_log ?mb = mb_log mb" using kept(2,3) by (simp_all add: mb_cached_def mb_log_def)
    have run_ne: "(i, rq, st) \<in> set (mb_running mb)" using map_of_SomeD [OF Some] f by simp
    with inv have "returned_inv J rq ?mb"
      by (auto simp: returned_inv_def mailbox_inv_def view) (auto simp: mb1)
    from executed_post [OF J this ex] show ?thesis .
  qed
next
  case (MRequest rq accepting)
  with run inv show ?thesis
    by (auto simp: mailbox_step_def bindE_run getE_eq retE_eq mailbox_post_def [of J "Inr True"] mailbox_invD
        intro: admit_post [OF J inv] split: if_splits)
qed (use run inv in \<open>auto simp: mailbox_step_def run_simps mailbox_post_def mailbox_inv_def mb_cached_def mb_log_def
      intro: rt_inv_recorded split: if_splits\<close>)

lemma run_post:
  assumes J: "sv_snapshots S = J"
  shows "mailbox_inv J mb \<Longrightarrow> mailbox_run (logged S) (\<lambda>op' st. keep_log (X op' st)) es mb = (r, mb') \<Longrightarrow> mailbox_post J r mb'"
proof (induction es arbitrary: mb)
  case Nil then show ?case by (auto simp: run_simps mailbox_post_def mailbox_invD)
next
  case (Cons e es)
  from Cons.prems(2) consider x where "mailbox_step (logged S) (\<lambda>op' st. keep_log (X op' st)) e mb = (Inl x, mb')"
    | mb1 where "mailbox_step (logged S) (\<lambda>op' st. keep_log (X op' st)) e mb = (Inr True, mb1)"
        "mailbox_run (logged S) (\<lambda>op' st. keep_log (X op' st)) es mb1 = (r, mb')"
    | "mailbox_step (logged S) (\<lambda>op' st. keep_log (X op' st)) e mb = (Inr False, mb')" "r = Inr False"
    by (auto simp: bindE_run retE_eq split: if_splits)
  then show ?case
  proof cases
    case 1 from step_post [OF J Cons.prems(1) this] show ?thesis by (simp add: mailbox_post_def)
  next
    case 2
    from step_post [OF J Cons.prems(1) 2(1)] have "mailbox_inv J mb1" by (simp add: mailbox_post_def)
    from Cons.IH [OF this 2(2)] show ?thesis .
  next
    case 3 with step_post [OF J Cons.prems(1) 3(1)] show ?thesis by (simp add: mailbox_post_def)
  qed
qed

lemma new_mailbox_inv: "mailbox_inv J (new_mailbox (new_actor_runtime (e, [])))"
  by (simp add: mailbox_inv_def new_mailbox_def new_actor_runtime_def mb_cached_def mb_log_def)


section \<open>The serial task\<close>

definition at_log :: "('e \<times> actor_event list) actor_task \<Rightarrow> actor_event list" where
  "at_log t = snd (ar_env (at_runtime t))"

definition new_task :: "'e \<Rightarrow> 'e actor_task" where
  "new_task e = \<lparr>at_runtime = new_actor_runtime e, at_completed = [], at_activated = []\<rparr>"

definition task_inv :: "snapshot_codec \<Rightarrow> ('e \<times> actor_event list) actor_task \<Rightarrow> bool" where
  "task_inv J t \<longleftrightarrow> onA (rt_inv J) (at_runtime t)"

lemma onT_inv:
  assumes "triple (onA (rt_inv J)) m (\<lambda>r. onA (Q r)) (onA (rt_inv J))" "\<And>r x l. Q r x l \<Longrightarrow> rt_inv J x l"
  shows "triple (task_inv J) (onT m) (\<lambda>_. task_inv J) (\<lambda>_. False)"
proof (rule tripleI)
  fix t r t' assume inv: "task_inv J t" and run: "onT m t = (Inr r, t')"
  then obtain r0 rt where m: "m (at_runtime t) = (r0, rt)" "t' = t\<lparr>at_runtime := rt\<rparr>" by (auto simp: onT_def run_simps)
  have "onA (rt_inv J) (at_runtime t)" using inv by (simp add: task_inv_def)
  from tripleD_Ok [OF assms(1) this] tripleD_Err [OF assms(1) this] m assms(2) show "task_inv J t'"
    by (cases r0) (auto simp: task_inv_def onA_def)
qed (auto simp: onT_def run_simps)

lemma serve_request_inv:
  assumes J: "sv_snapshots S = J"
  shows "triple (task_inv J) (serve_request (logged S) accepting rq) (\<lambda>_. task_inv J) (\<lambda>_. False)"
proof -
  have ans: "answered J n req r x l \<Longrightarrow> rt_inv J x l" for n req r x l by (simp add: answered_def)
  have fin: "triple (task_inv J) (modE (\<lambda>t. t\<lparr>at_completed := f t\<rparr>)) (\<lambda>_. task_inv J) (\<lambda>_. False)" for f
    by (rule tripleI) (auto simp: task_inv_def eff_simps)
  have act: "triple (task_inv J) (bindE (modE (\<lambda>t. t\<lparr>at_activated := f t\<rparr>)) (\<lambda>_. retE v)) (\<lambda>_. task_inv J) (\<lambda>_. False)" for f v
    by (rule tripleI) (auto simp: task_inv_def eff_simps)
  show ?thesis
    unfolding serve_request_def
    by (rule triple_bind [OF _ fin], cases "rq_operation rq")
      (auto intro!: triple_ret triple_bind [OF onT_inv [OF activate_tracked [OF J]] act]
        onT_inv [OF invoke_actor_tracked [OF J] ans] onT_inv [OF handle_socket_tracked [OF J] ans])
qed

lemma run_actor_inv:
  assumes "sv_snapshots S = J"
  shows "triple (task_inv J) (run_actor (logged S) reqs) (\<lambda>_. task_inv J) (\<lambda>_. False)"
  by (induction "logged S" reqs rule: run_actor.induct)
    (auto intro!: triple_ret triple_bind [OF serve_request_inv [OF assms]])

lemma new_task_inv: "task_inv J (new_task (e, []))"
  by (simp add: task_inv_def new_task_def onA_def new_actor_runtime_def)

lemma run_actor_total:
  assumes J: "sv_snapshots S = J"
  obtains t where "run_actor (logged S) reqs (new_task (e, [])) = (Inr (), t)" "task_inv J t"
proof -
  obtain r t where run: "run_actor (logged S) reqs (new_task (e, [])) = (r, t)" by (cases "run_actor (logged S) reqs (new_task (e, []))")
  show ?thesis
  proof (cases r)
    case Inl with tripleD_Err [OF run_actor_inv [OF J] new_task_inv] run show ?thesis by blast
  next
    case Inr with tripleD_Ok [OF run_actor_inv [OF J] new_task_inv] run show ?thesis by (intro that) auto
  qed
qed

section \<open>What the ledger says about writes\<close>

inductive_cases ledger_run_snocE: "ledger_run J L (es @ [e]) L'"

lemma ledger_run_append: "ledger_run J L (xs @ ys) L' \<longleftrightarrow> (\<exists>M. ledger_run J L xs M \<and> ledger_run J M ys L')"
proof (induction ys arbitrary: L' rule: rev_induct)
  case Nil
  have "ledger_run J M [] L' \<longleftrightarrow> M = L'" for M by (auto elim: ledger_run.cases)
  then show ?case by simp
next
  case (snoc y ys)
  have "ledger_run J M (zs @ [y]) L' \<longleftrightarrow> (\<exists>M'. ledger_run J M zs M' \<and> ledger_step J M' y L')" for M zs
    by (auto elim: ledger_run.cases intro: run_snoc)
  with snoc show ?case by (metis append_assoc)
qed

lemma ledger_run_Cons: "ledger_run J L (e # es) L' \<longleftrightarrow> (\<exists>M. ledger_step J L e M \<and> ledger_run J M es L')"
proof -
  have nil: "ledger_run J M [] M' \<longleftrightarrow> M = M'" for M M' by (auto elim: ledger_run.cases)
  have "ledger_run J L [e] M \<longleftrightarrow> ledger_step J L e M" for M
    by (auto simp: nil elim: ledger_run.cases intro: run_snoc [of J L "[]" L, simplified])
  then show ?thesis using ledger_run_append [of J L "[e]" es L'] by auto
qed

definition is_acquire :: "actor_event \<Rightarrow> bool" where
  "is_acquire e = (case e of EvAcquire _ \<Rightarrow> True | _ \<Rightarrow> False)"

inductive_cases ledger_acquireE: "ledger_step J L (EvAcquire a) L'"

lemma acquires_keep: "ledger_run J (Some L) es L' \<Longrightarrow> list_all is_acquire es \<Longrightarrow> L' = Some L"
  by (induction "Some L" es L' rule: ledger_run.induct)
    (auto simp: is_acquire_def elim!: ledger_acquireE split: actor_event.splits)

lemma unresolved_step:
  assumes run: "ledger_run J None (xs @ EvWrite p b False # ys @ e # zs) L" and ys: "list_all is_acquire ys"
  shows "e \<noteq> EvExecute r st out" "e = EvWrite p' b' ok \<Longrightarrow> b' = b \<and> wp_stream p' = wp_stream p \<and> wp_object_name p' = wp_object_name p"
proof -
  from run obtain L0 L1 L2 L3 where w: "ledger_step J L0 (EvWrite p b False) L1" and y: "ledger_run J L1 ys L2"
    and e: "ledger_step J L2 e L3" by (auto simp: ledger_run_append ledger_run_Cons)
  from w obtain M s st' where L1: "L1 = Some M" and att: "lg_attempt M = Some (wp_stream p, wp_object_name p, s, st')" and b: "b = snapshot_to_vec J s"
    by (auto elim!: ledger_writeE)
  from acquires_keep [OF _ ys] y L1 have "L2 = Some M" by simp
  with e att b show "e \<noteq> EvExecute r st out"
    "e = EvWrite p' b' ok \<Longrightarrow> b' = b \<and> wp_stream p' = wp_stream p \<and> wp_object_name p' = wp_object_name p"
    by (auto elim: ledger_executeE ledger_writeE)
qed


section \<open>Requests are answered at most once\<close>

definition outstanding :: "'e mailbox \<Rightarrow> nat multiset" where
  "outstanding mb = mset (map (\<lambda>(_, rq, _). rq_reply rq) (mb_running mb)) +
     mset (map (\<lambda>(_, _, rq, _). rq_reply rq) (mb_ready mb)) + mset (map cm_reply (mb_completed mb))"

definition keyed :: "'e mailbox \<Rightarrow> bool" where
  "keyed mb \<longleftrightarrow> distinct (map fst (mb_ready mb))"

lemma onM_run [simp]: "onM m mb = (r, mb') \<longleftrightarrow> (\<exists>r0 rt. m (mb_runtime mb) = (r0, rt) \<and> r = Inr r0 \<and> mb' = mb\<lparr>mb_runtime := rt\<rparr>)"
  by (auto simp: onM_def run_simps)

lemma stop_outstanding:
  "mb_stop S rq mb = (r, mb') \<Longrightarrow> outstanding mb' = add_mset (rq_reply rq) (outstanding mb) \<and> (keyed mb \<longrightarrow> keyed mb') \<and> r = Inr False"
  by (auto simp: mb_stop_def run_simps outstanding_def keyed_def)

lemma delete_outstanding:
  assumes "keyed mb" "map_of (mb_ready mb) k = Some (i, rq, out)"
  shows "add_mset (rq_reply rq) (outstanding (mb\<lparr>mb_ready := AList.delete k (mb_ready mb)\<rparr>)) = outstanding mb"
    "keyed (mb\<lparr>mb_ready := AList.delete k (mb_ready mb)\<rparr>)"
proof -
  have "mset xs = add_mset (k, v) (mset (AList.delete k xs))" if "distinct (map fst xs)" "map_of xs k = Some v" for v :: 'x and xs :: "(u64 \<times> 'x) list"
    using that by (induction xs) (auto simp: AList.delete_notin_dom split: if_splits dest: map_of_SomeD)
  from this [OF assms(1) [unfolded keyed_def] assms(2)]
  have "mset (map f (mb_ready mb)) = add_mset (f (k, i, rq, out)) (mset (map f (AList.delete k (mb_ready mb))))" for f :: "_ \<Rightarrow> nat"
    by (metis image_mset_add_mset mset_map)
  then show "add_mset (rq_reply rq) (outstanding (mb\<lparr>mb_ready := AList.delete k (mb_ready mb)\<rparr>)) = outstanding mb"
    by (simp add: outstanding_def)
  show "keyed (mb\<lparr>mb_ready := AList.delete k (mb_ready mb)\<rparr>)" using assms by (simp add: keyed_def distinct_delete)
qed

lemma commit_ready_outstanding:
  assumes "keyed mb" "commit_ready_loop n S mb = (Inr r, mb')"
  shows "outstanding mb' = outstanding mb \<and> keyed mb'"
  using assms
proof (induction n arbitrary: mb)
  case (Suc n)
  show ?case
  proof (cases "map_of (mb_ready mb) (mb_next_sequence mb)")
    case None with Suc.prems show ?thesis by (simp add: run_simps)
  next
    case (Some e)
    obtain i rq out where e: "e = (i, rq, out)" by (cases e)
    let ?mb = "mb\<lparr>mb_ready := AList.delete (mb_next_sequence mb) (mb_ready mb)\<rparr>"
    note del = delete_outstanding [OF Suc.prems(1) Some [unfolded e]]
    from Suc.prems(2) Some e obtain r0 :: "execution_result result" and rt where rest: "(case r0 of
        Inr (Completed v effects) \<Rightarrow>
             bindE (modE (\<lambda>mb. mb\<lparr>mb_next_sequence := mb_next_sequence mb + 1\<rparr>)) (\<lambda>_.
             bindE (mb_finish rq (Ok (Completed v effects))) (\<lambda>_.
             bindE (mb_release i) (\<lambda>_.
             commit_ready_loop n S)))
         | _ \<Rightarrow> mb_stop S rq) (?mb\<lparr>mb_runtime := rt\<rparr>) = (Inr r, mb')"
      by (auto simp: bindE_run getE_eq modE_eq)
    show ?thesis
    proof (cases "\<exists>v es. r0 = Inr (Completed v es)")
      case True
      then obtain v es mb2 where "commit_ready_loop n S mb2 = (Inr r, mb')" "outstanding mb2 = add_mset (rq_reply rq) (outstanding ?mb)" "keyed mb2"
        using rest del(2) by (auto simp: bindE_run modE_eq outstanding_def keyed_def)
      with Suc.IH [of mb2] del(1) show ?thesis by simp
    next
      case False
      with rest have "mb_stop S rq (?mb\<lparr>mb_runtime := rt\<rparr>) = (Inr r, mb')" by (auto split: sum.splits execution_result.splits)
      from stop_outstanding [OF this] del show ?thesis by (simp add: outstanding_def keyed_def)
    qed
  qed
qed (simp add: run_simps)


lemma answer_outstanding:
  "mb_answer i rq v mb = (r, mb') \<Longrightarrow>
     outstanding mb' = add_mset (rq_reply rq) (outstanding mb) \<and> (keyed mb \<longrightarrow> keyed mb')"
  by (auto simp: mb_answer_def run_simps outstanding_def keyed_def)

lemma interleave_outstanding:
  assumes "keyed mb" "mb_interleave S i rq out mb = (Inr b, mb')"
  shows "outstanding mb' = add_mset (rq_reply rq) (outstanding mb) \<and> keyed mb'"
proof -
  let ?mb = "mb\<lparr>mb_interleaved := True, mb_ready := (io_sequence out, i, rq, out) # mb_ready mb\<rparr>"
  consider "mb_stop S rq (mb\<lparr>mb_interleaved := True\<rparr>) = (Inr b, mb')"
    | "map_of (mb_ready mb) (io_sequence out) = None" "commit_ready S ?mb = (Inr b, mb')"
    using assms(2) unfolding mb_interleave_def
    by (cases "map_of (mb_ready mb) (io_sequence out)") (auto simp: bindE_run getE_eq modE_eq split: if_splits)
  then show ?thesis
  proof cases
    case 1 with assms(1) show ?thesis by (auto simp: outstanding_def keyed_def dest!: stop_outstanding)
  next
    case 2
    have "keyed ?mb" using assms(1) 2(1) by (simp add: keyed_def map_of_eq_None_iff)
    moreover from 2(2) have "commit_ready_loop (Suc (length (mb_ready ?mb))) S ?mb = (Inr b, mb')"
      unfolding commit_ready_def bindE_run getE_eq by blast
    ultimately have "outstanding mb' = outstanding ?mb \<and> keyed mb'" by (rule commit_ready_outstanding)
    then show ?thesis by (simp add: outstanding_def)
  qed
qed

lemma executed_outstanding:
  assumes "keyed mb" "mb_executed S i rq result mb = (Inr b, mb')"
  shows "outstanding mb' = add_mset (rq_reply rq) (outstanding mb) \<and> keyed mb'"
  using assms(2)
proof (cases rule: executed_cases)
  case 1 then show ?thesis by (rule interleave_outstanding [OF assms(1)])
next
  case 2
  from 2(2) show ?thesis
    using assms(1) by (cases rule: failed_cases) (auto dest!: stop_outstanding answer_outstanding)
next
  case 3
  with assms(1) show ?thesis
    by (auto simp: mb_serial_def bindE_run outstanding_def keyed_def dest!: answer_outstanding)
qed

lemma start_outstanding:
  assumes "keyed mb" "bindE (onM m) (mb_start S rq) mb = (Inr b, mb')"
  shows "outstanding mb' = add_mset (rq_reply rq) (outstanding mb) \<and> keyed mb'"
proof -
  from assms(2) obtain r0 rt where start: "mb_start S rq r0 (mb\<lparr>mb_runtime := rt\<rparr>) = (Inr b, mb')" by (auto simp: bindE_run)
  show ?thesis
  proof (cases r0)
    case Inl with start assms(1) show ?thesis by (auto simp: mb_start_def outstanding_def keyed_def dest!: stop_outstanding)
  next
    case (Inr p)
    with start assms(1) show ?thesis
      by (cases p) (auto simp: mb_start_def run_simps Let_def outstanding_def keyed_def)
  qed
qed

lemma admit_outstanding:
  assumes "keyed mb" "mb_admit S rq accepting mb = (Inr b, mb')"
  shows "outstanding mb' = add_mset (rq_reply rq) (outstanding mb) \<and> keyed mb'"
proof (cases "\<not> accepting \<and> \<not> op_is_disconnect (rq_operation rq)")
  case True with assms show ?thesis by (auto simp: mb_admit_def run_simps outstanding_def keyed_def)
next
  case False
  have act: "mb_activate S rq a mb = (Inr b, mb') \<Longrightarrow> ?thesis" for a
    using assms(1) by (auto simp: mb_activate_def run_simps outstanding_def keyed_def)
  from False assms(2) show ?thesis
    by (cases "rq_operation rq") (auto simp: mb_admit_def dest!: act start_outstanding [OF assms(1)])
qed

fun requested :: "mailbox_event \<Rightarrow> nat multiset" where
  "requested (MRequest rq _) = {#rq_reply rq#}"
| "requested _ = {#}"

lemma step_outstanding:
  assumes "keyed mb" "mailbox_step S X e mb = (Inr b, mb')"
  shows "outstanding mb' = outstanding mb + (if mb_open mb \<and> mb_blocked_on mb = None then requested e else {#}) \<and> keyed mb'"
proof (cases e)
  case (MExecuted i)
  show ?thesis
  proof (cases "map_of (mb_running mb) i")
    case None with assms MExecuted show ?thesis by (simp add: mailbox_step_def run_simps)
  next
    case (Some f)
    obtain rq st where f: "f = (rq, st)" by (cases f)
    from assms(2) MExecuted Some f obtain r0 rt where
      ex: "mb_executed S i rq r0 (mb\<lparr>mb_runtime := rt, mb_running := remove1 (i, rq, st) (mb_running mb)\<rparr>) = (Inr b, mb')"
      by (auto simp: mailbox_step_def bindE_run getE_eq modE_eq)
    have "(i, rq, st) \<in> set (mb_running mb)" using map_of_SomeD [OF Some] f by simp
    then have "mset (mb_running mb) = add_mset (i, rq, st) (mset (remove1 (i, rq, st) (mb_running mb)))" by simp
    then have "mset (map g (mb_running mb)) = add_mset (g (i, rq, st)) (mset (map g (remove1 (i, rq, st) (mb_running mb))))" for g :: "_ \<Rightarrow> nat"
      by (metis image_mset_add_mset mset_map)
    with executed_outstanding [OF _ ex] assms(1) MExecuted show ?thesis by (simp add: outstanding_def keyed_def)
  qed
next
  case (MRequest rq accepting)
  with assms show ?thesis
    by (auto simp: mailbox_step_def bindE_run getE_eq retE_eq dest: admit_outstanding [OF assms(1)] split: if_splits)
qed (use assms in \<open>auto simp: mailbox_step_def run_simps outstanding_def keyed_def split: if_splits\<close>)

lemma run_outstanding:
  "keyed mb \<Longrightarrow> mailbox_run S X es mb = (Inr b, mb') \<Longrightarrow> outstanding mb' \<subseteq># outstanding mb + sum_list (map requested es) \<and> keyed mb'"
proof (induction es arbitrary: mb)
  case (Cons e es)
  from Cons.prems(2) obtain b1 mb1 where 1: "mailbox_step S X e mb = (Inr b1, mb1)"
    and rest: "(if b1 then mailbox_run S X es else retE False) mb1 = (Inr b, mb')" by (auto simp: bindE_run)
  from step_outstanding [OF Cons.prems(1) 1] have step: "outstanding mb1 \<subseteq># outstanding mb + requested e" "keyed mb1"
    by (simp_all split: if_splits)
  show ?case
  proof (cases b1)
    case True
    with rest Cons.IH [OF step(2)] have "outstanding mb' \<subseteq># outstanding mb1 + sum_list (map requested es)" "keyed mb'" by simp_all
    moreover have "outstanding mb1 + sum_list (map requested es) \<subseteq># outstanding mb + requested e + sum_list (map requested es)"
      using step(1) by (rule subset_mset.add_right_mono)
    ultimately have "outstanding mb' \<subseteq># outstanding mb + requested e + sum_list (map requested es)"
      by (blast intro: subset_mset.order_trans)
    with \<open>keyed mb'\<close> show ?thesis by (simp add: add.assoc)
  next
    case False
    with rest step have "outstanding mb' \<subseteq># outstanding mb + requested e" "keyed mb'" by (auto simp: run_simps)
    moreover have "outstanding mb + requested e \<subseteq># outstanding mb + requested e + sum_list (map requested es)" by simp
    ultimately have "outstanding mb' \<subseteq># outstanding mb + requested e + sum_list (map requested es)"
      by (blast intro: subset_mset.order_trans)
    with \<open>keyed mb'\<close> show ?thesis by (simp add: add.assoc)
  qed
qed (auto simp: run_simps)


section \<open>The loop of the mailbox returns\<close>

lemma commit_ready_returns:
  "length (mb_ready mb) < n \<Longrightarrow> is_ok (fst (commit_ready_loop n S mb))"
proof (induction n arbitrary: mb)
  case (Suc n)
  have stop: "is_ok (fst (mb_stop S rq mb))" for rq mb
    by (cases "mb_stop S rq mb") (auto simp: is_ok_def dest!: stop_outstanding)
  show ?case
  proof (cases "map_of (mb_ready mb) (mb_next_sequence mb)")
    case (Some e)
    obtain i rq out where e: "e = (i, rq, out)" by (cases e)
    have "length (AList.delete (mb_next_sequence mb) (mb_ready mb)) < length (mb_ready mb)"
      using length_filter_less [of "(mb_next_sequence mb, e)" "mb_ready mb"] map_of_SomeD [OF Some] by (auto simp: AList.delete_eq)
    with Suc show ?thesis
      by (auto simp: Some e bindE_def onM_def tryE_def zoomE_def mb_finish_def mb_release_def stop
          split: prod.split sum.split execution_result.split)
  qed (simp add: bindE_def)
qed simp

lemma step_returns: "is_ok (fst (mailbox_step S X ev mb))"
proof -
  have stop: "is_ok (fst (mb_stop S rq mb))" for rq mb
    by (cases "mb_stop S rq mb") (auto simp: is_ok_def dest!: stop_outstanding)
  have start: "is_ok (fst (mb_start S rq p mb))" for rq p mb
    by (auto simp: mb_start_def bindE_def mb_finish_def stop split: sum.split prepared_invocation.split)
  have answer: "is_ok (fst (mb_answer i rq v mb))" for i rq v mb
    by (auto simp: mb_answer_def bindE_def mb_finish_def mb_release_def)
  have ready: "is_ok (fst (commit_ready S mb))" for mb
    using commit_ready_returns [of mb "Suc (length (mb_ready mb))" S] by (simp add: commit_ready_def bindE_def del: commit_ready_loop.simps)
  have onM: "is_ok (fst (bindE (onM m) f mb))" if "\<And>x mb. is_ok (fst (f x mb))" for m :: "('a actor_runtime, 'b) eff" and f and mb
    using that by (auto simp: bindE_def onM_def tryE_def zoomE_def split: prod.split)
  have admit: "is_ok (fst (mb_admit S rq a mb))" for rq a mb
    unfolding mb_admit_def mb_activate_def
    by (auto intro!: onM start simp: bindE_def [of "modE _"] bindE_def [of "mb_finish _ _"] mb_finish_def split: actor_operation.split)
  have executed: "is_ok (fst (mb_executed S i rq r mb))" for i rq r mb
    unfolding mb_executed_def mb_interleave_def mb_failed_def mb_serial_def
    by (auto intro!: onM answer stop simp: bindE_def [of "modE _"] bindE_def [of "getE _"] ready split: sum.split method_outcome.split)
  show ?thesis
    unfolding mailbox_step_def
    by (auto intro!: onM admit executed simp: bindE_def [of "modE _"] bindE_def [of "getE _"] split: mailbox_event.split option.split)
qed

lemma run_returns: "\<exists>b mb'. mailbox_run S X events mb = (Inr b, mb')"
proof (induction events arbitrary: mb)
  case (Cons ev events)
  obtain b mb1 where "mailbox_step S X ev mb = (Inr b, mb1)"
    using step_returns [of S X ev mb] by (cases "mailbox_step S X ev mb") (auto dest: is_okE)
  with Cons show ?case by (cases b) (auto intro: exI [of _ False])
qed auto

definition is_execute :: "actor_event \<Rightarrow> bool" where
  "is_execute e = (case e of EvExecute _ _ _ \<Rightarrow> True | _ \<Rightarrow> False)"

lemma executes_keep: "ledger_run J (Some L) es L' \<Longrightarrow> list_all (\<lambda>e. is_acquire e \<or> is_execute e) es \<Longrightarrow> L' = Some L"
  by (induction "Some L" es L' rule: ledger_run.induct)
    (auto simp: is_acquire_def is_execute_def elim!: ledger_acquireE elim: ledger_executeE split: actor_event.splits)

lemma attempt_next:
  "ledger_run J None es L' \<Longrightarrow> L' = Some L \<Longrightarrow> lg_attempt L = Some (w, k, s, st) \<Longrightarrow> next_snapshot J (lg_epoch L) L s st"
proof (induction "None :: ledger option" es L' arbitrary: L rule: ledger_run.induct)
  case (run_snoc es L1 e L2)
  from run_snoc.hyps(3) show ?case
    using run_snoc.hyps(2) run_snoc.prems
    by (cases rule: ledger_step.cases) (auto simp: ledger_of_def started_def committed_def next_snapshot_def split: sum.splits if_splits)
qed simp

lemma writes_step:
  assumes run: "ledger_run J None (xs @ EvWrite p b True # ys @ EvWrite p' b' ok # zs) L"
    and ys: "list_all (\<lambda>e. is_acquire e \<or> is_execute e) ys"
  shows "\<exists>s s'. b = snapshot_to_vec J s \<and> b' = snapshot_to_vec J s' \<and> checked_add (ss_state_version s) 1 = Some (ss_state_version s') \<and>
    ss_owner_epoch s' = ss_owner_epoch s"
proof -
  from run obtain L0 L1 L2 L3 where x: "ledger_run J None xs L0" and w: "ledger_step J L0 (EvWrite p b True) L1"
    and y: "ledger_run J L1 ys L2" and e: "ledger_step J L2 (EvWrite p' b' ok) L3" by (auto simp: ledger_run_append ledger_run_Cons)
  from w obtain M s st where L0: "L0 = Some M" and b: "b = snapshot_to_vec J s" and L1: "L1 = Some (committed M s st)"
    and n: "lg_attempt M = None \<and> next_snapshot J (lg_epoch M) M s st \<or> lg_attempt M = Some (wp_stream p, wp_object_name p, s, st)"
    by (auto elim!: ledger_writeE)
  have "next_snapshot J (lg_epoch M) M s st" using n attempt_next [OF x L0] by auto
  moreover from executes_keep [OF _ ys] y L1 have "L2 = Some (committed M s st)" by simp
  ultimately obtain s' where "b' = snapshot_to_vec J s'" "checked_add (ss_state_version s) 1 = Some (ss_state_version s')"
    "ss_owner_epoch s' = ss_owner_epoch s"
    using e by (auto elim!: ledger_writeE simp: committed_def next_snapshot_def)
  with b show ?thesis by blast
qed

section \<open>The properties\<close>

text \<open>The mailbox with its own services and executor, recording what it loads and writes.\<close>

definition logged_mailbox :: "'e actor_services \<Rightarrow> mailbox_event list \<Rightarrow> 'e \<Rightarrow> bool result \<times> ('e \<times> actor_event list) mailbox" where
  "logged_mailbox S events e =
     mailbox_run (logged S) (\<lambda>op' st. keep_log (execute_operation S op' st)) events (new_mailbox (new_actor_runtime (e, [])))"

definition logged_task :: "'e actor_services \<Rightarrow> (bool \<times> actor_request) list \<Rightarrow> 'e \<Rightarrow> ('e \<times> actor_event list) actor_task" where
  "logged_task S requests e = snd (run_actor (logged S) requests (new_task (e, [])))"

text \<open>
  C2: Whatever the storage, the executor and the transport answer, and in whatever order executions return,
  requests arrive and permissions are given, what a mailbox loads and writes is a history of the ledger: it writes
  only the next version of the state it loaded or committed, under its own epoch, and while the outcome of a write is
  unknown it writes nothing but the same snapshot under the same name.
\<close>

theorem mailbox_keeps_ledger: "\<exists>L. ledger_run (sv_snapshots S) None (mb_log (snd (logged_mailbox S events e))) L"
  using run_post [OF refl new_mailbox_inv] unfolding logged_mailbox_def mailbox_post_def recorded_def
  by (metis prod.collapse)


text \<open>
  C22: A mailbox answers a request at most once: the replies it has sent are among the requests it was given,
  with their multiplicities.
\<close>

theorem answered_at_most_once:
  "mset (map cm_reply (mb_completed (snd (mailbox_run S X events (new_mailbox rt))))) \<subseteq># sum_list (map requested events)"
proof -
  obtain b mb where run: "mailbox_run S X events (new_mailbox rt) = (Inr b, mb)" using run_returns by blast
  have "keyed (new_mailbox rt)" "outstanding (new_mailbox rt) = {#}" by (simp_all add: keyed_def outstanding_def new_mailbox_def)
  with run_outstanding [OF _ run] have "outstanding mb \<subseteq># sum_list (map requested events)" by simp
  moreover have "mset (map cm_reply (mb_completed mb)) \<subseteq># outstanding mb" by (simp add: outstanding_def)
  ultimately show ?thesis using run subset_mset.order_trans by fastforce
qed



text \<open>
  C3: An invocation that completes leaves no write in flight, and either its result is the last committed
  result of its request, or the executor ran it and the state it returned is the committed state of the epoch.
\<close>

theorem completed_is_committed:
  assumes "invoke_actor (logged S) i n (at_runtime (logged_task S requests e)) = (Inr (Completed v effects), rt)"
  shows "\<exists>L. ledger_run (sv_snapshots S) None (snd (ar_env rt)) (Some L) \<and> lg_epoch L = n \<and> lg_attempt L = None \<and>
    (lg_last L = Some (inv_request_id i, v) \<or>
     (\<exists>st st'. EvExecute (inv_request_id i) st (Some (v, st')) \<in> set (snd (ar_env rt)) \<and> lg_state L = Some st'))"
proof -
  obtain t where t: "run_actor (logged S) requests (new_task (e, [])) = (Inr (), t)" "task_inv (sv_snapshots S) t"
    by (rule run_actor_total [OF refl])
  then have "onA (rt_inv (sv_snapshots S)) (at_runtime (logged_task S requests e))" by (simp add: logged_task_def task_inv_def)
  from tripleD_Ok [OF invoke_actor_tracked [OF refl] this assms]
  have "onA (answered (sv_snapshots S) n (inv_request_id i) (Completed v effects)) rt" .
  then show ?thesis
    by (auto simp: onA_def answered_def settled_def tracked_def agrees_def ledger_of_def cached_replay_def split: if_splits option.splits)
qed


section \<open>Witnesses\<close>

text \<open>Services over a list of the outcomes of the next writes, and an executor that returns a new state each time.\<close>

definition demo_snapshots :: snapshot_codec where
  "demo_snapshots = \<lparr>to_raw_value = (\<lambda>v. case v of JObj ((k, _) # _) \<Rightarrow> ''{'' @ k | _ \<Rightarrow> ''{''),
     from_raw_value = (\<lambda>_. None), snapshot_to_vec = (\<lambda>s. ss_request_id s @ ss_state s), snapshot_from_slice = (\<lambda>_. None)\<rparr>"

definition demo_plan :: "u64 \<Rightarrow> u64 \<Rightarrow> write_plan" where
  "demo_plan epoch version = \<lparr>wp_stream = \<lparr>rs_session = ''s'', rs_prefix = ''p'', rs_owner_epoch = epoch, rs_base_version = 0\<rparr>,
     wp_state_version = version + 1, wp_object_name = ''o'', wp_expires_at_ms = 9000, wp_replication = None\<rparr>"

definition demo_services :: "bool list actor_services" where
  "demo_services =
     \<lparr>sv_host = ''h'', sv_snapshots = demo_snapshots,
      sv_sockets = \<lparr>json_to_vec = (\<lambda>_. []), effect_to_vec = (\<lambda>_. []), standard_decode = (\<lambda>_. None)\<rparr>,
      sv_unix_millis = retE 0, x_supports = (\<lambda>_. True), x_hydrate = (\<lambda>_ _. retE ()),
      x_invoke = (\<lambda>i st. retE (MCompleted JNull (JObj [(inv_request_id i, JNull)]) [])),
      x_handle_socket = (\<lambda>_ _. retE (SHandled JNull [])), x_evict = (\<lambda>_. retE ()),
      s_acquire = (\<lambda>_ _. retE \<lparr>act_owner_epoch = 1, act_state_version = 0, act_state = None\<rparr>),
      s_load_state = (\<lambda>_ _ _. retE (0, [])), s_ensure_authority = retE (),
      s_prepare_write = (\<lambda>_ _ epoch version. retE (demo_plan epoch version)),
      s_write_snapshot = (\<lambda>_ _ outcomes. case outcomes of [] \<Rightarrow> (Ok Written, []) | ok # rest \<Rightarrow> (if ok then Ok Written else Err (Msg ''lost''), rest)),
      s_publish = (\<lambda>_ _. retE ())\<rparr>"

definition demo_invocation :: "string \<Rightarrow> actor_invocation" where
  "demo_invocation r = \<lparr>inv_request_id = r, inv_actor = \<lparr>project_id = ''p'', actor_name = ''a'', actor_id = ''i''\<rparr>, inv_method = ''m'', inv_args = []\<rparr>"

definition demo_request :: "nat \<Rightarrow> string \<Rightarrow> actor_request" where
  "demo_request k r = \<lparr>rq_reply = k, rq_operation = OpMethod (demo_invocation r), rq_owner_epoch = 1\<rparr>"

definition demo_state :: "string \<Rightarrow> json" where
  "demo_state r = JObj [(r, JNull)]"

lemma demo_task_log:
  "at_log (logged_task demo_services [(True, demo_request 0 ''x''), (True, demo_request 1 ''y'')] [False, False]) =
     [EvLoad 1 (Ok (0, [])), EvExecute ''x'' None (Some (JNull, demo_state ''x''))] @ EvWrite (demo_plan 1 0) ''x{x'' False # [] @
     EvWrite (demo_plan 1 0) ''x{x'' False # []"
  by code_simp


lemma demo_mailbox_log:
  "mb_log (snd (logged_mailbox demo_services [MRequest (demo_request 0 ''x'') True, MExecuted 1, MRequest (demo_request 1 ''y'') True, MExecuted 2] [])) =
     [EvLoad 1 (Ok (0, []))] @ EvWrite (demo_plan 1 0) ''x{x'' True # [] @
     EvWrite (demo_plan 1 1\<lparr>wp_object_name := stream_object (wp_stream (demo_plan 1 0)) 2\<rparr>) ''y{y'' True # []"
  by code_simp


lemma demo_completed:
  "\<exists>rt. invoke_actor (logged demo_services) (demo_invocation ''x'') 1 (at_runtime (logged_task demo_services [] [])) = (Inr (Completed JNull []), rt) \<and>
     snd (ar_env rt) = [EvLoad 1 (Ok (0, [])), EvExecute ''x'' None (Some (JNull, demo_state ''x'')), EvWrite (demo_plan 1 0) ''x{x'' True]"
proof -
  have "let w = invoke_actor (logged demo_services) (demo_invocation ''x'') 1 (at_runtime (logged_task demo_services [] [])) in
    fst w = Inr (Completed JNull []) \<and>
    snd (ar_env (snd w)) = [EvLoad 1 (Ok (0, [])), EvExecute ''x'' None (Some (JNull, demo_state ''x'')), EvWrite (demo_plan 1 0) ''x{x'' True]"
    by code_simp
  then show ?thesis by (metis prod.collapse)
qed

theorem completed_is_committed_witness:
  "\<exists>L. ledger_run demo_snapshots None
      [EvLoad 1 (Ok (0, [])), EvExecute ''x'' None (Some (JNull, demo_state ''x'')), EvWrite (demo_plan 1 0) ''x{x'' True] (Some L) \<and>
    lg_epoch L = 1 \<and> lg_attempt L = None \<and> (lg_last L = Some (''x'', JNull) \<or> lg_state L = Some (demo_state ''x''))"
  using demo_completed completed_is_committed [of demo_services "demo_invocation ''x''" 1 "[]" "[]" JNull "[]"]
  by (fastforce simp: demo_services_def demo_invocation_def)

end
