(* ===== verification/Replica_Access.thy ===== *)
theory Replica_Access
  imports State_Log
begin

text \<open>
  Capabilities for replica storage: \<^verbatim>\<open>src/replication/access.rs\<close> (grants signed into URLs and their
  verification), \<^verbatim>\<open>src/grpc/transport.rs\<close> (capability URLs and bearer credentials of gRPC requests),
  \<^verbatim>\<open>src/replication/wire.rs\<close> (the protocol-buffer forms of heads) and \<open>grant\<close> of
  \<^verbatim>\<open>src/bucket/peers.rs\<close>.

  The URL crate, JSON and the protocol-buffer messages are third-party or generated: \<open>url_lib\<close> has the
  URL operations the code calls and \<open>url_laws\<close> what it relies on; a \<open>grant_codec\<close> reads back what it
  wrote. An HMAC is a function of the key and the message, and verification compares with it.
\<close>

section \<open>Libraries\<close>

record url =
  url_scheme :: string
  url_username :: string
  url_password :: "string option"
  url_host :: "string option"
  url_path :: string
  url_query :: "string option"
  url_fragment :: "string option"

record url_lib =
  url_parse :: "string \<Rightarrow> url option"
  url_as_str :: "url \<Rightarrow> string"
  url_origin :: "url \<Rightarrow> string"
  query_pairs :: "url \<Rightarrow> (string \<times> string) list"
  uri_ok :: "string \<Rightarrow> bool"

record replica_grant =
  gr_stream :: "replica_stream option"
  gr_operation :: string
  gr_object :: string
  gr_region :: string
  gr_host_id :: string
  gr_expires_at_ms :: u64

record grant_codec =
  grant_to_vec :: "replica_grant \<Rightarrow> bytes"
  grant_from_slice :: "bytes \<Rightarrow> replica_grant option"

record libs =
  l_crypto :: crypto
  l_snapshots :: snapshot_codec
  l_url :: url_lib
  l_grants :: grant_codec

section \<open>Signed grants\<close>

record replica_access =
  ra_secret :: string

definition only_origin :: "url \<Rightarrow> bool" where
  "only_origin u \<longleftrightarrow>
     url_username u = [] \<and> url_password u = None \<and> url_query u = None \<and> url_fragment u = None \<and>
     url_path u = ''/'' \<and> url_host u \<noteq> None"

definition access_token :: "libs \<Rightarrow> replica_access \<Rightarrow> replica_grant \<Rightarrow> string" where
  "access_token L access grant =
     (let payload = b64_encode (l_crypto L) (grant_to_vec (l_grants L) grant);
          signature = b64_encode (l_crypto L) (hmac_sign (l_crypto L) (ra_secret access) payload)
      in payload @ ''.'' @ signature)"

definition access_url :: "libs \<Rightarrow> replica_access \<Rightarrow> string \<Rightarrow> replica_grant \<Rightarrow> string result" where
  "access_url L access origin grant =
     bindR (ok_or (url_parse (l_url L) origin) ''invalid URL'') (\<lambda>url.
     bindR (ensure (only_origin url) ''invalid replica origin'') (\<lambda>_.
     bindR (if url_scheme url = ''http'' then Ok ''grpc''
            else if url_scheme url = ''https'' then Ok ''grpcs''
            else Err (Msg ''replica origin must be HTTP or HTTPS'')) (\<lambda>scheme.
     let address = replace_first (url_origin (l_url L) url) (url_scheme url) scheme
     in Ok (address @ ''?token='' @ access_token L access grant))))"

definition verify_any ::
    "libs \<Rightarrow> replica_access \<Rightarrow> u64 result \<Rightarrow> string \<Rightarrow> string list \<Rightarrow> replica_grant result" where
  "verify_any L access now token operations =
     bindR (ensure (length token \<le> 16 * 1024) ''replica capability is too large'') (\<lambda>_.
     bindR (ok_or (split_once (CHR ''.'') token) ''invalid replica capability'') (\<lambda>(payload, signature).
     bindR (ok_or (b64_decode (l_crypto L) signature) ''invalid base64'') (\<lambda>tag.
     bindR (ensure (tag = hmac_sign (l_crypto L) (ra_secret access) payload) ''invalid replica signature'') (\<lambda>_.
     bindR (ok_or (b64_decode (l_crypto L) payload) ''invalid base64'') (\<lambda>bytes.
     bindR (ok_or (grant_from_slice (l_grants L) bytes) ''invalid JSON'') (\<lambda>grant.
     bindR (ensure (gr_operation grant \<in> set operations) ''replica operation is not authorized'') (\<lambda>_.
     bindR now (\<lambda>now.
     bindR (ensure (now < gr_expires_at_ms grant) ''replica capability expired'') (\<lambda>_.
     bindR (ensure (starts_with (gr_object grant) ROOT \<and> length (gr_object grant) \<le> 1024)
       ''invalid replica object'') (\<lambda>_.
     bindR (ensure (case gr_stream grant of None \<Rightarrow> True
         | Some stream \<Rightarrow> rs_prefix stream = gr_object grant \<and>
             starts_with (rs_session stream) (ROOT @ ''hosts/'') \<and> 0 < rs_owner_epoch stream)
       ''replica stream does not match its capability'') (\<lambda>_.
     bindR (validate_region (gr_region grant)) (\<lambda>_. Ok grant))))))))))))"

definition access_verify ::
    "libs \<Rightarrow> replica_access \<Rightarrow> u64 result \<Rightarrow> string \<Rightarrow> string \<Rightarrow> replica_grant result" where
  "access_verify L access now token operation = verify_any L access now token [operation]"

definition grant :: "u64 result \<Rightarrow> string \<Rightarrow> string \<Rightarrow> string \<Rightarrow> u64 \<Rightarrow> replica_grant result" where
  "grant now operation region object duration_ms =
     bindR now (\<lambda>now.
     Ok \<lparr>gr_stream = None, gr_operation = operation, gr_object = object, gr_region = region,
       gr_host_id = [], gr_expires_at_ms = saturating_add now duration_ms\<rparr>)"

section \<open>gRPC requests\<close>

definition endpoint :: "url_lib \<Rightarrow> string \<Rightarrow> unit result" where
  "endpoint U origin =
     bindR (ok_or (url_parse U origin) ''invalid URL'') (\<lambda>url.
     bindR (ensure ((url_scheme url = ''http'' \<or> url_scheme url = ''https'') \<and> only_origin url)
       ''invalid gRPC origin'') (\<lambda>_.
     ensure (uri_ok U origin) ''invalid URI''))"

definition capability_origin :: "url_lib \<Rightarrow> string \<Rightarrow> (string \<times> string) result" where
  "capability_origin U address =
     bindR (ok_or (url_parse U address) ''invalid URL'') (\<lambda>url.
     bindR (if url_scheme url = ''grpc'' then Ok ''http''
            else if url_scheme url = ''grpcs'' then Ok ''https''
            else Err (Msg ''storage capability must use grpc or grpcs'')) (\<lambda>scheme.
     bindR (case query_pairs U url of
         [(k, t)] \<Rightarrow> if k = ''token'' \<and> t \<noteq> [] then Ok t else Err (Msg ''storage capability requires one token'')
       | _ \<Rightarrow> Err (Msg ''storage capability requires one token'')) (\<lambda>token.
     let url = url\<lparr>url_query := None\<rparr> in
     bindR (ok_or (split_once (CHR '':'') (url_as_str U url)) ''missing capability scheme'') (\<lambda>(_, rest).
     bindR (ok_or (url_parse U (scheme @ '':'' @ rest)) ''invalid URL'') (\<lambda>origin.
     bindR (ensure (url_username url = [] \<and> url_password url = None \<and> url_fragment url = None)
       ''invalid storage capability authority'') (\<lambda>_.
     Ok (url_as_str U origin, token)))))))"

text \<open>The channel cache maps an origin to a channel that depends only on it.\<close>

definition capability :: "url_lib \<Rightarrow> string \<Rightarrow> (string \<times> string) result" where
  "capability U address =
     bindR (capability_origin U address) (\<lambda>(origin, token).
     bindR (endpoint U origin) (\<lambda>_. Ok (origin, token)))"

definition header_text :: "string \<Rightarrow> bool" where
  "header_text s = list_all (\<lambda>c. 32 \<le> byte c \<and> byte c < 127 \<or> byte c = 9) s"

definition grpc_request :: "string \<Rightarrow> string result" where
  "grpc_request token =
     bindR (ensure (header_text (''Bearer '' @ token)) ''invalid gRPC credential'') (\<lambda>_.
     Ok (''Bearer '' @ token))"

definition grpc_token :: "string option \<Rightarrow> string result" where
  "grpc_token authorization =
     (case authorization of
        Some value \<Rightarrow>
          (if header_text value then
             (case strip_prefix value ''Bearer '' of
                Some t \<Rightarrow> if t \<noteq> [] then Ok t else Err (Status Unauthenticated ''storage credential is required'')
              | None \<Rightarrow> Err (Status Unauthenticated ''storage credential is required''))
           else Err (Status Unauthenticated ''storage credential is required''))
      | None \<Rightarrow> Err (Status Unauthenticated ''storage credential is required''))"

definition unavailable :: "error \<Rightarrow> error" where
  "unavailable e = Status Unavailable ''storage operation failed''"

section \<open>The messages of heads\<close>

record proto_stream =
  ps_session :: string
  ps_prefix :: string
  ps_owner_epoch :: u64
  ps_base_version :: u64

record proto_snapshot_ref =
  psr_object :: string
  psr_state_version :: u64
  psr_request_id :: string
  psr_digest :: string

record proto_stream_head =
  psh_stream :: "proto_stream option"
  psh_latest :: "proto_snapshot_ref option"

record proto_session_head =
  pse_session :: string
  pse_initialized :: bool
  pse_sealed :: bool
  pse_streams :: "proto_stream_head list"

definition stream_to_proto :: "replica_stream \<Rightarrow> proto_stream" where
  "stream_to_proto s = \<lparr>ps_session = rs_session s, ps_prefix = rs_prefix s,
     ps_owner_epoch = rs_owner_epoch s, ps_base_version = rs_base_version s\<rparr>"

definition stream_from_proto :: "proto_stream \<Rightarrow> replica_stream" where
  "stream_from_proto s = \<lparr>rs_session = ps_session s, rs_prefix = ps_prefix s,
     rs_owner_epoch = ps_owner_epoch s, rs_base_version = ps_base_version s\<rparr>"

definition ref_to_proto :: "snapshot_ref \<Rightarrow> proto_snapshot_ref" where
  "ref_to_proto r = \<lparr>psr_object = sr_object r, psr_state_version = sr_state_version r,
     psr_request_id = sr_request_id r, psr_digest = sr_digest r\<rparr>"

definition ref_from_proto :: "proto_snapshot_ref \<Rightarrow> snapshot_ref" where
  "ref_from_proto r = \<lparr>sr_object = psr_object r, sr_state_version = psr_state_version r,
     sr_request_id = psr_request_id r, sr_digest = psr_digest r\<rparr>"

definition head_to_proto :: "stream_head \<Rightarrow> proto_stream_head" where
  "head_to_proto h = \<lparr>psh_stream = Some (stream_to_proto (sth_stream h)),
     psh_latest = map_option ref_to_proto (sth_latest h)\<rparr>"

definition head_from_proto :: "proto_stream_head \<Rightarrow> stream_head result" where
  "head_from_proto h =
     bindR (ok_or (psh_stream h) ''replica stream is required'') (\<lambda>stream.
     Ok \<lparr>sth_stream = stream_from_proto stream, sth_latest = map_option ref_from_proto (psh_latest h)\<rparr>)"

definition session_to_proto :: "session_head \<Rightarrow> proto_session_head" where
  "session_to_proto h = \<lparr>pse_session = seh_session h, pse_initialized = seh_initialized h,
     pse_sealed = seh_sealed h, pse_streams = map head_to_proto (seh_streams h)\<rparr>"

definition session_from_proto :: "proto_session_head \<Rightarrow> session_head result" where
  "session_from_proto h =
     bindR (all_ok (map head_from_proto (pse_streams h))) (\<lambda>streams.
     Ok \<lparr>seh_session = pse_session h, seh_initialized = pse_initialized h,
       seh_sealed = pse_sealed h, seh_streams = streams\<rparr>)"

section \<open>Laws of the libraries\<close>

definition token_char :: "char \<Rightarrow> bool" where
  "token_char c \<longleftrightarrow> b64_char c \<or> c = CHR ''.''"

text \<open>
  The origin of an HTTP URL without credentials, path, query and fragment is its scheme and its
  authority. It parses to such a URL again, whose text is stable, and under another scheme with a
  token query it parses to the same authority and that query.
\<close>

definition token_url :: "url_lib \<Rightarrow> string \<Rightarrow> string \<Rightarrow> string \<Rightarrow> url \<Rightarrow> bool" where
  "token_url U auth g t v \<longleftrightarrow>
     url_parse U (g @ ''://'' @ auth @ ''?token='' @ t) = Some v \<and> url_scheme v = g \<and>
     url_username v = [] \<and> url_password v = None \<and> url_fragment v = None \<and>
     query_pairs U v = [(''token'', t)] \<and> url_as_str U (v\<lparr>url_query := None\<rparr>) = g @ ''://'' @ auth"

definition origin_laws :: "url_lib \<Rightarrow> url \<Rightarrow> string \<Rightarrow> bool" where
  "origin_laws U u auth \<longleftrightarrow>
     url_origin U u = url_scheme u @ ''://'' @ auth \<and>
     (\<exists>v. url_parse U (url_origin U u) = Some v \<and> url_scheme v = url_scheme u \<and> only_origin v \<and>
        url_parse U (url_as_str U v) = Some v \<and> uri_ok U (url_as_str U v)) \<and>
     (\<forall>g t. g = ''grpc'' \<or> g = ''grpcs'' \<longrightarrow> t \<noteq> [] \<longrightarrow> list_all token_char t \<longrightarrow> (\<exists>v. token_url U auth g t v))"

definition url_laws :: "url_lib \<Rightarrow> bool" where
  "url_laws U \<longleftrightarrow>
     (\<forall>s u. url_parse U s = Some u \<longrightarrow> only_origin u \<longrightarrow> url_scheme u = ''http'' \<or> url_scheme u = ''https'' \<longrightarrow>
        (\<exists>auth. origin_laws U u auth))"

definition grant_codec_laws :: "grant_codec \<Rightarrow> bool" where
  "grant_codec_laws G \<longleftrightarrow> (\<forall>g. grant_from_slice G (grant_to_vec G g) = Some g \<and> grant_to_vec G g \<noteq> [])"

definition libs_laws :: "libs \<Rightarrow> bool" where
  "libs_laws L \<longleftrightarrow> b64_laws (l_crypto L) \<and> url_laws (l_url L) \<and> grant_codec_laws (l_grants L)"

text \<open>The origin under which the server of a replica URL is reached.\<close>

definition replica_origin :: "url_lib \<Rightarrow> string \<Rightarrow> string option" where
  "replica_origin U s =
     (case url_parse U s of None \<Rightarrow> None
      | Some u \<Rightarrow> map_option (url_as_str U) (url_parse U (url_origin U u)))"

text \<open>What a verified grant satisfies.\<close>

definition grant_ok :: "u64 \<Rightarrow> string list \<Rightarrow> replica_grant \<Rightarrow> bool" where
  "grant_ok now operations g \<longleftrightarrow>
     gr_operation g \<in> set operations \<and> now < gr_expires_at_ms g \<and>
     starts_with (gr_object g) ROOT \<and> length (gr_object g) \<le> 1024 \<and>
     (\<forall>st. gr_stream g = Some st \<longrightarrow> rs_prefix st = gr_object g \<and>
        starts_with (rs_session st) (ROOT @ ''hosts/'') \<and> 0 < rs_owner_epoch st) \<and>
     validate_region (gr_region g) = Ok ()"

section \<open>Facts about capabilities\<close>

lemma b64_alphabet: "b64_laws C \<Longrightarrow> list_all b64_char (b64_encode C x)"
  by (simp add: b64_laws_def)

lemma b64_no_dot: "b64_laws C \<Longrightarrow> CHR ''.'' \<notin> set (b64_encode C x)"
  using b64_alphabet [of C x]
  by (auto simp: list_all_iff b64_char_def is_alphanumeric_def is_digit_def is_lower_def is_upper_def)

lemma b64_decode_encode: "b64_laws C \<Longrightarrow> b64_decode C (b64_encode C x) = Some x"
  by (simp add: b64_laws_def)

lemma access_token_chars: "libs_laws L \<Longrightarrow> list_all token_char (access_token L a g)"
  using b64_alphabet [of "l_crypto L"]
  by (auto simp: access_token_def libs_laws_def Let_def token_char_def list_all_iff)

lemma access_token_nonempty: "access_token L a g \<noteq> []"
  by (simp add: access_token_def Let_def)

lemma token_char_range: "token_char c \<Longrightarrow> 32 \<le> byte c \<and> byte c < 127"
  by (auto simp: token_char_def b64_char_def is_alphanumeric_def is_digit_def is_lower_def is_upper_def)

lemma verify_any_Ok:
  "verify_any L a (Inr now) t ops = Inr g \<longleftrightarrow>
     length t \<le> 16 * 1024 \<and> grant_ok now ops g \<and>
     (\<exists>p sg bytes. split_once (CHR ''.'') t = Some (p, sg) \<and>
        b64_decode (l_crypto L) sg = Some (hmac_sign (l_crypto L) (ra_secret a) p) \<and>
        b64_decode (l_crypto L) p = Some bytes \<and> grant_from_slice (l_grants L) bytes = Some g)"
  unfolding verify_any_def grant_ok_def
  by (auto simp: result_simps split: prod.splits option.splits)

lemma verify_any_now: "verify_any L a now t ops = Inr g \<Longrightarrow> \<exists>n. now = Inr n"
  by (auto simp: verify_any_def result_simps split: prod.splits)

lemma verify_access_token:
  assumes "libs_laws L" "length (access_token L a g) \<le> 16 * 1024"
  shows "verify_any L a (Inr now) (access_token L a g) ops = Inr g' \<longleftrightarrow> grant_ok now ops g \<and> g' = g"
proof -
  let ?C = "l_crypto L"
  let ?p = "b64_encode ?C (grant_to_vec (l_grants L) g)"
  let ?s = "b64_encode ?C (hmac_sign ?C (ra_secret a) ?p)"
  have t: "access_token L a g = ?p @ CHR ''.'' # ?s" by (simp add: access_token_def Let_def)
  have "split_once (CHR ''.'') (access_token L a g) = Some (?p, ?s)"
    unfolding t using assms(1) by (intro split_once_append b64_no_dot) (simp add: libs_laws_def)
  with assms show ?thesis
    by (auto simp: verify_any_Ok libs_laws_def b64_decode_encode grant_codec_laws_def)
qed

lemma grpc_request_token:
  assumes "libs_laws L"
  shows "\<exists>h. grpc_request (access_token L a g) = Inr h \<and> grpc_token (Some h) = Inr (access_token L a g)"
proof -
  have "header_text (access_token L a g)"
    using access_token_chars [OF assms, of a g] token_char_range
    by (auto simp: header_text_def list_all_iff)
  then have "header_text (''Bearer '' @ access_token L a g)" by (simp add: header_text_def)
  then show ?thesis by (simp add: grpc_request_def grpc_token_def access_token_nonempty)
qed

lemma capability_access_url:
  assumes L: "libs_laws L" and url: "access_url L a s g = Inr address"
  shows "\<exists>origin. replica_origin (l_url L) s = Some origin \<and>
    capability (l_url L) address = Inr (origin, access_token L a g)"
proof -
  let ?U = "l_url L" and ?t = "access_token L a g"
  obtain u sch where u: "url_parse ?U s = Some u" "only_origin u"
    and sch: "url_scheme u = ''http'' \<and> sch = ''grpc'' \<or> url_scheme u = ''https'' \<and> sch = ''grpcs''"
    and address: "address = replace_first (url_origin ?U u) (url_scheme u) sch @ ''?token='' @ ?t"
    using url by (auto simp: access_url_def result_simps Let_def split: if_splits)
  obtain auth where o: "origin_laws ?U u auth"
    using L u sch unfolding libs_laws_def url_laws_def by blast
  then obtain v where v: "url_parse ?U (url_scheme u @ ''://'' @ auth) = Some v" "url_scheme v = url_scheme u"
      "only_origin v" "url_parse ?U (url_as_str ?U v) = Some v" "uri_ok ?U (url_as_str ?U v)"
    and origin: "url_origin ?U u = url_scheme u @ ''://'' @ auth"
    unfolding origin_laws_def by auto
  have address': "address = sch @ ''://'' @ auth @ ''?token='' @ ?t"
    unfolding address origin using sch by (subst replace_first_prefix) auto
  have "\<exists>c. token_url ?U auth sch ?t c"
    using o sch access_token_nonempty [of L a g] access_token_chars [OF L, of a g] by (auto simp: origin_laws_def)
  then obtain c where c: "url_parse ?U address = Some c" "url_scheme c = sch" "url_username c = []"
      "url_password c = None" "url_fragment c = None" "query_pairs ?U c = [(''token'', ?t)]"
      "url_as_str ?U (c\<lparr>url_query := None\<rparr>) = sch @ ''://'' @ auth"
    unfolding token_url_def address' by blast
  have "split_once (CHR '':'') (sch @ ''://'' @ auth) = Some (sch, ''//'' @ auth)"
    using sch split_once_append [of "CHR '':''" sch "''//'' @ auth"] by auto
  with c v sch have "capability_origin ?U address = Inr (url_as_str ?U v, ?t)"
    by (auto simp: capability_origin_def access_token_nonempty)
  moreover have "endpoint ?U (url_as_str ?U v) = Inr ()"
    using v sch by (auto simp: endpoint_def)
  moreover have "replica_origin ?U s = Some (url_as_str ?U v)"
    using u v(1) origin by (simp add: replica_origin_def)
  ultimately show ?thesis by (simp add: capability_def)
qed

section \<open>Facts about messages\<close>

lemma stream_proto [simp]: "stream_from_proto (stream_to_proto s) = s"
  by (simp add: stream_from_proto_def stream_to_proto_def)

lemma ref_proto [simp]: "ref_from_proto (ref_to_proto r) = r"
  by (simp add: ref_from_proto_def ref_to_proto_def)

lemma head_proto [simp]: "head_from_proto (head_to_proto h) = Inr h"
proof -
  have "map_option (ref_from_proto \<circ> ref_to_proto) x = x" for x
    by (cases x) simp_all
  then show ?thesis by (simp add: head_from_proto_def head_to_proto_def option.map_comp)
qed

lemma session_proto [simp]: "session_from_proto (session_to_proto h) = Inr h"
proof -
  have "all_ok (map head_from_proto (map head_to_proto hs)) = Inr hs" for hs
    by (induction hs) simp_all
  then show ?thesis by (simp add: session_from_proto_def session_to_proto_def)
qed

end
