(* ===== verification/Replica_Store.thy ===== *)
theory Replica_Store
  imports State_Log
begin

text \<open>
  The store of a replica host, \<^verbatim>\<open>src/replication/store.rs\<close>: \<open>FileReplicaStore\<close> keeps full snapshots as
  blobs in a directory, the head of every stream, and the sessions with their seals.

  \<open>replica_store\<close> holds the memory of the process (\<open>StoreState\<close>) and its directory. A file holds the
  value that its JSON text encodes; a file under a final name is complete, because the code writes and
  syncs a pending file before it renames it. Every I/O call takes its outcome from a script: it
  succeeds, it fails, or the process stops there and every later call fails too. So a result of any
  operation is also the directory of a process that stopped at that point, and \<open>store_open\<close> on that
  directory is the restart.
\<close>

section \<open>The directory\<close>

record metadata =
  md_object :: string
  md_size :: u64

datatype replica_file =
    Blob metadata bytes
  | StreamFile stream_head
  | SessionFile session_head
  | OtherFile

datatype io = Io_ok | Io_error | Io_crash

record replica_store =
  st_capacity :: u64
  st_used :: u64
  st_snapshots :: "(string \<times> metadata) list"
  st_streams :: "(string \<times> stream_head) list"
  st_sessions :: "(string \<times> session_head) list"
  st_files :: "(string \<times> replica_file) list"
  st_faults :: "io list"
  st_crashed :: bool

definition rio :: "(replica_store, unit) eff" where
  "rio s =
     (if st_crashed s then (Err (Msg ''stopped''), s)
      else case st_faults s of
        [] \<Rightarrow> (Ok (), s)
      | Io_ok # fs \<Rightarrow> (Ok (), s\<lparr>st_faults := fs\<rparr>)
      | Io_error # fs \<Rightarrow> (Err (Msg ''input/output error''), s\<lparr>st_faults := fs\<rparr>)
      | Io_crash # fs \<Rightarrow> (Err (Msg ''stopped''), s\<lparr>st_faults := fs, st_crashed := True\<rparr>))"

definition digest_name :: "crypto \<Rightarrow> string \<Rightarrow> string" where
  "digest_name C object = b64_encode C (sha256 C object)"

definition blob_path :: "crypto \<Rightarrow> string \<Rightarrow> string" where
  "blob_path C object = digest_name C object @ ''.blob''"

definition stream_path :: "crypto \<Rightarrow> string \<Rightarrow> string" where
  "stream_path C object = digest_name C object @ ''.stream''"

definition session_file_path :: "crypto \<Rightarrow> string \<Rightarrow> string" where
  "session_file_path C object = digest_name C object @ ''.session''"

definition pending_prefix :: string where
  "pending_prefix = ''.pending-''"

text \<open>
  A pending file is written and synced, then renamed. When a step fails the temporary file is removed,
  unless the process has stopped; \<open>noclobber\<close> refuses an existing target.
\<close>

definition drop_pending :: "string \<Rightarrow> (replica_store, 'a) eff \<Rightarrow> (replica_store, 'a) eff" where
  "drop_pending name m s =
     (case m s of
        (Inr x, s') \<Rightarrow> (Inr x, s')
      | (Inl e, s') \<Rightarrow>
          (Inl e, if st_crashed s' then s' else s'\<lparr>st_files := AList.delete name (st_files s')\<rparr>))"

definition write_file :: "bool \<Rightarrow> string \<Rightarrow> replica_file \<Rightarrow> (replica_store, unit) eff" where
  "write_file noclobber path content =
     bindE rio (\<lambda>_.
     bindE (getE (\<lambda>s. pending_prefix @ show_radix 10 (length (st_files s)))) (\<lambda>name.
     bindE (modE (\<lambda>s. s\<lparr>st_files := AList.update name OtherFile (st_files s)\<rparr>)) (\<lambda>_.
     drop_pending name
      (bindE rio (\<lambda>_.
       bindE rio (\<lambda>_.
       bindE (getE (\<lambda>s. noclobber \<and> map_of (st_files s) path \<noteq> None)) (\<lambda>exists.
       if exists then failE ''file exists''
       else modE (\<lambda>s. s\<lparr>st_files := AList.update path content (AList.delete name (st_files s))\<rparr>))))))))"

definition read_blob :: "string \<Rightarrow> u64 \<Rightarrow> (replica_store, bytes) eff" where
  "read_blob path len =
     bindE rio (\<lambda>_.
     bindE (getE (\<lambda>s. map_of (st_files s) path)) (\<lambda>f.
     case f of
       Some (Blob m bytes) \<Rightarrow>
         bindE (liftE (ensure (word_of_nat (length bytes) = len) ''incomplete replica blob'')) (\<lambda>_. retE bytes)
     | _ \<Rightarrow> failE ''no such file''))"

section \<open>The operations of the store state\<close>

definition put :: "crypto \<Rightarrow> metadata \<Rightarrow> bytes \<Rightarrow> (replica_store, unit) eff" where
  "put C m bytes =
     bindE (getE (\<lambda>s. map_of (st_snapshots s) (md_object m))) (\<lambda>existing.
     case existing of
       Some old \<Rightarrow>
         bindE (read_blob (blob_path C (md_object m)) (md_size old)) (\<lambda>stored.
         bindE (liftE (ensure (stored = bytes) ''conflicting immutable snapshot'')) (\<lambda>_. rio))
     | None \<Rightarrow>
         bindE (getE st_used) (\<lambda>used.
         bindE (liftE (ok_or (checked_add used (md_size m)) ''replica size overflow'')) (\<lambda>used.
         bindE (getE st_capacity) (\<lambda>capacity.
         bindE (liftE (ensure (used \<le> capacity) ''replica storage is full'')) (\<lambda>_.
         bindE (write_file True (blob_path C (md_object m)) (Blob m bytes)) (\<lambda>_.
         bindE (modE (\<lambda>s. s\<lparr>st_used := used,
           st_snapshots := AList.update (md_object m) m (st_snapshots s)\<rparr>)) (\<lambda>_.
         rio)))))))"

definition head :: "replica_stream \<Rightarrow> replica_store \<Rightarrow> stream_head result" where
  "head stream s =
     (case map_of (st_streams s) (rs_prefix stream) of
        Some h \<Rightarrow> bindR (ensure (sth_stream h = stream) ''replica stream identity mismatch'') (\<lambda>_. Ok h)
      | None \<Rightarrow> Ok \<lparr>sth_stream = stream, sth_latest = None\<rparr>)"

definition session_of :: "string \<Rightarrow> replica_store \<Rightarrow> session_head" where
  "session_of session s =
     (case map_of (st_sessions s) session of
        Some h \<Rightarrow> h
      | None \<Rightarrow> \<lparr>seh_session = session, seh_initialized = False, seh_sealed = False, seh_streams = []\<rparr>)"

definition save_session :: "crypto \<Rightarrow> session_head \<Rightarrow> (replica_store, unit) eff" where
  "save_session C h =
     bindE (write_file False (session_file_path C (seh_session h)) (SessionFile h)) (\<lambda>_.
     bindE (modE (\<lambda>s. s\<lparr>st_sessions := AList.update (seh_session h) h (st_sessions s)\<rparr>)) (\<lambda>_.
     rio))"

definition save_head :: "crypto \<Rightarrow> stream_head \<Rightarrow> (replica_store, unit) eff" where
  "save_head C h =
     bindE (write_file False (stream_path C (rs_prefix (sth_stream h))) (StreamFile h)) (\<lambda>_.
     bindE (modE (\<lambda>s. s\<lparr>st_streams := AList.update (rs_prefix (sth_stream h)) h (st_streams s)\<rparr>)) (\<lambda>_.
     rio))"

text \<open>\<open>used\<close> is lowered by a wrapping subtraction; the invariant shows that it never wraps.\<close>

definition remove_blob :: "crypto \<Rightarrow> string \<Rightarrow> (replica_store, unit) eff" where
  "remove_blob C object =
     bindE rio (\<lambda>_.
     bindE (getE (\<lambda>s. map_of (st_files s) (blob_path C object))) (\<lambda>f.
     if f = None then failE ''no such file''
     else modE (\<lambda>s.
       let size = (case map_of (st_snapshots s) object of Some m \<Rightarrow> md_size m | None \<Rightarrow> 0) in
       s\<lparr>st_files := AList.delete (blob_path C object) (st_files s),
         st_snapshots := AList.delete object (st_snapshots s),
         st_used := st_used s - size\<rparr>)))"

definition prune_stream :: "crypto \<Rightarrow> stream_head \<Rightarrow> (replica_store, unit) eff" where
  "prune_stream C h =
     (case sth_latest h of
        None \<Rightarrow> retE ()
      | Some latest \<Rightarrow>
          bindE (getE (\<lambda>s. filter (\<lambda>object. starts_with object (rs_prefix (sth_stream h)) \<and> object \<noteq> sr_object latest)
            (map fst (st_snapshots s)))) (\<lambda>obsolete.
          if obsolete = [] then retE ()
          else bindE (forE obsolete (remove_blob C)) (\<lambda>_. rio)))"

definition append_new ::
    "crypto \<Rightarrow> stream_head \<Rightarrow> snapshot_ref \<Rightarrow> bytes \<Rightarrow> (replica_store, unit) eff" where
  "append_new C h snapshot bytes =
     bindE (put C \<lparr>md_object = sr_object snapshot, md_size = word_of_nat (length bytes)\<rparr> bytes) (\<lambda>_.
     let h = h\<lparr>sth_latest := Some snapshot\<rparr> in
     bindE (save_head C h) (\<lambda>_. prune_stream C h))"

definition store_append ::
    "crypto \<Rightarrow> snapshot_codec \<Rightarrow> replica_stream \<Rightarrow> bytes \<Rightarrow> (replica_store, unit) eff" where
  "store_append C J stream bytes =
     bindE (getE (head stream)) (\<lambda>h. bindE (liftE h) (\<lambda>h.
     bindE (getE (session_of (rs_session stream))) (\<lambda>session.
     bindE (liftE (ensure (seh_initialized session \<and> \<not> seh_sealed session)
       ''replica session is absent or sealed'')) (\<lambda>_.
     bindE (liftE (stream_snapshot C J stream bytes)) (\<lambda>snapshot.
     case sth_latest h of
       Some latest \<Rightarrow>
         bindE (liftE (ensure (sr_state_version latest \<le> sr_state_version snapshot)
           ''replica write is out of order'')) (\<lambda>_.
         if sr_state_version snapshot = sr_state_version latest then
           bindE (liftE (ensure (snapshot = latest) ''conflicting immutable snapshot'')) (\<lambda>_.
           bindE rio (\<lambda>_. prune_stream C h))
         else append_new C h snapshot bytes)
     | None \<Rightarrow> append_new C h snapshot bytes)))))"

section \<open>The trait \<open>ReplicaStore\<close>\<close>

definition store_initialize_session :: "crypto \<Rightarrow> string \<Rightarrow> (replica_store, unit) eff" where
  "store_initialize_session C session =
     bindE (getE (session_of session)) (\<lambda>h.
     bindE (liftE (ensure (\<not> seh_sealed h) ''replica session is sealed'')) (\<lambda>_.
     save_session C (h\<lparr>seh_initialized := True\<rparr>)))"

definition store_stream_head :: "replica_stream \<Rightarrow> (replica_store, stream_head) eff" where
  "store_stream_head stream =
     bindE (getE (session_of (rs_session stream))) (\<lambda>h.
     bindE (liftE (ensure (seh_initialized h) ''replica session is absent'')) (\<lambda>_.
     bindE (getE (head stream)) liftE))"

definition store_seal_session :: "crypto \<Rightarrow> string \<Rightarrow> (replica_store, session_head) eff" where
  "store_seal_session C session =
     bindE (getE (session_of session)) (\<lambda>h.
     let h = h\<lparr>seh_sealed := True\<rparr> in
     bindE (save_session C h) (\<lambda>_.
     bindE (getE (\<lambda>s. filter (\<lambda>h. rs_session (sth_stream h) = session) (map snd (st_streams s)))) (\<lambda>streams.
     retE (h\<lparr>seh_streams := sort_key (\<lambda>h. rs_prefix (sth_stream h)) streams\<rparr>))))"

definition store_put :: "crypto \<Rightarrow> string \<Rightarrow> bytes \<Rightarrow> (replica_store, unit) eff" where
  "store_put C object bytes = put C \<lparr>md_object = object, md_size = word_of_nat (length bytes)\<rparr> bytes"

definition store_read :: "crypto \<Rightarrow> string \<Rightarrow> (replica_store, bytes option) eff" where
  "store_read C object =
     bindE (getE (\<lambda>s. map_of (st_snapshots s) object)) (\<lambda>m.
     case m of None \<Rightarrow> retE None
     | Some m \<Rightarrow> bindE (read_blob (blob_path C object) (md_size m)) (\<lambda>b. retE (Some b)))"

section \<open>Opening a directory\<close>

definition has_ext :: "string \<Rightarrow> string \<Rightarrow> bool" where
  "has_ext path ext =
     (case strip_suffix path (''.'' @ ext) of Some stem \<Rightarrow> stem \<noteq> [] | None \<Rightarrow> False)"

definition load_blob :: "metadata \<Rightarrow> (replica_store, unit) eff" where
  "load_blob m =
     bindE (getE st_used) (\<lambda>used.
     bindE (liftE (ok_or (checked_add used (md_size m)) ''replica size overflow'')) (\<lambda>used.
     modE (\<lambda>s. s\<lparr>st_used := used, st_snapshots := AList.update (md_object m) m (st_snapshots s)\<rparr>)))"

definition restore_entry :: "crypto \<Rightarrow> string \<times> replica_file \<Rightarrow> (replica_store, unit) eff" where
  "restore_entry C entry =
     (case entry of (path, content) \<Rightarrow>
      if starts_with path pending_prefix then
        bindE rio (\<lambda>_. modE (\<lambda>s. s\<lparr>st_files := AList.delete path (st_files s)\<rparr>))
      else if has_ext path ''session'' then
        bindE rio (\<lambda>_.
        case content of
          SessionFile h \<Rightarrow>
            bindE (liftE (ensure (path = session_file_path C (seh_session h)) ''invalid session metadata'')) (\<lambda>_.
            modE (\<lambda>s. s\<lparr>st_sessions := AList.update (seh_session h) h (st_sessions s)\<rparr>))
        | _ \<Rightarrow> failE ''invalid JSON'')
      else if has_ext path ''stream'' then
        bindE rio (\<lambda>_.
        case content of
          StreamFile h \<Rightarrow>
            bindE (liftE (ensure (path = stream_path C (rs_prefix (sth_stream h))) ''invalid stream metadata'')) (\<lambda>_.
            modE (\<lambda>s. s\<lparr>st_streams := AList.update (rs_prefix (sth_stream h)) h (st_streams s)\<rparr>))
        | _ \<Rightarrow> failE ''invalid JSON'')
      else if \<not> has_ext path ''blob'' then retE ()
      else
        bindE rio (\<lambda>_.
        case content of
          Blob m bytes \<Rightarrow>
            bindE (liftE (ensure (path = blob_path C (md_object m)) ''invalid replica blob metadata'')) (\<lambda>_.
            bindE (liftE (ensure (word_of_nat (length bytes) = md_size m) ''incomplete replica blob'')) (\<lambda>_.
            load_blob m))
        | _ \<Rightarrow> failE ''invalid JSON''))"

definition restore :: "crypto \<Rightarrow> (replica_store, unit) eff" where
  "restore C =
     bindE rio (\<lambda>_.
     bindE (getE st_files) (\<lambda>entries.
     bindE (forE entries (restore_entry C)) (\<lambda>_.
     bindE (getE (\<lambda>s. map snd (st_streams s))) (\<lambda>heads.
     bindE (forE heads (prune_stream C)) (\<lambda>_. retE ())))))"

definition store_open :: "crypto \<Rightarrow> u64 \<Rightarrow> io list \<Rightarrow> (replica_store, unit) eff" where
  "store_open C capacity faults =
     bindE (liftE (ensure (0 < capacity) ''replica storage capacity must be positive'')) (\<lambda>_.
     bindE (modE (\<lambda>s. s\<lparr>st_capacity := capacity, st_used := 0, st_snapshots := [], st_streams := [],
       st_sessions := [], st_faults := faults, st_crashed := False\<rparr>)) (\<lambda>_.
     bindE rio (\<lambda>_.
     restore C)))"

definition empty_store :: replica_store where
  "empty_store = \<lparr>st_capacity = 0, st_used = 0, st_snapshots = [], st_streams = [], st_sessions = [],
     st_files = [], st_faults = [], st_crashed = False\<rparr>"

section \<open>The memory mirrors the directory\<close>

text \<open>The files under final names.\<close>

definition files_at :: "(string \<times> replica_file) list \<Rightarrow> string \<Rightarrow> replica_file option" where
  "files_at fs p = (if starts_with p pending_prefix then None else map_of fs p)"

definition file_at :: "replica_store \<Rightarrow> string \<Rightarrow> replica_file option" where
  "file_at s = files_at (st_files s)"

lemma files_at_update:
  "files_at (AList.update p f fs) =
     (if starts_with p pending_prefix then files_at fs else (files_at fs)(p \<mapsto> f))"
  by (auto simp: files_at_def fun_eq_iff update_conv)

lemma files_at_delete: "files_at (AList.delete p fs) = (files_at fs)(p := None)"
  by (auto simp: files_at_def fun_eq_iff delete_conv')

lemma files_at_pending [simp]: "starts_with p pending_prefix \<Longrightarrow> files_at fs p = None"
  by (simp add: files_at_def)

definition well_named :: "crypto \<Rightarrow> string \<Rightarrow> replica_file \<Rightarrow> bool" where
  "well_named C p f \<longleftrightarrow>
     (case f of
        Blob m b \<Rightarrow> p = blob_path C (md_object m) \<and> word_of_nat (length b) = md_size m
      | StreamFile h \<Rightarrow> p = stream_path C (rs_prefix (sth_stream h))
      | SessionFile h \<Rightarrow> p = session_file_path C (seh_session h)
      | OtherFile \<Rightarrow> p = ''.lock'')"

definition total_size :: "(string \<times> metadata) list \<Rightarrow> nat" where
  "total_size ms = sum_list (map (\<lambda>(_, m). unat (md_size m)) ms)"

definition blobs_mirror :: "crypto \<Rightarrow> (string \<times> metadata) list \<Rightarrow> (string \<rightharpoonup> replica_file) \<Rightarrow> bool" where
  "blobs_mirror C ms F \<longleftrightarrow>
     (\<forall>ob m. map_of ms ob = Some m \<longleftrightarrow> md_object m = ob \<and> (\<exists>b. F (blob_path C ob) = Some (Blob m b)))"

definition streams_mirror :: "crypto \<Rightarrow> (string \<times> stream_head) list \<Rightarrow> (string \<rightharpoonup> replica_file) \<Rightarrow> bool" where
  "streams_mirror C hs F \<longleftrightarrow>
     (\<forall>p h. map_of hs p = Some h \<longleftrightarrow> rs_prefix (sth_stream h) = p \<and> F (stream_path C p) = Some (StreamFile h))"

definition sessions_mirror :: "crypto \<Rightarrow> (string \<times> session_head) list \<Rightarrow> (string \<rightharpoonup> replica_file) \<Rightarrow> bool" where
  "sessions_mirror C hs F \<longleftrightarrow>
     (\<forall>x h. map_of hs x = Some h \<longleftrightarrow> seh_session h = x \<and> F (session_file_path C x) = Some (SessionFile h))"

definition all_well_named :: "crypto \<Rightarrow> (string \<rightharpoonup> replica_file) \<Rightarrow> bool" where
  "all_well_named C F \<longleftrightarrow> (\<forall>p f. F p = Some f \<longrightarrow> well_named C p f)"

definition disk_inv :: "crypto \<Rightarrow> string set \<Rightarrow> replica_store \<Rightarrow> bool" where
  "disk_inv C N s \<longleftrightarrow>
     distinct (map fst (st_files s)) \<and> distinct (map fst (st_snapshots s)) \<and>
     distinct (map fst (st_streams s)) \<and> distinct (map fst (st_sessions s)) \<and>
     all_well_named C (file_at s) \<and> blobs_mirror C (st_snapshots s) (file_at s) \<and>
     streams_mirror C (st_streams s) (file_at s) \<and> sessions_mirror C (st_sessions s) (file_at s) \<and>
     fst ` set (st_streams s) \<subseteq> N \<and> fst ` set (st_sessions s) \<subseteq> N \<and>
     unat (st_used s) = total_size (st_snapshots s)"

text \<open>
  What is assumed of the digest: it is never empty and has no collisions among the names in use
  (session names and stream prefixes).
\<close>

definition digest_ok :: "crypto \<Rightarrow> string set \<Rightarrow> bool" where
  "digest_ok C N \<longleftrightarrow> b64_laws C \<and> (\<forall>x. sha256 C x \<noteq> []) \<and> inj_on (sha256 C) N"

lemma digest_name_inj: "digest_ok C N \<Longrightarrow> x \<in> N \<Longrightarrow> y \<in> N \<Longrightarrow> digest_name C x = digest_name C y \<Longrightarrow> x = y"
  by (auto simp: digest_ok_def digest_name_def inj_on_def dest: b64_inj)

lemma digest_name_nonempty: "digest_ok C N \<Longrightarrow> digest_name C x \<noteq> []"
  unfolding digest_ok_def digest_name_def b64_laws_def by (metis option.inject)

lemma digest_name_start:
  assumes "digest_ok C N" shows "\<exists>c t. digest_name C x = c # t \<and> c \<noteq> CHR ''.''"
proof -
  obtain c t where "digest_name C x = c # t"
    using digest_name_nonempty [OF assms] by (meson list.exhaust)
  moreover have "list_all b64_char (digest_name C x)"
    using assms by (simp add: digest_ok_def digest_name_def b64_laws_def)
  ultimately show ?thesis
    by (auto simp: b64_char_def is_alphanumeric_def is_digit_def is_lower_def is_upper_def)
qed

lemma paths_not_pending:
  assumes "digest_ok C N"
  shows "\<not> starts_with (blob_path C x) pending_prefix" "\<not> starts_with (stream_path C x) pending_prefix"
    "\<not> starts_with (session_file_path C x) pending_prefix"
  using digest_name_start [OF assms, of x]
  by (auto simp: blob_path_def stream_path_def session_file_path_def pending_prefix_def)

lemma path_last [simp]:
  "last (blob_path C x) = CHR ''b''" "last (stream_path C x) = CHR ''m''"
  "last (session_file_path C x) = CHR ''n''"
  by (simp_all add: blob_path_def stream_path_def session_file_path_def)

lemma paths_differ [simp]:
  "blob_path C x \<noteq> stream_path C y" "stream_path C y \<noteq> blob_path C x"
  "blob_path C x \<noteq> session_file_path C y" "session_file_path C y \<noteq> blob_path C x"
  "stream_path C x \<noteq> session_file_path C y" "session_file_path C y \<noteq> stream_path C x"
  "blob_path C x \<noteq> ''.lock''" "stream_path C x \<noteq> ''.lock''" "session_file_path C x \<noteq> ''.lock''"
  by (auto dest!: arg_cong [where f = last])

text \<open>A fault changes neither the memory nor the files.\<close>

lemma rio_cases:
  "rio s = (r, s') \<Longrightarrow> s' = s\<lparr>st_faults := st_faults s', st_crashed := st_crashed s'\<rparr>"
  by (auto simp: rio_def split: if_splits list.splits io.splits)

lemma file_at_fault [simp]: "file_at (s\<lparr>st_faults := fs, st_crashed := c\<rparr>) = file_at s"
  by (simp add: file_at_def)

lemma disk_inv_fault [simp]: "disk_inv C N (s\<lparr>st_faults := fs, st_crashed := c\<rparr>) = disk_inv C N s"
  by (simp add: disk_inv_def)

lemma triple_rio:
  assumes "\<And>s fs c. P s \<Longrightarrow> P (s\<lparr>st_faults := fs, st_crashed := c\<rparr>)"
  shows "triple P rio (\<lambda>_. P) P"
proof -
  have "P s'" if "P s" "rio s = (r, s')" for s r s'
    by (subst rio_cases [OF that(2)]) (rule assms [OF that(1)])
  then show ?thesis by (blast intro: tripleI)
qed

lemma triple_drop_pending:
  assumes "triple P m Q E" "\<And>s. E s \<Longrightarrow> E (s\<lparr>st_files := AList.delete name (st_files s)\<rparr>)"
  shows "triple P (drop_pending name m) Q E"
  by (rule tripleI)
    (use assms in \<open>auto simp: drop_pending_def split: prod.splits sum.splits if_splits
      dest: tripleD_Ok tripleD_Err\<close>)

text \<open>The memory is untouched and file names stay distinct.\<close>

definition frame :: "replica_store \<Rightarrow> replica_store \<Rightarrow> bool" where
  "frame s0 s \<longleftrightarrow>
     st_capacity s = st_capacity s0 \<and> st_used s = st_used s0 \<and> st_snapshots s = st_snapshots s0 \<and>
     st_streams s = st_streams s0 \<and> st_sessions s = st_sessions s0 \<and>
     (distinct (map fst (st_files s0)) \<longrightarrow> distinct (map fst (st_files s)))"

definition unwritten :: "replica_store \<Rightarrow> replica_store \<Rightarrow> bool" where
  "unwritten s0 s \<longleftrightarrow> frame s0 s \<and> file_at s = file_at s0"

lemma unwritten_refl [simp]: "unwritten s s"
  by (simp add: unwritten_def frame_def)

lemma unwritten_fault: "unwritten s0 s \<Longrightarrow> unwritten s0 (s\<lparr>st_faults := fs, st_crashed := c\<rparr>)"
  by (simp add: unwritten_def frame_def)

lemma unwritten_pending:
  assumes "unwritten s0 s" "starts_with name pending_prefix"
  shows "unwritten s0 (s\<lparr>st_files := AList.update name f (st_files s)\<rparr>)"
    "unwritten s0 (s\<lparr>st_files := AList.delete name (st_files s)\<rparr>)"
  using assms
  by (auto simp: unwritten_def frame_def file_at_def files_at_update files_at_delete
      distinct_update distinct_delete)

lemma disk_inv_unwritten: "unwritten s0 s \<Longrightarrow> disk_inv C N s0 \<Longrightarrow> disk_inv C N s"
  by (simp add: unwritten_def frame_def disk_inv_def)

lemma write_file_spec:
  assumes path: "\<not> starts_with path pending_prefix"
  shows "triple (\<lambda>s. s = s0) (write_file noclobber path f)
    (\<lambda>_ s. frame s0 s \<and> file_at s = (file_at s0)(path \<mapsto> f) \<and> (noclobber \<longrightarrow> file_at s0 path = None))
    (unwritten s0)"
proof -
  let ?Q = "unwritten s0"
  let ?W = "\<lambda>_ s. frame s0 s \<and> file_at s = (file_at s0)(path \<mapsto> f) \<and> (noclobber \<longrightarrow> file_at s0 path = None)"
  have io: "triple ?Q rio (\<lambda>_. ?Q) ?Q" by (rule triple_rio) (rule unwritten_fault)
  have commit: "triple ?Q (bindE (getE (\<lambda>s. noclobber \<and> map_of (st_files s) path \<noteq> None)) (\<lambda>exists.
      if exists then failE ''file exists''
      else modE (\<lambda>s. s\<lparr>st_files := AList.update path f (AList.delete name (st_files s))\<rparr>))) ?W ?Q"
    if name: "starts_with name pending_prefix" for name
  proof (rule tripleI)
    fix s x s'
    assume Q: "?Q s" and run: "bindE (getE (\<lambda>s. noclobber \<and> map_of (st_files s) path \<noteq> None)) (\<lambda>exists.
      if exists then failE ''file exists''
      else modE (\<lambda>s. s\<lparr>st_files := AList.update path f (AList.delete name (st_files s))\<rparr>)) s = (Inr x, s')"
    from run have s': "s' = s\<lparr>st_files := AList.update path f (AList.delete name (st_files s))\<rparr>"
      "noclobber \<Longrightarrow> file_at s path = None"
      by (auto simp: eff_simps file_at_def files_at_def split: if_splits)
    show "?W x s'"
      using s' Q path name unwritten_pending(2) [OF Q name]
      by (auto simp: unwritten_def frame_def file_at_def files_at_update files_at_delete
          distinct_update distinct_delete)
  qed (auto simp: eff_simps split: if_splits)
  have pending: "triple ?Q (bindE (modE (\<lambda>s. s\<lparr>st_files := AList.update name OtherFile (st_files s)\<rparr>)) (\<lambda>_.
      drop_pending name (bindE rio (\<lambda>_. bindE rio (\<lambda>_. m))))) ?W ?Q"
    if name: "starts_with name pending_prefix" and m: "triple ?Q m ?W ?Q" for name m
    using unwritten_pending name m
    by (auto intro!: triple_bind [where R = "\<lambda>_. ?Q"] triple_mod triple_drop_pending io)
  show ?thesis
    unfolding write_file_def
  proof (rule triple_bind [where R = "\<lambda>_. ?Q"])
    show "triple (\<lambda>s. s = s0) rio (\<lambda>_. ?Q) ?Q" by (rule triple_weaken [OF io]) simp_all
  next
    fix x
    show "triple ?Q (bindE (getE (\<lambda>s. pending_prefix @ show_radix 10 (length (st_files s)))) (\<lambda>name.
      bindE (modE (\<lambda>s. s\<lparr>st_files := AList.update name OtherFile (st_files s)\<rparr>)) (\<lambda>_.
      drop_pending name (bindE rio (\<lambda>_. bindE rio (\<lambda>_.
       bindE (getE (\<lambda>s. noclobber \<and> map_of (st_files s) path \<noteq> None)) (\<lambda>exists.
       if exists then failE ''file exists''
       else modE (\<lambda>s. s\<lparr>st_files := AList.update path f (AList.delete name (st_files s))\<rparr>)))))))) ?W ?Q"
      by (rule triple_bind [where R = "\<lambda>name s. ?Q s \<and> starts_with name pending_prefix"])
        (simp add: triple_get, rule triple_assume, rule pending, assumption, rule commit)
  qed
qed

definition stored :: "crypto \<Rightarrow> replica_store \<Rightarrow> string \<Rightarrow> bytes \<Rightarrow> bool" where
  "stored C s ob b \<longleftrightarrow>
     (\<exists>m. map_of (st_snapshots s) ob = Some m \<and> file_at s (blob_path C ob) = Some (Blob m b))"

lemma stored_fault [simp]: "stored C (s\<lparr>st_faults := fs, st_crashed := c\<rparr>) ob b = stored C s ob b"
  by (simp add: stored_def)

lemma stored_unique: "stored C s ob b \<Longrightarrow> stored C s ob b' \<Longrightarrow> b = b'"
  by (auto simp: stored_def)

lemma total_size_update:
  "k \<notin> fst ` set ms \<Longrightarrow> total_size (AList.update k m ms) = total_size ms + unat (md_size m)"
  by (induction ms) (auto simp: total_size_def)

lemma total_size_delete:
  "distinct (map fst ms) \<Longrightarrow> map_of ms k = Some m \<Longrightarrow>
   total_size ms = total_size (AList.delete k ms) + unat (md_size m)"
  by (induction ms) (auto simp: total_size_def split: if_splits)

lemma fst_set_map_of: "map_of xs k = None \<longleftrightarrow> k \<notin> fst ` set xs"
  by (rule map_of_eq_None_iff)

text \<open>A file that is not of a component's kind does not change what mirrors it.\<close>

lemma mirror_other:
  "blobs_mirror C ms F \<Longrightarrow> blobs_mirror C ms (F(stream_path C p := f))"
  "blobs_mirror C ms F \<Longrightarrow> blobs_mirror C ms (F(session_file_path C p := f))"
  "streams_mirror C hs F \<Longrightarrow> streams_mirror C hs (F(blob_path C p := f))"
  "streams_mirror C hs F \<Longrightarrow> streams_mirror C hs (F(session_file_path C p := f))"
  "sessions_mirror C es F \<Longrightarrow> sessions_mirror C es (F(blob_path C p := f))"
  "sessions_mirror C es F \<Longrightarrow> sessions_mirror C es (F(stream_path C p := f))"
  by (simp_all add: blobs_mirror_def streams_mirror_def sessions_mirror_def)

lemma all_well_named_upd:
  "all_well_named C F \<Longrightarrow> well_named C p f \<Longrightarrow> all_well_named C (F(p \<mapsto> f))"
  "all_well_named C F \<Longrightarrow> all_well_named C (F(p := None))"
  by (simp_all add: all_well_named_def)

lemma blobs_mirror_insert:
  assumes m: "blobs_mirror C ms F" and new: "F (blob_path C (md_object m)) = None"
  shows "blobs_mirror C (AList.update (md_object m) m ms) (F(blob_path C (md_object m) \<mapsto> Blob m b))"
    "map_of ms (md_object m) = None"
proof -
  show none: "map_of ms (md_object m) = None"
    using m new unfolding blobs_mirror_def by (metis not_None_eq option.distinct(1))
  have "map_of ms ob = Some m' \<longleftrightarrow> md_object m' = ob \<and>
      (\<exists>b'. (F(blob_path C (md_object m) \<mapsto> Blob m b)) (blob_path C ob) = Some (Blob m' b'))"
    if "ob \<noteq> md_object m" for ob m'
    using m new that unfolding blobs_mirror_def by auto
  then show "blobs_mirror C (AList.update (md_object m) m ms) (F(blob_path C (md_object m) \<mapsto> Blob m b))"
    unfolding blobs_mirror_def by (auto simp: update_conv')
qed

lemma blobs_mirror_delete:
  assumes m: "blobs_mirror C ms F" and old: "map_of ms ob = Some m"
  shows "blobs_mirror C (AList.delete ob ms) (F(blob_path C ob := None))"
proof -
  have "md_object m' = ob" if "F (blob_path C ob) = Some (Blob m' b')" for m' b'
    using m old that unfolding blobs_mirror_def by (metis option.inject replica_file.inject(1))
  then have "map_of (AList.delete ob ms) ob' = Some m' \<longleftrightarrow> md_object m' = ob' \<and>
      (\<exists>b. (F(blob_path C ob := None)) (blob_path C ob') = Some (Blob m' b))" for ob' m'
    using m unfolding blobs_mirror_def
    by (cases "ob' = ob"; cases "blob_path C ob' = blob_path C ob") (simp_all add: delete_conv', blast)
  then show ?thesis unfolding blobs_mirror_def by blast
qed

lemma streams_mirror_update:
  assumes "streams_mirror C hs F" "digest_ok C N" "fst ` set hs \<subseteq> N" "rs_prefix (sth_stream h) \<in> N"
  shows "streams_mirror C (AList.update (rs_prefix (sth_stream h)) h hs)
    (F(stream_path C (rs_prefix (sth_stream h)) \<mapsto> StreamFile h))"
proof -
  have "stream_path C p \<noteq> stream_path C (rs_prefix (sth_stream h))"
    if "p \<in> N" "p \<noteq> rs_prefix (sth_stream h)" for p
    using digest_name_inj [OF assms(2) that(1) assms(4)] that(2) by (auto simp: stream_path_def)
  moreover have "p \<in> N" if "map_of hs p = Some x" for p x
    using that assms(3) by (force dest: map_of_SomeD)
  ultimately show ?thesis
    using assms(1) unfolding streams_mirror_def
    by (auto simp: update_conv' split: if_splits) metis
qed

lemma disk_inv_put:
  assumes inv: "disk_inv C N s0" and fr: "frame s0 s"
    and new: "file_at s0 (blob_path C (md_object m)) = None"
    and files: "file_at s = (file_at s0)(blob_path C (md_object m) \<mapsto> Blob m b)"
    and len: "word_of_nat (length b) = md_size m" and used: "checked_add (st_used s0) (md_size m) = Some u"
  shows "disk_inv C N (s\<lparr>st_used := u, st_snapshots := AList.update (md_object m) m (st_snapshots s)\<rparr>)"
    (is "disk_inv C N ?s")
proof -
  have F: "file_at ?s = (file_at s0)(blob_path C (md_object m) \<mapsto> Blob m b)"
    using files by (simp add: file_at_def)
  have "blobs_mirror C (st_snapshots s0) (file_at s0)" using inv by (simp add: disk_inv_def)
  note ins = blobs_mirror_insert [OF this new]
  have "unat u = total_size (st_snapshots s0) + unat (md_size m)"
    using unat_checked_add [OF used] inv by (simp add: disk_inv_def)
  moreover have "well_named C (blob_path C (md_object m)) (Blob m b)" using len by (simp add: well_named_def)
  ultimately show ?thesis
    using ins inv fr unfolding disk_inv_def F
    by (simp add: frame_def distinct_update mirror_other all_well_named_upd total_size_update
        fst_set_map_of [symmetric])
qed

lemma sessions_mirror_update:
  assumes "sessions_mirror C hs F" "digest_ok C N" "fst ` set hs \<subseteq> N" "seh_session h \<in> N"
  shows "sessions_mirror C (AList.update (seh_session h) h hs)
    (F(session_file_path C (seh_session h) \<mapsto> SessionFile h))"
proof -
  have "session_file_path C p \<noteq> session_file_path C (seh_session h)"
    if "p \<in> N" "p \<noteq> seh_session h" for p
    using digest_name_inj [OF assms(2) that(1) assms(4)] that(2) by (auto simp: session_file_path_def)
  moreover have "p \<in> N" if "map_of hs p = Some x" for p x
    using that assms(3) by (force dest: map_of_SomeD)
  ultimately show ?thesis
    using assms(1) unfolding sessions_mirror_def by (auto simp: update_conv' split: if_splits) metis
qed

lemma disk_inv_save_head:
  assumes inv: "disk_inv C N s0" and ok: "digest_ok C N" and fr: "frame s0 s"
    and p: "rs_prefix (sth_stream h) = p" "p \<in> N"
    and files: "file_at s = (file_at s0)(stream_path C p \<mapsto> StreamFile h)"
  shows "disk_inv C N (s\<lparr>st_streams := AList.update p h (st_streams s)\<rparr>)" (is "disk_inv C N ?s")
proof -
  have F: "file_at ?s = (file_at s0)(stream_path C p \<mapsto> StreamFile h)"
    using files by (simp add: file_at_def)
  have "streams_mirror C (AList.update p h (st_streams s0)) ((file_at s0)(stream_path C p \<mapsto> StreamFile h))"
    using streams_mirror_update [OF _ ok, of "st_streams s0" "file_at s0" h] inv p by (simp add: disk_inv_def)
  moreover have "well_named C (stream_path C p) (StreamFile h)" using p by (simp add: well_named_def)
  ultimately show ?thesis
    using inv fr p unfolding disk_inv_def F
    by (simp add: frame_def distinct_update mirror_other all_well_named_upd dom_update)
qed

lemma disk_inv_save_session:
  assumes inv: "disk_inv C N s0" and ok: "digest_ok C N" and fr: "frame s0 s"
    and p: "seh_session h = p" "p \<in> N"
    and files: "file_at s = (file_at s0)(session_file_path C p \<mapsto> SessionFile h)"
  shows "disk_inv C N (s\<lparr>st_sessions := AList.update p h (st_sessions s)\<rparr>)" (is "disk_inv C N ?s")
proof -
  have F: "file_at ?s = (file_at s0)(session_file_path C p \<mapsto> SessionFile h)"
    using files by (simp add: file_at_def)
  have "sessions_mirror C (AList.update p h (st_sessions s0)) ((file_at s0)(session_file_path C p \<mapsto> SessionFile h))"
    using sessions_mirror_update [OF _ ok, of "st_sessions s0" "file_at s0" h] inv p by (simp add: disk_inv_def)
  moreover have "well_named C (session_file_path C p) (SessionFile h)" using p by (simp add: well_named_def)
  ultimately show ?thesis
    using inv fr p unfolding disk_inv_def F
    by (simp add: frame_def distinct_update mirror_other all_well_named_upd dom_update)
qed

lemma disk_inv_remove:
  assumes inv: "disk_inv C N s" and old: "map_of (st_snapshots s) ob = Some m"
  shows "disk_inv C N (s\<lparr>st_files := AList.delete (blob_path C ob) (st_files s),
      st_snapshots := AList.delete ob (st_snapshots s), st_used := st_used s - md_size m\<rparr>)"
    (is "disk_inv C N ?s")
proof -
  have F: "file_at ?s = (file_at s)(blob_path C ob := None)"
    by (simp add: file_at_def files_at_delete)
  have "total_size (st_snapshots s) = total_size (AList.delete ob (st_snapshots s)) + unat (md_size m)"
    using inv by (intro total_size_delete old) (simp add: disk_inv_def)
  then have "unat (st_used s - md_size m) = total_size (AList.delete ob (st_snapshots s))"
    using inv by (simp add: disk_inv_def unat_sub word_le_nat_alt)
  moreover have "blobs_mirror C (AList.delete ob (st_snapshots s)) ((file_at s)(blob_path C ob := None))"
    using inv old by (intro blobs_mirror_delete) (auto simp: disk_inv_def)
  ultimately show ?thesis
    using inv unfolding disk_inv_def F
    by (simp add: distinct_delete mirror_other all_well_named_upd)
qed

section \<open>What every operation keeps\<close>

text \<open>Blobs only grow: the streams and sessions are untouched and nothing stored is lost.\<close>

definition kept :: "crypto \<Rightarrow> string set \<Rightarrow> replica_store \<Rightarrow> replica_store \<Rightarrow> bool" where
  "kept C N s0 s \<longleftrightarrow>
     disk_inv C N s \<and> st_streams s = st_streams s0 \<and> st_sessions s = st_sessions s0 \<and>
     st_capacity s = st_capacity s0 \<and> (st_used s0 \<le> st_capacity s0 \<longrightarrow> st_used s \<le> st_capacity s0) \<and>
     (\<forall>ob b. stored C s0 ob b \<longrightarrow> stored C s ob b)"

lemma stored_unwritten: "unwritten s0 s \<Longrightarrow> stored C s ob b = stored C s0 ob b"
  by (simp add: unwritten_def frame_def stored_def)

lemma kept_unwritten: "disk_inv C N s0 \<Longrightarrow> unwritten s0 s \<Longrightarrow> kept C N s0 s"
  using disk_inv_unwritten stored_unwritten
  by (simp add: kept_def) (simp add: unwritten_def frame_def)

lemma kept_fault: "kept C N s0 s \<Longrightarrow> kept C N s0 (s\<lparr>st_faults := fs, st_crashed := c\<rparr>)"
  by (simp add: kept_def stored_def)

lemma read_blob_spec:
  "triple (\<lambda>s. s = s0) (read_blob p len)
     (\<lambda>b s. unwritten s0 s \<and> (\<exists>m. map_of (st_files s) p = Some (Blob m b))) (unwritten s0)"
proof -
  have "triple (unwritten s0) rio (\<lambda>_. unwritten s0) (unwritten s0)"
    by (rule triple_rio) (rule unwritten_fault)
  then have io: "triple (\<lambda>s. s = s0) rio (\<lambda>_. unwritten s0) (unwritten s0)"
    by (rule triple_weaken) simp_all
  show ?thesis
    unfolding read_blob_def
    by (rule triple_seq [OF io])
      (auto simp: triple_def bindE_def ensure_def split: option.splits replica_file.splits)
qed

lemma put_spec:
  assumes inv: "disk_inv C N s0" and ok: "digest_ok C N" and len: "word_of_nat (length b) = md_size m"
  shows "triple (\<lambda>s. s = s0) (put C m b) (\<lambda>_ s. kept C N s0 s \<and> stored C s (md_object m) b) (kept C N s0)"
  unfolding put_def
proof (rule triple_bind_get)
  let ?p = "blob_path C (md_object m)"
  have notp: "\<not> starts_with ?p pending_prefix" using paths_not_pending [OF ok] by simp
  let ?Q = "\<lambda>_ s. kept C N s0 s \<and> stored C s (md_object m) b"
  have io: "triple (?Q ()) rio ?Q (kept C N s0)"
    by (rule triple_weaken [OF triple_rio [where P = "?Q ()"]]) (auto simp: stored_def kept_fault)
  show "triple (\<lambda>s. s = s0) (case map_of (st_snapshots s0) (md_object m) of
       Some old \<Rightarrow>
         bindE (read_blob ?p (md_size old)) (\<lambda>stored.
         bindE (liftE (ensure (stored = b) ''conflicting immutable snapshot'')) (\<lambda>_. rio))
     | None \<Rightarrow>
         bindE (getE st_used) (\<lambda>used.
         bindE (liftE (ok_or (checked_add used (md_size m)) ''replica size overflow'')) (\<lambda>used.
         bindE (getE st_capacity) (\<lambda>capacity.
         bindE (liftE (ensure (used \<le> capacity) ''replica storage is full'')) (\<lambda>_.
         bindE (write_file True ?p (Blob m b)) (\<lambda>_.
         bindE (modE (\<lambda>s. s\<lparr>st_used := used,
           st_snapshots := AList.update (md_object m) m (st_snapshots s)\<rparr>)) (\<lambda>_.
         rio))))))) ?Q (kept C N s0)"
  proof (cases "map_of (st_snapshots s0) (md_object m)")
    case (Some old)
    have "?Q () s" if "unwritten s0 s" "map_of (st_files s) ?p = Some (Blob m' b)" for s m'
    proof -
      have "file_at s ?p = Some (Blob m' b)" using that(2) notp by (simp add: file_at_def files_at_def)
      moreover have "\<exists>b. file_at s0 ?p = Some (Blob old b)"
        using inv Some by (simp add: disk_inv_def blobs_mirror_def)
      ultimately have "stored C s0 (md_object m) b"
        using that(1) Some by (auto simp: unwritten_def stored_def)
      then show ?thesis using kept_unwritten [OF inv that(1)] by (simp add: kept_def)
    qed
    note found = this
    let ?R = "\<lambda>x s. unwritten s0 s \<and> (\<exists>m. map_of (st_files s) ?p = Some (Blob m x))"
    show ?thesis
      unfolding Some option.case
    proof (rule triple_bind [where R = ?R])
      show "triple (\<lambda>s. s = s0) (read_blob ?p (md_size old)) ?R (kept C N s0)"
        by (rule triple_weaken [OF read_blob_spec]) (auto simp: kept_unwritten [OF inv])
      show "triple (?R x) (bindE (liftE (ensure (x = b) ''conflicting immutable snapshot'')) (\<lambda>_. rio))
        ?Q (kept C N s0)" for x
        by (rule triple_bind_lift, rule triple_weaken [OF io])
          (auto simp: result_simps kept_unwritten [OF inv] dest: found)
    qed
  next
    case None
    have new: "?Q () (s\<lparr>st_used := u, st_snapshots := AList.update (md_object m) m (st_snapshots s)\<rparr>)"
      if "frame s0 s" "file_at s = (file_at s0)(?p \<mapsto> Blob m b)" "file_at s0 ?p = None"
        "checked_add (st_used s0) (md_size m) = Some u" "u \<le> st_capacity s0" for s u
      using disk_inv_put [OF inv that(1,3,2) len that(4)] that None
      by (auto simp: kept_def stored_def frame_def file_at_def update_conv')
    have wr: "triple (\<lambda>s. s = s0) (write_file True ?p (Blob m b)) (\<lambda>_ s. frame s0 s \<and>
        file_at s = (file_at s0)(?p \<mapsto> Blob m b) \<and> file_at s0 ?p = None) (kept C N s0)"
      by (rule triple_weaken [OF write_file_spec [OF notp]]) (auto simp: kept_unwritten [OF inv])
    have "triple (\<lambda>s. s = s0) (bindE (write_file True ?p (Blob m b)) (\<lambda>_.
         bindE (modE (\<lambda>s. s\<lparr>st_used := u,
           st_snapshots := AList.update (md_object m) m (st_snapshots s)\<rparr>)) (\<lambda>_. rio))) ?Q (kept C N s0)"
      if "checked_add (st_used s0) (md_size m) = Some u" "u \<le> st_capacity s0" for u
      by (rule triple_seq [OF wr], rule triple_seq [OF triple_mod io]) (use new that in auto)
    then show ?thesis
      unfolding None option.case
      by (intro triple_bind_get triple_bind_lift) (auto simp: result_simps kept_unwritten [OF inv])
  qed
qed

definition saved_head :: "crypto \<Rightarrow> string set \<Rightarrow> stream_head \<Rightarrow> replica_store \<Rightarrow> replica_store \<Rightarrow> bool" where
  "saved_head C N h s0 s \<longleftrightarrow>
     disk_inv C N s \<and> st_streams s = AList.update (rs_prefix (sth_stream h)) h (st_streams s0) \<and>
     st_sessions s = st_sessions s0 \<and> st_capacity s = st_capacity s0 \<and> st_used s = st_used s0 \<and>
     (\<forall>ob b. stored C s ob b = stored C s0 ob b)"

definition saved_session :: "crypto \<Rightarrow> string set \<Rightarrow> session_head \<Rightarrow> replica_store \<Rightarrow> replica_store \<Rightarrow> bool" where
  "saved_session C N h s0 s \<longleftrightarrow>
     disk_inv C N s \<and> st_sessions s = AList.update (seh_session h) h (st_sessions s0) \<and>
     st_streams s = st_streams s0 \<and> st_capacity s = st_capacity s0 \<and> st_used s = st_used s0 \<and>
     (\<forall>ob b. stored C s ob b = stored C s0 ob b)"

lemma save_head_spec:
  assumes inv: "disk_inv C N s0" and ok: "digest_ok C N" and N: "rs_prefix (sth_stream h) \<in> N"
  shows "triple (\<lambda>s. s = s0) (save_head C h) (\<lambda>_. saved_head C N h s0)
    (\<lambda>s. unwritten s0 s \<or> saved_head C N h s0 s)"
proof -
  let ?p = "rs_prefix (sth_stream h)" and ?S = "saved_head C N h s0"
  let ?E = "\<lambda>s. unwritten s0 s \<or> ?S s"
  have notp: "\<not> starts_with (stream_path C ?p) pending_prefix" using paths_not_pending [OF ok] by simp
  have wr: "triple (\<lambda>s. s = s0) (write_file False (stream_path C ?p) (StreamFile h)) (\<lambda>_ s. frame s0 s \<and>
      file_at s = (file_at s0)(stream_path C ?p \<mapsto> StreamFile h)) ?E"
    by (rule triple_weaken [OF write_file_spec [OF notp]]) auto
  have io: "triple ?S rio (\<lambda>_. ?S) ?E"
    by (rule triple_weaken [OF triple_rio [where P = ?S]]) (auto simp: saved_head_def stored_def)
  have "?S (s\<lparr>st_streams := AList.update ?p h (st_streams s)\<rparr>)"
    if "frame s0 s" "file_at s = (file_at s0)(stream_path C ?p \<mapsto> StreamFile h)" for s
    using disk_inv_save_head [OF inv ok that(1) refl N that(2)] that
    by (auto simp: saved_head_def frame_def stored_def file_at_def)
  then show ?thesis
    unfolding save_head_def
    by (intro triple_seq [OF wr] triple_seq [OF triple_mod io]) simp
qed

lemma save_session_spec:
  assumes inv: "disk_inv C N s0" and ok: "digest_ok C N" and N: "seh_session h \<in> N"
  shows "triple (\<lambda>s. s = s0) (save_session C h) (\<lambda>_. saved_session C N h s0)
    (\<lambda>s. unwritten s0 s \<or> saved_session C N h s0 s)"
proof -
  let ?p = "seh_session h" and ?S = "saved_session C N h s0"
  let ?E = "\<lambda>s. unwritten s0 s \<or> ?S s"
  have notp: "\<not> starts_with (session_file_path C ?p) pending_prefix" using paths_not_pending [OF ok] by simp
  have wr: "triple (\<lambda>s. s = s0) (write_file False (session_file_path C ?p) (SessionFile h)) (\<lambda>_ s. frame s0 s \<and>
      file_at s = (file_at s0)(session_file_path C ?p \<mapsto> SessionFile h)) ?E"
    by (rule triple_weaken [OF write_file_spec [OF notp]]) auto
  have io: "triple ?S rio (\<lambda>_. ?S) ?E"
    by (rule triple_weaken [OF triple_rio [where P = ?S]]) (auto simp: saved_session_def stored_def)
  have "?S (s\<lparr>st_sessions := AList.update ?p h (st_sessions s)\<rparr>)"
    if "frame s0 s" "file_at s = (file_at s0)(session_file_path C ?p \<mapsto> SessionFile h)" for s
    using disk_inv_save_session [OF inv ok that(1) refl N that(2)] that
    by (auto simp: saved_session_def frame_def stored_def file_at_def)
  then show ?thesis
    unfolding save_session_def
    by (intro triple_seq [OF wr] triple_seq [OF triple_mod io]) simp
qed

text \<open>Blobs of the set \<open>S\<close> may be gone, everything else is as before.\<close>

definition pruned :: "crypto \<Rightarrow> string set \<Rightarrow> string set \<Rightarrow> replica_store \<Rightarrow> replica_store \<Rightarrow> bool" where
  "pruned C N S s0 s \<longleftrightarrow>
     disk_inv C N s \<and> st_streams s = st_streams s0 \<and> st_sessions s = st_sessions s0 \<and>
     st_capacity s = st_capacity s0 \<and> st_used s \<le> st_used s0 \<and>
     (\<forall>ob. ob \<notin> S \<longrightarrow> map_of (st_snapshots s) ob = map_of (st_snapshots s0) ob) \<and>
     (\<forall>ob b. ob \<notin> S \<longrightarrow> stored C s ob b = stored C s0 ob b)"

lemma pruned_refl: "disk_inv C N s \<Longrightarrow> pruned C N S s s"
  by (simp add: pruned_def)

lemma pruned_trans: "pruned C N A s0 s1 \<Longrightarrow> pruned C N B s1 s2 \<Longrightarrow> A \<union> B \<subseteq> S \<Longrightarrow> pruned C N S s0 s2"
proof -
  assume 1: "pruned C N A s0 s1" and 2: "pruned C N B s1 s2" and "A \<union> B \<subseteq> S"
  then have "ob \<notin> A \<and> ob \<notin> B" if "ob \<notin> S" for ob using that by blast
  with 1 2 show ?thesis unfolding pruned_def by (auto dest: order_trans)
qed

lemma pruned_mono: "pruned C N A s0 s \<Longrightarrow> A \<subseteq> S \<Longrightarrow> pruned C N S s0 s"
  unfolding pruned_def by auto

lemma pruned_fault: "pruned C N S s0 s \<Longrightarrow> pruned C N S s0 (s\<lparr>st_faults := fs, st_crashed := c\<rparr>)"
  by (simp add: pruned_def)

lemma pruned_io: "triple (pruned C N S s0) rio (\<lambda>_. pruned C N S s0) (pruned C N S s0)"
  by (rule triple_rio) (rule pruned_fault)

lemma remove_blob_spec:
  assumes inv: "disk_inv C N s0" and old: "map_of (st_snapshots s0) ob = Some m"
  shows "triple (\<lambda>s. s = s0) (remove_blob C ob) (\<lambda>_. pruned C N {ob} s0) (pruned C N {ob} s0)"
proof -
  let ?P = "pruned C N {ob} s0"
  let ?R = "\<lambda>s. disk_inv C N s \<and> unwritten s0 s"
  have io: "triple (\<lambda>s. s = s0) rio (\<lambda>_. ?R) ?P"
    by (rule triple_weaken [OF triple_rio [where P = ?R]])
      (auto simp: inv unwritten_fault pruned_def stored_unwritten unwritten_def frame_def)
  have "?P (s\<lparr>st_files := AList.delete (blob_path C ob) (st_files s),
      st_snapshots := AList.delete ob (st_snapshots s), st_used := st_used s - md_size m\<rparr>)"
    if R: "?R s" for s
  proof -
    let ?s = "s\<lparr>st_files := AList.delete (blob_path C ob) (st_files s),
      st_snapshots := AList.delete ob (st_snapshots s), st_used := st_used s - md_size m\<rparr>"
    have old': "map_of (st_snapshots s) ob = Some m" using old R by (simp add: unwritten_def frame_def)
    have "md_size m \<le> st_used s"
      using total_size_delete [OF _ old'] R by (simp add: disk_inv_def word_le_nat_alt)
    then have "st_used s - md_size m \<le> st_used s" by (rule word_sub_le)
    moreover have F: "file_at ?s = (file_at s)(blob_path C ob := None)"
      by (simp add: file_at_def files_at_delete)
    moreover have "stored C ?s ob' b = stored C s ob' b" if "ob' \<noteq> ob" for ob' b
    proof -
      have "blob_path C ob' \<noteq> blob_path C ob" if "map_of (st_snapshots s) ob' = Some m'" for m'
        using that old' \<open>ob' \<noteq> ob\<close> R unfolding disk_inv_def blobs_mirror_def
        by (metis option.inject replica_file.inject(1))
      then show ?thesis using that unfolding stored_def F by (auto simp: delete_conv')
    qed
    ultimately show ?thesis
      using disk_inv_remove [OF _ old', of C N] R stored_unwritten [of s0 s C]
      by (auto simp: pruned_def unwritten_def frame_def delete_conv')
  qed
  then have "triple ?R (bindE (getE (\<lambda>s. map_of (st_files s) (blob_path C ob))) (\<lambda>f.
     if f = None then failE ''no such file''
     else modE (\<lambda>s.
       let size = (case map_of (st_snapshots s) ob of Some m \<Rightarrow> md_size m | None \<Rightarrow> 0) in
       s\<lparr>st_files := AList.delete (blob_path C ob) (st_files s),
         st_snapshots := AList.delete ob (st_snapshots s),
         st_used := st_used s - size\<rparr>))) (\<lambda>_. ?P) ?P"
    using old
    by (auto simp: triple_def bindE_def pruned_def stored_unwritten unwritten_def frame_def split: if_splits)
  then show ?thesis unfolding remove_blob_def by (rule triple_seq [OF io])
qed

definition obsolete :: "stream_head \<Rightarrow> string set" where
  "obsolete h = (case sth_latest h of None \<Rightarrow> {}
     | Some r \<Rightarrow> {ob. starts_with ob (rs_prefix (sth_stream h)) \<and> ob \<noteq> sr_object r})"

lemma remove_blobs_spec:
  assumes "disk_inv C N s0" "distinct obs" "set obs \<subseteq> fst ` set (st_snapshots s0)"
  shows "triple (\<lambda>s. s = s0) (forE obs (remove_blob C)) (\<lambda>_. pruned C N (set obs) s0) (pruned C N (set obs) s0)"
  using assms
proof (induction obs arbitrary: s0)
  case Nil
  then show ?case unfolding forE.simps by (intro triple_ret) (simp add: pruned_refl)
next
  case (Cons ob obs)
  let ?P = "pruned C N (set (ob # obs)) s0"
  obtain m where "map_of (st_snapshots s0) ob = Some m"
    using Cons.prems(3) by (metis fst_set_map_of insert_subset list.simps(15) not_None_eq)
  then have first: "triple (\<lambda>s. s = s0) (remove_blob C ob) (\<lambda>_. pruned C N {ob} s0) ?P"
    by (intro triple_weaken [OF remove_blob_spec [OF Cons.prems(1)]]) (auto elim: pruned_mono)
  have "triple (\<lambda>s. s = s1) (forE obs (remove_blob C)) (\<lambda>_. ?P) ?P" if s1: "pruned C N {ob} s0 s1" for s1
  proof (rule triple_weaken [OF Cons.IH])
    show "disk_inv C N s1" using s1 by (simp add: pruned_def)
    show "distinct obs" using Cons.prems(2) by simp
    show "set obs \<subseteq> fst ` set (st_snapshots s1)"
    proof
      fix x assume x: "x \<in> set obs"
      then have "x \<noteq> ob" "x \<in> fst ` set (st_snapshots s0)" using Cons.prems(2,3) by auto
      moreover have "map_of (st_snapshots s1) x = map_of (st_snapshots s0) x"
        using s1 \<open>x \<noteq> ob\<close> by (simp add: pruned_def)
      ultimately show "x \<in> fst ` set (st_snapshots s1)" by (metis fst_set_map_of)
    qed
  qed (use s1 in \<open>auto elim: pruned_trans\<close>)
  then have rest: "triple (pruned C N {ob} s0) (forE obs (remove_blob C)) (\<lambda>_. ?P) ?P"
    by (rule triple_at)
  show ?case
    unfolding forE.simps
    by (rule triple_bind [OF first], rule triple_bind [OF rest]) (rule triple_ret)
qed

lemma prune_stream_spec:
  assumes inv: "disk_inv C N s0"
  shows "triple (\<lambda>s. s = s0) (prune_stream C h) (\<lambda>_. pruned C N (obsolete h) s0) (pruned C N (obsolete h) s0)"
proof (cases "sth_latest h")
  case None
  then show ?thesis unfolding prune_stream_def None option.case
    by (intro triple_ret) (simp add: inv pruned_refl)
next
  case (Some r)
  let ?obs = "filter (\<lambda>ob. starts_with ob (rs_prefix (sth_stream h)) \<and> ob \<noteq> sr_object r) (map fst (st_snapshots s0))"
  let ?P = "pruned C N (obsolete h) s0"
  have sub: "set ?obs \<subseteq> obsolete h" using Some by (auto simp: obsolete_def)
  have "triple (\<lambda>s. s = s0) (forE ?obs (remove_blob C)) (\<lambda>_. ?P) ?P"
    by (rule triple_weaken [OF remove_blobs_spec [OF inv]])
      (use inv sub in \<open>auto simp: disk_inv_def elim!: pruned_mono\<close>)
  then have "triple (\<lambda>s. s = s0) (bindE (forE ?obs (remove_blob C)) (\<lambda>_. rio)) (\<lambda>_. ?P) ?P"
    by (rule triple_seq) (rule pruned_io)
  then show ?thesis
    unfolding prune_stream_def Some option.case
    by (intro triple_bind_get) (auto intro!: triple_ret simp: pruned_refl inv)
qed

section \<open>The invariant of the store\<close>

text \<open>The names in use never extend one another, as the paths of the runtime never do.\<close>

definition names_ok :: "crypto \<Rightarrow> string set \<Rightarrow> bool" where
  "names_ok C N \<longleftrightarrow> digest_ok C N \<and> (\<forall>p \<in> N. \<forall>q \<in> N. prefix p q \<longrightarrow> p = q)"

text \<open>The latest snapshot of every stream head is stored and verifies.\<close>

definition heads_inv :: "crypto \<Rightarrow> snapshot_codec \<Rightarrow> replica_store \<Rightarrow> bool" where
  "heads_inv C J s \<longleftrightarrow>
     (\<forall>p h r. map_of (st_streams s) p = Some h \<longrightarrow> sth_latest h = Some r \<longrightarrow>
        (\<exists>b. stored C s (sr_object r) b \<and> stream_snapshot C J (sth_stream h) b = Ok r))"

definition store_inv :: "crypto \<Rightarrow> snapshot_codec \<Rightarrow> string set \<Rightarrow> replica_store \<Rightarrow> bool" where
  "store_inv C J N s \<longleftrightarrow> disk_inv C N s \<and> heads_inv C J s"

text \<open>How a store may change: heads advance, seals stay, and a sealed session's streams are frozen.\<close>

definition latest_le :: "snapshot_ref option \<Rightarrow> snapshot_ref option \<Rightarrow> bool" where
  "latest_le a b \<longleftrightarrow>
     a = b \<or> (case a of None \<Rightarrow> True
              | Some x \<Rightarrow> (\<exists>y. b = Some y \<and> sr_state_version x < sr_state_version y))"

definition heads_grow :: "replica_store \<Rightarrow> replica_store \<Rightarrow> bool" where
  "heads_grow s0 s \<longleftrightarrow>
     (\<forall>p h. map_of (st_streams s0) p = Some h \<longrightarrow>
        (\<exists>h'. map_of (st_streams s) p = Some h' \<and> sth_stream h' = sth_stream h \<and>
              latest_le (sth_latest h) (sth_latest h'))) \<and>
     (\<forall>p h. map_of (st_streams s) p = Some h \<longrightarrow> map_of (st_streams s0) p \<noteq> Some h \<longrightarrow>
        \<not> seh_sealed (session_of (rs_session (sth_stream h)) s0)) \<and>
     (\<forall>x. seh_sealed (session_of x s0) \<longrightarrow> seh_sealed (session_of x s)) \<and>
     (\<forall>x. seh_initialized (session_of x s0) \<longrightarrow> seh_initialized (session_of x s))"

definition grows :: "replica_store \<Rightarrow> replica_store \<Rightarrow> bool" where
  "grows s0 s \<longleftrightarrow>
     heads_grow s0 s \<and> st_capacity s = st_capacity s0 \<and>
     (st_used s0 \<le> st_capacity s0 \<longrightarrow> st_used s \<le> st_capacity s0)"

lemma latest_le_refl [simp]: "latest_le a a"
  by (simp add: latest_le_def)

lemma latest_le_trans: "latest_le a b \<Longrightarrow> latest_le b c \<Longrightarrow> latest_le a c"
  by (auto simp: latest_le_def split: option.splits)

lemma heads_growD:
  assumes "heads_grow s0 s" "map_of (st_streams s0) p = Some h"
  obtains h' where "map_of (st_streams s) p = Some h'" "sth_stream h' = sth_stream h"
    "latest_le (sth_latest h) (sth_latest h')"
  using assms unfolding heads_grow_def by blast

lemma heads_grow_frozen:
  assumes grow: "heads_grow s0 s" and sealed: "seh_sealed (session_of (rs_session (sth_stream g)) s0)"
  shows "map_of (st_streams s) p = Some g \<longleftrightarrow> map_of (st_streams s0) p = Some g"
proof
  show "map_of (st_streams s) p = Some g \<Longrightarrow> map_of (st_streams s0) p = Some g"
    using assms unfolding heads_grow_def by blast
next
  assume old: "map_of (st_streams s0) p = Some g"
  then obtain h' where h': "map_of (st_streams s) p = Some h'" "sth_stream h' = sth_stream g"
    using heads_growD [OF grow] by metis
  have "map_of (st_streams s0) p = Some h'"
    using grow sealed h' unfolding heads_grow_def by metis
  with old h' show "map_of (st_streams s) p = Some g" by simp
qed

lemma heads_grow_refl [simp]: "heads_grow s s"
  by (auto simp: heads_grow_def)

lemma heads_grow_trans:
  assumes "heads_grow s0 s1" "heads_grow s1 s2" shows "heads_grow s0 s2"
proof -
  have "\<exists>h'. map_of (st_streams s2) p = Some h' \<and> sth_stream h' = sth_stream h \<and>
      latest_le (sth_latest h) (sth_latest h')" if h: "map_of (st_streams s0) p = Some h" for p h
  proof -
    obtain h1 where "map_of (st_streams s1) p = Some h1" "sth_stream h1 = sth_stream h"
      "latest_le (sth_latest h) (sth_latest h1)"
      using assms(1) h unfolding heads_grow_def by blast
    moreover obtain h2 where "map_of (st_streams s2) p = Some h2" "sth_stream h2 = sth_stream h1"
      "latest_le (sth_latest h1) (sth_latest h2)"
      using assms(2) calculation(1) unfolding heads_grow_def by blast
    ultimately show ?thesis using latest_le_trans by auto
  qed
  moreover have "\<not> seh_sealed (session_of (rs_session (sth_stream h)) s0)"
    if "map_of (st_streams s2) p = Some h" "map_of (st_streams s0) p \<noteq> Some h" for p h
  proof (cases "map_of (st_streams s1) p = Some h")
    case True with that(2) assms(1) show ?thesis unfolding heads_grow_def by blast
  next
    case False with that(1) assms show ?thesis unfolding heads_grow_def by blast
  qed
  ultimately show ?thesis using assms unfolding heads_grow_def by auto
qed

lemma grows_refl [simp]: "grows s s"
  by (simp add: grows_def)

lemma grows_trans: "grows s0 s1 \<Longrightarrow> grows s1 s2 \<Longrightarrow> grows s0 s2"
  unfolding grows_def using heads_grow_trans by auto

end
