(* ===== verification/Replica_Contract.thy ===== *)
theory Replica_Contract
  imports Replica_Store
begin

text \<open>
  What a replica host promises: every operation of \<^verbatim>\<open>src/replication/store.rs\<close> keeps the invariant of
  the store on every path, an acknowledged append is the latest snapshot of its stream and is stored,
  heads only advance, a sealed session accepts nothing more, and a restart on the directory left by
  any operation, finished or not, finds the same heads and seals.
\<close>

section \<open>The operations keep the invariant\<close>

definition advanced :: "crypto \<Rightarrow> snapshot_codec \<Rightarrow> string set \<Rightarrow> replica_store \<Rightarrow> replica_store \<Rightarrow> bool" where
  "advanced C J N s0 s \<longleftrightarrow> store_inv C J N s \<and> grows s0 s"

lemma advanced_refl: "store_inv C J N s \<Longrightarrow> advanced C J N s s"
  by (simp add: advanced_def)

lemma advanced_trans: "advanced C J N s0 s1 \<Longrightarrow> advanced C J N s1 s2 \<Longrightarrow> advanced C J N s0 s2"
  unfolding advanced_def using grows_trans by blast

lemma grows_same:
  assumes "st_streams s = st_streams s0" "st_sessions s = st_sessions s0" "st_capacity s = st_capacity s0"
    "st_used s0 \<le> st_capacity s0 \<longrightarrow> st_used s \<le> st_capacity s0"
  shows "grows s0 s"
  using assms by (auto simp: grows_def heads_grow_def session_of_def)

lemma heads_inv_same:
  assumes "heads_inv C J s0" "st_streams s = st_streams s0"
    "\<And>p h r b. map_of (st_streams s0) p = Some h \<Longrightarrow> sth_latest h = Some r \<Longrightarrow>
       stored C s0 (sr_object r) b \<Longrightarrow> stored C s (sr_object r) b"
  shows "heads_inv C J s"
  unfolding heads_inv_def assms(2)
proof (intro allI impI)
  fix p h r assume h: "map_of (st_streams s0) p = Some h" "sth_latest h = Some r"
  with assms(1) obtain b where "stored C s0 (sr_object r) b" "stream_snapshot C J (sth_stream h) b = Ok r"
    unfolding heads_inv_def by blast
  with assms(3) [OF h] show "\<exists>b. stored C s (sr_object r) b \<and> stream_snapshot C J (sth_stream h) b = Ok r"
    by blast
qed

lemma advanced_kept:
  assumes "store_inv C J N s0" "kept C N s0 s" shows "advanced C J N s0 s"
proof -
  have "heads_inv C J s"
    by (rule heads_inv_same [of C J s0]) (use assms in \<open>auto simp: store_inv_def kept_def\<close>)
  then show ?thesis
    using assms(2) unfolding advanced_def by (intro conjI grows_same) (auto simp: kept_def store_inv_def)
qed

lemma advanced_unwritten: "store_inv C J N s0 \<Longrightarrow> unwritten s0 s \<Longrightarrow> advanced C J N s0 s"
  using advanced_kept kept_unwritten store_inv_def by blast

lemma head_object:
  assumes "heads_inv C J s" "map_of (st_streams s) p = Some h" "sth_latest h = Some r"
  shows "sr_object r = stream_object (sth_stream h) (sr_state_version r)"
  using assms stream_snapshot_facts(1) unfolding heads_inv_def by blast

lemma disk_inv_stream:
  assumes "disk_inv C N s" "map_of (st_streams s) p = Some h"
  shows "rs_prefix (sth_stream h) = p" "p \<in> N"
proof -
  show "rs_prefix (sth_stream h) = p" using assms unfolding disk_inv_def streams_mirror_def by blast
  have "p \<in> fst ` set (st_streams s)" using map_of_SomeD [OF assms(2)] by force
  then show "p \<in> N" using assms(1) unfolding disk_inv_def by blast
qed

lemma disk_inv_session:
  assumes "disk_inv C N s" "map_of (st_sessions s) x = Some h" shows "seh_session h = x"
  using assms unfolding disk_inv_def sessions_mirror_def by blast

lemma not_obsolete:
  assumes inv: "store_inv C J N s" and ok: "names_ok C N" and h: "map_of (st_streams s) p = Some h"
    and q: "map_of (st_streams s) q = Some g" and r: "sth_latest g = Some r"
  shows "sr_object r \<notin> obsolete h"
proof
  assume ob: "sr_object r \<in> obsolete h"
  have pre: "rs_prefix (sth_stream h) = p" "rs_prefix (sth_stream g) = q" "p \<in> N" "q \<in> N"
    using inv disk_inv_stream [OF _ h] disk_inv_stream [OF _ q] by (auto simp: store_inv_def)
  have "prefix p (sr_object r)" "prefix q (sr_object r)"
    using ob pre head_object [OF _ q r] inv
    by (auto simp: obsolete_def starts_with_def store_inv_def stream_object_def split: option.splits)
  then have "prefix p q \<or> prefix q p" by (rule prefix_same_cases)
  with ok pre(3,4) have "p = q" unfolding names_ok_def by blast
  with h q r ob show False by (auto simp: obsolete_def)
qed

lemma advanced_pruned:
  assumes "store_inv C J N s0" "names_ok C N" "map_of (st_streams s0) p = Some h" "pruned C N (obsolete h) s0 s"
  shows "advanced C J N s0 s"
proof -
  have "heads_inv C J s"
    by (rule heads_inv_same [of C J s0])
      (use assms not_obsolete [OF assms(1-3)] in \<open>auto simp: store_inv_def pruned_def\<close>)
  then show ?thesis
    using assms(1,4) unfolding advanced_def
    by (intro conjI grows_same) (auto simp: store_inv_def pruned_def)
qed

definition appended :: "replica_stream \<Rightarrow> snapshot_ref \<Rightarrow> replica_store \<Rightarrow> bool" where
  "appended st r s \<longleftrightarrow>
     map_of (st_streams s) (rs_prefix st) = Some \<lparr>sth_stream = st, sth_latest = Some r\<rparr>"

lemma store_inv_fault [simp]:
  "store_inv C J N (s\<lparr>st_faults := fs, st_crashed := c\<rparr>) = store_inv C J N s"
  by (simp add: store_inv_def heads_inv_def)

lemma head_Ok:
  assumes "head st s = Inr h"
  shows "sth_stream h = st" "map_of (st_streams s) (rs_prefix st) = Some h \<or>
    (map_of (st_streams s) (rs_prefix st) = None \<and> sth_latest h = None)"
  using assms by (auto simp: head_def result_simps split: option.splits)

lemma saved_head_advanced:
  assumes inv: "store_inv C J N s0" and h: "head st s0 = Inr h"
    and snap: "stream_snapshot C J st b = Inr r" and new: "latest_le (sth_latest h) (Some r)"
    and unsealed: "\<not> seh_sealed (session_of (rs_session st) s0)"
    and kept: "kept C N s0 s1" "stored C s1 (sr_object r) b"
    and saved: "saved_head C N \<lparr>sth_stream = st, sth_latest = Some r\<rparr> s1 s"
  shows "advanced C J N s0 s \<and> appended st r s"
proof -
  let ?h = "\<lparr>sth_stream = st, sth_latest = Some r\<rparr>"
  have streams: "map_of (st_streams s) = (map_of (st_streams s0))(rs_prefix st \<mapsto> ?h)"
    using kept(1) saved by (simp add: kept_def saved_head_def update_conv')
  have store: "stored C s ob b'" if "stored C s0 ob b'" for ob b'
    using that kept(1) saved by (simp add: kept_def saved_head_def)
  have st: "stored C s (sr_object r) b" using kept(2) saved by (simp add: saved_head_def)
  have app: "appended st r s" using streams by (simp add: appended_def)
  have "heads_inv C J s"
    unfolding heads_inv_def streams
  proof (intro allI impI)
    fix p g r' assume g: "((map_of (st_streams s0))(rs_prefix st \<mapsto> ?h)) p = Some g" "sth_latest g = Some r'"
    show "\<exists>b. stored C s (sr_object r') b \<and> stream_snapshot C J (sth_stream g) b = Ok r'"
    proof (cases "p = rs_prefix st")
      case True with g st snap show ?thesis by auto
    next
      case False
      with g(1) have "map_of (st_streams s0) p = Some g" by simp
      with g(2) inv obtain b' where "stored C s0 (sr_object r') b'" "stream_snapshot C J (sth_stream g) b' = Ok r'"
        unfolding store_inv_def heads_inv_def by blast
      then show ?thesis using store by blast
    qed
  qed
  moreover have "grows s0 s"
  proof -
    have "\<exists>h'. map_of (st_streams s) p = Some h' \<and> sth_stream h' = sth_stream g \<and>
        latest_le (sth_latest g) (sth_latest h')" if g: "map_of (st_streams s0) p = Some g" for p g
      using head_Ok [OF h] g new unfolding streams by (cases "p = rs_prefix st") auto
    moreover have "session_of x s = session_of x s0" for x
      using kept(1) saved by (simp add: session_of_def kept_def saved_head_def)
    ultimately show ?thesis
      using unsealed kept(1) saved unfolding grows_def heads_grow_def streams
      by (auto simp: kept_def saved_head_def split: if_splits)
  qed
  moreover have "disk_inv C N s" using saved by (simp add: saved_head_def)
  ultimately show ?thesis using app by (simp add: advanced_def store_inv_def)
qed

lemma append_new_spec:
  assumes inv: "store_inv C J N s0" and ok: "names_ok C N" and N: "rs_prefix st \<in> N"
    and h: "head st s0 = Inr h" and snap: "stream_snapshot C J st b = Inr r"
    and new: "latest_le (sth_latest h) (Some r)" and unsealed: "\<not> seh_sealed (session_of (rs_session st) s0)"
  shows "triple (\<lambda>s. s = s0) (append_new C h r b)
    (\<lambda>_ s. advanced C J N s0 s \<and> appended st r s) (advanced C J N s0)"
proof -
  let ?h = "\<lparr>sth_stream = st, sth_latest = Some r\<rparr>" and ?S = "advanced C J N s0"
  let ?A = "\<lambda>_ s. ?S s \<and> appended st r s"
  have upd: "h\<lparr>sth_latest := Some r\<rparr> = ?h" using head_Ok(1) [OF h] by (cases h) simp
  have dig: "digest_ok C N" using ok by (simp add: names_ok_def)
  have disk: "disk_inv C N s0" using inv by (simp add: store_inv_def)
  have len: "word_of_nat (length b) = md_size \<lparr>md_object = sr_object r, md_size = word_of_nat (length b)\<rparr>"
    by simp
  have put: "triple (\<lambda>s. s = s0) (put C \<lparr>md_object = sr_object r, md_size = word_of_nat (length b)\<rparr> b)
      (\<lambda>_ s. kept C N s0 s \<and> stored C s (sr_object r) b) ?S"
    by (rule triple_weaken [OF put_spec [OF disk dig len]]) (auto simp: advanced_kept [OF inv])
  have save: "triple (\<lambda>s. kept C N s0 s \<and> stored C s (sr_object r) b) (save_head C ?h) ?A ?S"
  proof (rule triple_at)
    fix s1 assume s1: "kept C N s0 s1 \<and> stored C s1 (sr_object r) b"
    then have d1: "disk_inv C N s1" "store_inv C J N s1"
      using advanced_kept [OF inv, of s1] by (auto simp: kept_def advanced_def)
    show "triple (\<lambda>s. s = s1) (save_head C ?h) ?A ?S"
      by (rule triple_weaken [OF save_head_spec [OF d1(1) dig]])
        (use N s1 saved_head_advanced [OF inv h snap new unsealed, of s1] advanced_kept [OF inv, of s1]
          advanced_trans advanced_unwritten [OF d1(2)] in auto)
  qed
  have prune: "triple (?A ()) (prune_stream C ?h) ?A ?S"
  proof (rule triple_at)
    fix s2 assume s2: "?A () s2"
    then have i2: "store_inv C J N s2" and h2: "map_of (st_streams s2) (rs_prefix st) = Some ?h"
      by (auto simp: advanced_def appended_def)
    then have "disk_inv C N s2" by (simp add: store_inv_def)
    then show "triple (\<lambda>s. s = s2) (prune_stream C ?h) ?A ?S"
      by (rule triple_weaken [OF prune_stream_spec])
        (use s2 advanced_pruned [OF i2 ok h2] advanced_trans in \<open>auto simp: appended_def pruned_def\<close>)
  qed
  show ?thesis
    unfolding append_new_def Let_def upd
    by (rule triple_seq [OF put], rule triple_seq [OF save]) (rule prune)
qed

lemma append_same_spec:
  assumes inv: "store_inv C J N s0" and ok: "names_ok C N" and h: "head st s0 = Inr h"
    and r: "sth_latest h = Some r"
  shows "triple (\<lambda>s. s = s0) (bindE rio (\<lambda>_. prune_stream C h))
    (\<lambda>_ s. advanced C J N s0 s \<and> appended st r s) (advanced C J N s0)"
proof -
  let ?S = "advanced C J N s0" and ?U = "\<lambda>s. store_inv C J N s \<and> unwritten s0 s"
  let ?A = "\<lambda>_ s. ?S s \<and> appended st r s"
  have m: "map_of (st_streams s0) (rs_prefix st) = Some h" using head_Ok [OF h] r by auto
  have eta: "h = \<lparr>sth_stream = st, sth_latest = Some r\<rparr>" using head_Ok(1) [OF h] r by (cases h) auto
  have io: "triple (\<lambda>s. s = s0) rio (\<lambda>_. ?U) ?S"
    by (rule triple_weaken [OF triple_rio [where P = ?U]])
      (auto simp: inv unwritten_fault advanced_unwritten [OF inv])
  have "triple (\<lambda>s. s = s1) (prune_stream C h) ?A ?S" if s1: "?U s1" for s1
  proof -
    have i1: "store_inv C J N s1" and d1: "disk_inv C N s1" using s1 by (auto simp: store_inv_def)
    have m1: "map_of (st_streams s1) (rs_prefix st) = Some h" using m s1 by (simp add: unwritten_def frame_def)
    have "?A u s" if p: "pruned C N (obsolete h) s1 s" for s u
    proof
      show "?S s"
        using advanced_trans [OF advanced_unwritten [OF inv] advanced_pruned [OF i1 ok m1 p]] s1 by simp
      show "appended st r s" using m1 p eta by (simp add: appended_def pruned_def)
    qed
    then show ?thesis by (intro triple_weaken [OF prune_stream_spec [OF d1]]) auto
  qed
  then have "triple ?U (prune_stream C h) ?A ?S" by (rule triple_at)
  then show ?thesis by (rule triple_seq [OF io])
qed

lemma store_append_spec:
  assumes inv: "store_inv C J N s0" and ok: "names_ok C N" and N: "rs_prefix st \<in> N"
  shows "triple (\<lambda>s. s = s0) (store_append C J st b)
    (\<lambda>_ s. advanced C J N s0 s \<and> (\<exists>r. stream_snapshot C J st b = Ok r \<and> appended st r s)) (advanced C J N s0)"
proof -
  let ?S = "advanced C J N s0"
  let ?A = "\<lambda>_ s. ?S s \<and> (\<exists>r. stream_snapshot C J st b = Ok r \<and> appended st r s)"
  have self: "?S s0" using inv by (rule advanced_refl)
  have new: "triple (\<lambda>s. s = s0) (append_new C h r b) ?A ?S"
    if "head st s0 = Inr h" "stream_snapshot C J st b = Inr r" "latest_le (sth_latest h) (Some r)"
      "\<not> seh_sealed (session_of (rs_session st) s0)" for h r
    by (rule triple_weaken [OF append_new_spec [OF inv ok N that]]) (use that(2) in auto)
  have same: "triple (\<lambda>s. s = s0) (bindE rio (\<lambda>_. prune_stream C h)) ?A ?S"
    if "head st s0 = Inr h" "stream_snapshot C J st b = Inr r" "sth_latest h = Some r" for h r
    by (rule triple_weaken [OF append_same_spec [OF inv ok that(1,3)]]) (use that(2) in auto)
  have tail: "triple (\<lambda>s. s = s0) (case sth_latest h of
       Some latest \<Rightarrow>
         bindE (liftE (ensure (sr_state_version latest \<le> sr_state_version r)
           ''replica write is out of order'')) (\<lambda>_.
         if sr_state_version r = sr_state_version latest then
           bindE (liftE (ensure (r = latest) ''conflicting immutable snapshot'')) (\<lambda>_.
           bindE rio (\<lambda>_. prune_stream C h))
         else append_new C h r b)
     | None \<Rightarrow> append_new C h r b) ?A ?S"
    if h: "head st s0 = Inr h" and r: "stream_snapshot C J st b = Inr r"
      and s: "\<not> seh_sealed (session_of (rs_session st) s0)" for h r
  proof (cases "sth_latest h")
    case None
    then show ?thesis using new [OF h r _ s] by (simp add: latest_le_def)
  next
    case (Some latest)
    then show ?thesis
      using new [OF h r _ s] same [OF h r] self
      by (auto intro!: triple_bind_lift simp: ensure_Ok latest_le_def order_less_le)
  qed
  show ?thesis
    unfolding store_append_def
    by (intro triple_bind_get triple_bind_lift tail) (auto simp: self result_simps)
qed

lemma session_of_name: "store_inv C J N s \<Longrightarrow> seh_session (session_of x s) = x"
  by (auto simp: session_of_def store_inv_def disk_inv_session split: option.splits)

lemma saved_session_advanced:
  assumes inv: "store_inv C J N s0" and saved: "saved_session C N h s0 s"
    and up: "seh_sealed (session_of (seh_session h) s0) \<Longrightarrow> seh_sealed h"
      "seh_initialized (session_of (seh_session h) s0) \<Longrightarrow> seh_initialized h"
  shows "advanced C J N s0 s" "session_of (seh_session h) s = h"
proof -
  have sess: "session_of x s = (if x = seh_session h then h else session_of x s0)" for x
    using saved by (simp add: session_of_def saved_session_def update_conv')
  show "session_of (seh_session h) s = h" by (simp add: sess)
  have "heads_inv C J s"
    by (rule heads_inv_same [of C J s0]) (use inv saved in \<open>auto simp: store_inv_def saved_session_def\<close>)
  moreover have "grows s0 s"
    using saved up unfolding grows_def heads_grow_def sess by (auto simp: saved_session_def)
  ultimately show "advanced C J N s0 s" using saved by (simp add: advanced_def store_inv_def saved_session_def)
qed

lemma save_session_advanced:
  assumes inv: "store_inv C J N s0" and ok: "names_ok C N" and N: "seh_session h \<in> N"
    and up: "seh_sealed (session_of (seh_session h) s0) \<Longrightarrow> seh_sealed h"
      "seh_initialized (session_of (seh_session h) s0) \<Longrightarrow> seh_initialized h"
  shows "triple (\<lambda>s. s = s0) (save_session C h)
    (\<lambda>_ s. advanced C J N s0 s \<and> session_of (seh_session h) s = h \<and> st_streams s = st_streams s0) (advanced C J N s0)"
proof -
  have "disk_inv C N s0" "digest_ok C N" using inv ok by (auto simp: store_inv_def names_ok_def)
  from save_session_spec [OF this N] show ?thesis
    by (rule triple_weaken)
      (use saved_session_advanced [OF inv _ up] advanced_unwritten [OF inv] in \<open>auto simp: saved_session_def\<close>)
qed

lemma store_initialize_spec:
  assumes inv: "store_inv C J N s0" and ok: "names_ok C N" and N: "x \<in> N"
  shows "triple (\<lambda>s. s = s0) (store_initialize_session C x)
    (\<lambda>_ s. advanced C J N s0 s \<and> seh_initialized (session_of x s)) (advanced C J N s0)"
proof -
  let ?h = "(session_of x s0)\<lparr>seh_initialized := True\<rparr>"
  have x: "seh_session ?h = x" using session_of_name [OF inv] by simp
  have "triple (\<lambda>s. s = s0) (save_session C ?h)
      (\<lambda>_ s. advanced C J N s0 s \<and> seh_initialized (session_of x s)) (advanced C J N s0)"
    by (rule triple_weaken [OF save_session_advanced [OF inv ok]]) (use x N in auto)
  then show ?thesis
    unfolding store_initialize_session_def
    by (intro triple_bind_get triple_bind_lift) (auto simp: advanced_refl [OF inv])
qed

text \<open>The answer of a seal lists the heads of the session's streams at the moment it was sealed.\<close>

definition seals :: "string \<Rightarrow> session_head \<Rightarrow> replica_store \<Rightarrow> bool" where
  "seals x h s \<longleftrightarrow>
     seh_session h = x \<and> seh_sealed h \<and> seh_sealed (session_of x s) \<and>
     seh_initialized h = seh_initialized (session_of x s) \<and>
     set (seh_streams h) = {g. \<exists>p. map_of (st_streams s) p = Some g \<and> rs_session (sth_stream g) = x}"

lemma store_seal_spec:
  assumes inv: "store_inv C J N s0" and ok: "names_ok C N" and N: "x \<in> N"
  shows "triple (\<lambda>s. s = s0) (store_seal_session C x)
    (\<lambda>h s. advanced C J N s0 s \<and> seals x h s) (advanced C J N s0)"
proof -
  let ?h = "(session_of x s0)\<lparr>seh_sealed := True\<rparr>"
  let ?R = "\<lambda>s. advanced C J N s0 s \<and> session_of x s = ?h"
  have x: "seh_session ?h = x" using session_of_name [OF inv] by simp
  have save: "triple (\<lambda>s. s = s0) (save_session C ?h) (\<lambda>_. ?R) (advanced C J N s0)"
    by (rule triple_weaken [OF save_session_advanced [OF inv ok]]) (use x N in auto)
  have vals: "set (map snd (st_streams s)) = ran (map_of (st_streams s))" if "?R s" for s
    using that by (simp add: advanced_def store_inv_def disk_inv_def ran_distinct)
  show ?thesis
    unfolding store_seal_session_def Let_def
    apply (rule triple_bind_get, rule triple_seq [OF save], rule triple_bind [where
        R = "\<lambda>gs s. ?R s \<and> gs = filter (\<lambda>h. rs_session (sth_stream h) = x) (map snd (st_streams s))"])
     apply (rule triple_get, simp)
    apply (rule triple_ret)
    using x vals by (auto simp: seals_def ran_def)
qed

lemma store_stream_head_spec:
  assumes "store_stream_head st s = (Inr h, s')"
  shows "s' = s \<and> sth_stream h = st \<and> seh_initialized (session_of (rs_session st) s) \<and>
    (map_of (st_streams s) (rs_prefix st) = Some h \<or>
     (map_of (st_streams s) (rs_prefix st) = None \<and> sth_latest h = None))"
  using assms head_Ok [of st s h]
  by (auto simp: store_stream_head_def eff_simps result_simps)

lemma store_read_spec:
  assumes inv: "store_inv C J N s0" and ok: "names_ok C N"
  shows "triple (\<lambda>s. s = s0) (store_read C ob)
    (\<lambda>x s. unwritten s0 s \<and> (\<forall>b. x = Some b \<longleftrightarrow> stored C s0 ob b)) (unwritten s0)"
proof (cases "map_of (st_snapshots s0) ob")
  case None
  then have "\<not> stored C s0 ob b" for b by (simp add: stored_def)
  with None show ?thesis
    unfolding store_read_def by (intro triple_bind_get) (auto intro!: triple_ret)
next
  case (Some m)
  have notp: "\<not> starts_with (blob_path C ob) pending_prefix"
    using ok paths_not_pending unfolding names_ok_def by blast
  obtain b where b: "file_at s0 (blob_path C ob) = Some (Blob m b)"
    using inv Some unfolding store_inv_def disk_inv_def blobs_mirror_def by blast
  have "x = b" if "unwritten s0 s" "map_of (st_files s) (blob_path C ob) = Some (Blob m' x)" for s m' x
  proof -
    have "file_at s (blob_path C ob) = Some (Blob m' x)" using that(2) notp by (simp add: file_at_def files_at_def)
    with that(1) b show ?thesis by (simp add: unwritten_def)
  qed
  then have "triple (\<lambda>s. s = s0) (read_blob (blob_path C ob) (md_size m))
      (\<lambda>x s. unwritten s0 s \<and> (\<forall>b. Some x = Some b \<longleftrightarrow> stored C s0 ob b)) (unwritten s0)"
    using b Some by (intro triple_weaken [OF read_blob_spec]) (auto simp: stored_def)
  then have "triple (\<lambda>s. s = s0) (bindE (read_blob (blob_path C ob) (md_size m)) (\<lambda>b. retE (Some b)))
      (\<lambda>x s. unwritten s0 s \<and> (\<forall>b. x = Some b \<longleftrightarrow> stored C s0 ob b)) (unwritten s0)"
    by (rule triple_bind) (rule triple_ret)
  with Some show ?thesis unfolding store_read_def by (intro triple_bind_get) simp
qed

section \<open>Restarting on a directory\<close>

definition calm :: "replica_store \<Rightarrow> bool" where
  "calm s \<longleftrightarrow> st_faults s = [] \<and> \<not> st_crashed s"

lemma calm_update [simp]:
  "calm (s\<lparr>st_files := fs\<rparr>) = calm s" "calm (s\<lparr>st_used := u\<rparr>) = calm s"
  "calm (s\<lparr>st_snapshots := ms\<rparr>) = calm s" "calm (s\<lparr>st_streams := hs\<rparr>) = calm s"
  "calm (s\<lparr>st_sessions := xs\<rparr>) = calm s"
  by (simp_all add: calm_def)

text \<open>Without faults an I/O call succeeds; with faults the directory is as it was.\<close>

lemma triple_rio_calm:
  assumes "\<And>s fs c. P s \<Longrightarrow> P (s\<lparr>st_faults := fs, st_crashed := c\<rparr>)"
  shows "triple (\<lambda>s. P s \<and> (q \<longrightarrow> calm s)) rio (\<lambda>_ s. P s \<and> (q \<longrightarrow> calm s)) (\<lambda>s. P s \<and> \<not> q)"
proof -
  have keep: "triple P rio (\<lambda>_. P) P" using assms by (rule triple_rio)
  have io: "rio s = (Inr (), s)" if "calm s" for s using that by (simp add: calm_def rio_def)
  show ?thesis
  proof (rule tripleI)
    fix s x s' assume s: "P s \<and> (q \<longrightarrow> calm s)" "rio s = (Inr x, s')"
    then show "P s' \<and> (q \<longrightarrow> calm s')" using tripleD_Ok [OF keep, of s x s'] io [of s] by auto
  next
    fix s e s' assume s: "P s \<and> (q \<longrightarrow> calm s)" "rio s = (Inl e, s')"
    then show "P s' \<and> \<not> q" using tripleD_Err [OF keep, of s e s'] io [of s] by auto
  qed
qed

text \<open>
  The memory after the entries \<open>done\<close> of the directory have been read, against the store \<open>g\<close> whose
  directory it is.
\<close>

definition loaded :: "crypto \<Rightarrow> replica_store \<Rightarrow> string set \<Rightarrow> replica_store \<Rightarrow> bool" where
  "loaded C g seen s \<longleftrightarrow>
     distinct (map fst (st_files s)) \<and> distinct (map fst (st_snapshots s)) \<and>
     distinct (map fst (st_streams s)) \<and> distinct (map fst (st_sessions s)) \<and>
     file_at s = file_at g \<and>
     (\<forall>ob. map_of (st_snapshots s) ob = (if blob_path C ob \<in> seen then map_of (st_snapshots g) ob else None)) \<and>
     (\<forall>p. map_of (st_streams s) p = (if stream_path C p \<in> seen then map_of (st_streams g) p else None)) \<and>
     (\<forall>x. map_of (st_sessions s) x = (if session_file_path C x \<in> seen then map_of (st_sessions g) x else None)) \<and>
     unat (st_used s) = total_size (st_snapshots s)"

lemma loaded_fault: "loaded C g seen s \<Longrightarrow> loaded C g seen (s\<lparr>st_faults := fs, st_crashed := c\<rparr>)"
  by (simp add: loaded_def)

lemma has_ext_last: "has_ext p e \<Longrightarrow> e \<noteq> [] \<Longrightarrow> last p = last e"
  by (auto simp: has_ext_def strip_suffix_def suffix_def split: option.splits if_splits)

lemma has_ext_append: "has_ext (x @ ''.'' @ e) e \<longleftrightarrow> x \<noteq> []"
  by (simp add: has_ext_def)

lemma path_ext:
  assumes "digest_ok C N"
  shows "has_ext (blob_path C x) ''blob''" "has_ext (stream_path C x) ''stream''"
    "has_ext (session_file_path C x) ''session''"
  using has_ext_append [of "digest_name C x"] digest_name_nonempty [OF assms, of x]
  by (simp_all add: blob_path_def stream_path_def session_file_path_def)

lemma path_no_ext [simp]:
  "\<not> has_ext (blob_path C x) ''session''" "\<not> has_ext (blob_path C x) ''stream''"
  "\<not> has_ext (stream_path C x) ''session''" "\<not> has_ext ''.lock'' ''session''"
  "\<not> has_ext ''.lock'' ''stream''" "\<not> has_ext ''.lock'' ''blob''"
  by (auto dest!: has_ext_last)

lemma total_size_sum: "distinct (map fst ms) \<Longrightarrow> total_size ms = (\<Sum>x \<in> set ms. unat (md_size (snd x)))"
  unfolding total_size_def
  by (subst sum_list_distinct_conv_sum_set) (auto simp: distinct_map split_beta)

lemma total_size_mono:
  assumes "distinct (map fst xs)" "distinct (map fst ys)" "\<And>k m. map_of xs k = Some m \<Longrightarrow> map_of ys k = Some m"
  shows "total_size xs \<le> total_size ys"
proof -
  have "set xs \<subseteq> set ys"
    using assms by (metis map_of_eq_Some_iff subrelI)
  then show ?thesis using assms(1,2) by (simp add: total_size_sum sum_mono2)
qed

lemma loaded_blob:
  assumes g: "disk_inv C N g" and L: "loaded C g seen s" and new: "blob_path C (md_object m) \<notin> seen"
    and f: "file_at g (blob_path C (md_object m)) = Some (Blob m b)"
  shows "\<exists>u. checked_add (st_used s) (md_size m) = Some u \<and>
    loaded C g (insert (blob_path C (md_object m)) seen)
      (s\<lparr>st_used := u, st_snapshots := AList.update (md_object m) m (st_snapshots s)\<rparr>)"
proof -
  let ?ms = "AList.update (md_object m) m (st_snapshots s)"
  have m: "map_of (st_snapshots g) (md_object m) = Some m"
    using g f unfolding disk_inv_def blobs_mirror_def by blast
  have other: "map_of (st_snapshots g) ob = None" if "blob_path C ob = blob_path C (md_object m)" "ob \<noteq> md_object m" for ob
    using g f that unfolding disk_inv_def blobs_mirror_def
    by (metis (no_types) not_None_eq option.inject replica_file.inject(1))
  have none: "md_object m \<notin> fst ` set (st_snapshots s)"
    using L new by (simp add: loaded_def fst_set_map_of [symmetric])
  have upd: "map_of ?ms ob =
      (if blob_path C ob \<in> insert (blob_path C (md_object m)) seen then map_of (st_snapshots g) ob else None)" for ob
    using L m other by (cases "ob = md_object m") (auto simp: loaded_def update_conv')
  have "total_size ?ms \<le> total_size (st_snapshots g)"
    by (rule total_size_mono) (use L g in \<open>auto simp: upd distinct_update loaded_def disk_inv_def split: if_splits\<close>)
  also have "\<dots> < 2 ^ 64"
    using g unsigned_less [of "st_used g", where ?'a = nat] by (simp add: disk_inv_def)
  finally have "unat (st_used s) + unat (md_size m) < 2 ^ 64"
    using L none by (simp add: loaded_def total_size_update)
  then obtain u where u: "checked_add (st_used s) (md_size m) = Some u" by (auto simp: checked_add_def)
  then have "unat u = total_size ?ms"
    using unat_checked_add [OF u] L none by (simp add: loaded_def total_size_update)
  moreover have "blob_path C (md_object m) \<noteq> stream_path C p" "blob_path C (md_object m) \<noteq> session_file_path C p" for p
    by simp_all
  ultimately have "loaded C g (insert (blob_path C (md_object m)) seen)
      (s\<lparr>st_used := u, st_snapshots := ?ms\<rparr>)"
    using L upd unfolding loaded_def by (simp add: distinct_update file_at_def)
  with u show ?thesis by blast
qed

lemma loaded_stream:
  assumes g: "disk_inv C N g" and L: "loaded C g seen s"
    and f: "file_at g (stream_path C (rs_prefix (sth_stream h))) = Some (StreamFile h)"
  shows "loaded C g (insert (stream_path C (rs_prefix (sth_stream h))) seen)
      (s\<lparr>st_streams := AList.update (rs_prefix (sth_stream h)) h (st_streams s)\<rparr>)"
proof -
  let ?p = "rs_prefix (sth_stream h)"
  have "map_of (st_streams g) ?p = Some h"
    using g f unfolding disk_inv_def streams_mirror_def by blast
  moreover have "map_of (st_streams g) q = None" if "stream_path C q = stream_path C ?p" "q \<noteq> ?p" for q
    using g f that unfolding disk_inv_def streams_mirror_def
    by (metis (no_types) not_None_eq option.inject replica_file.inject(2))
  ultimately have "map_of (AList.update ?p h (st_streams s)) q =
      (if stream_path C q \<in> insert (stream_path C ?p) seen then map_of (st_streams g) q else None)" for q
    using L by (cases "q = ?p") (auto simp: loaded_def update_conv')
  moreover have "stream_path C ?p \<noteq> blob_path C q" "stream_path C ?p \<noteq> session_file_path C q" for q
    by simp_all
  ultimately show ?thesis using L unfolding loaded_def by (simp add: distinct_update file_at_def)
qed

lemma loaded_session:
  assumes g: "disk_inv C N g" and L: "loaded C g seen s"
    and f: "file_at g (session_file_path C (seh_session h)) = Some (SessionFile h)"
  shows "loaded C g (insert (session_file_path C (seh_session h)) seen)
      (s\<lparr>st_sessions := AList.update (seh_session h) h (st_sessions s)\<rparr>)"
proof -
  let ?p = "seh_session h"
  have "map_of (st_sessions g) ?p = Some h"
    using g f unfolding disk_inv_def sessions_mirror_def by blast
  moreover have "map_of (st_sessions g) q = None" if "session_file_path C q = session_file_path C ?p" "q \<noteq> ?p" for q
    using g f that unfolding disk_inv_def sessions_mirror_def
    by (metis (no_types) not_None_eq option.inject replica_file.inject(3))
  ultimately have "map_of (AList.update ?p h (st_sessions s)) q =
      (if session_file_path C q \<in> insert (session_file_path C ?p) seen then map_of (st_sessions g) q else None)" for q
    using L by (cases "q = ?p") (auto simp: loaded_def update_conv')
  moreover have "session_file_path C ?p \<noteq> blob_path C q" "session_file_path C ?p \<noteq> stream_path C q" for q
    by simp_all
  ultimately show ?thesis using L unfolding loaded_def by (simp add: distinct_update file_at_def)
qed

lemma loaded_other:
  assumes "loaded C g seen s" "\<And>x. p \<noteq> blob_path C x" "\<And>x. p \<noteq> stream_path C x" "\<And>x. p \<noteq> session_file_path C x"
  shows "loaded C g (insert p seen) s"
proof -
  have "blob_path C x \<noteq> p" "stream_path C x \<noteq> p" "session_file_path C x \<noteq> p" for x
    using assms(2-4) [of x] by auto
  then show ?thesis using assms(1) by (simp add: loaded_def)
qed

text \<open>The directory of the store, with nothing but pending files added or removed.\<close>

definition same_dir :: "replica_store \<Rightarrow> replica_store \<Rightarrow> bool" where
  "same_dir g s \<longleftrightarrow> distinct (map fst (st_files s)) \<and> file_at s = file_at g"

lemma restore_entry_spec:
  assumes g: "disk_inv C N g" and ok: "digest_ok C N" and new: "p \<notin> seen"
    and entry: "starts_with p pending_prefix \<or> file_at g p = Some f"
  shows "triple (\<lambda>s. loaded C g seen s \<and> (q \<longrightarrow> calm s)) (restore_entry C (p, f))
    (\<lambda>_ s. loaded C g (insert p seen) s \<and> (q \<longrightarrow> calm s)) (\<lambda>s. same_dir g s \<and> \<not> q)"
proof -
  let ?P = "\<lambda>s. loaded C g seen s \<and> (q \<longrightarrow> calm s)" and ?E = "\<lambda>s. same_dir g s \<and> \<not> q"
  let ?Q = "\<lambda>_ s. loaded C g (insert p seen) s \<and> (q \<longrightarrow> calm s)"
  have io: "triple ?P rio (\<lambda>_. ?P) ?E"
    by (rule triple_weaken [OF triple_rio_calm [where P = "loaded C g seen"]])
      (auto simp: loaded_fault same_dir_def loaded_def)
  show ?thesis
  proof (cases "starts_with p pending_prefix")
    case True
    have "p \<noteq> blob_path C x" "p \<noteq> stream_path C x" "p \<noteq> session_file_path C x" for x
      using True paths_not_pending [OF ok, of x] by auto
    then have ins: "loaded C g (insert p seen) s" if "loaded C g seen s" for s using that loaded_other by blast
    have "loaded C g (insert p seen) (s\<lparr>st_files := AList.delete p (st_files s)\<rparr>)" if "loaded C g seen s" for s
      using ins [OF that] True unfolding loaded_def
      by (auto simp: file_at_def files_at_delete distinct_delete fun_upd_idem_iff)
    then show ?thesis
      using True unfolding restore_entry_def
      by (auto intro!: triple_seq [OF io] triple_mod)
  next
    case False
    with entry have f: "file_at g p = Some f" by simp
    then have named: "well_named C p f" using g by (simp add: disk_inv_def all_well_named_def)
    show ?thesis
    proof (cases f)
      case (Blob m b)
      then have p: "p = blob_path C (md_object m)" "word_of_nat (length b) = md_size m"
        using named by (auto simp: well_named_def)
      have "triple ?P (load_blob m) ?Q ?E"
      proof (rule tripleI; clarsimp simp: load_blob_def eff_simps result_simps)
        fix s u assume "loaded C g seen s" "q \<longrightarrow> calm s" "checked_add (st_used s) (md_size m) = Some u"
        then show "loaded C g (insert p seen) (s\<lparr>st_used := u,
              st_snapshots := AList.update (md_object m) m (st_snapshots s)\<rparr>)"
          using loaded_blob [OF g, of seen s m b] f Blob p new by auto
      next
        fix s assume "loaded C g seen s" "checked_add (st_used s) (md_size m) = None"
        then show "same_dir g s \<and> \<not> q" using loaded_blob [OF g, of seen s m b] f Blob p new by auto
      qed
      then show ?thesis
        using False Blob p path_ext [OF ok] unfolding restore_entry_def
        by (auto intro!: triple_seq [OF io])
    next
      case (StreamFile h)
      then show ?thesis
        using False named path_ext [OF ok] loaded_stream [OF g, of seen _ h] f unfolding restore_entry_def
        by (auto intro!: triple_seq [OF io] simp: well_named_def) (auto simp: triple_def)
    next
      case (SessionFile h)
      then show ?thesis
        using False named path_ext [OF ok] loaded_session [OF g, of seen _ h] f unfolding restore_entry_def
        by (auto intro!: triple_seq [OF io] simp: well_named_def) (auto simp: triple_def)
    next
      case OtherFile
      then have p: "p = ''.lock''" using named by (simp add: well_named_def)
      then show ?thesis
        using False loaded_other [of C g seen _ "''.lock''"] unfolding restore_entry_def
        by (auto intro!: triple_ret simp: paths_differ [symmetric])
    qed
  qed
qed

lemma restore_entries_spec:
  assumes g: "disk_inv C N g" and ok: "digest_ok C N" and "distinct (map fst es)"
    and "\<And>p f. (p, f) \<in> set es \<Longrightarrow> p \<notin> seen \<and> (starts_with p pending_prefix \<or> file_at g p = Some f)"
  shows "triple (\<lambda>s. loaded C g seen s \<and> (q \<longrightarrow> calm s)) (forE es (restore_entry C))
    (\<lambda>_ s. loaded C g (seen \<union> fst ` set es) s \<and> (q \<longrightarrow> calm s)) (\<lambda>s. same_dir g s \<and> \<not> q)"
  using assms(3,4)
proof (induction es arbitrary: seen)
  case Nil show ?case unfolding forE.simps by (rule triple_ret) simp
next
  case (Cons e es)
  obtain p f where e: "e = (p, f)" by (cases e)
  have "triple (\<lambda>s. loaded C g (insert p seen) s \<and> (q \<longrightarrow> calm s)) (forE es (restore_entry C))
      (\<lambda>_ s. loaded C g (insert p seen \<union> fst ` set es) s \<and> (q \<longrightarrow> calm s)) (\<lambda>s. same_dir g s \<and> \<not> q)"
    by (rule Cons.IH) (use Cons.prems e in \<open>auto simp: image_iff\<close>)
  then show ?case
    unfolding forE.simps e
    by (intro triple_bind [OF restore_entry_spec [OF g ok]] triple_bind) (use Cons.prems e in \<open>auto intro!: triple_ret\<close>)
qed

definition mirrors :: "crypto \<Rightarrow> snapshot_codec \<Rightarrow> string set \<Rightarrow> replica_store \<Rightarrow> replica_store \<Rightarrow> bool" where
  "mirrors C J N g s \<longleftrightarrow>
     store_inv C J N s \<and> map_of (st_streams s) = map_of (st_streams g) \<and>
     map_of (st_sessions s) = map_of (st_sessions g)"

lemma loaded_all:
  assumes g: "store_inv C J N g" and L: "loaded C g seen s" and all: "\<And>p. file_at g p \<noteq> None \<Longrightarrow> p \<in> seen"
  shows "mirrors C J N g s"
proof -
  have bm: "blobs_mirror C (st_snapshots g) (file_at g)" and sm: "streams_mirror C (st_streams g) (file_at g)"
    and em: "sessions_mirror C (st_sessions g) (file_at g)"
    using g by (simp_all add: store_inv_def disk_inv_def)
  have "blob_path C ob \<in> seen" if "map_of (st_snapshots g) ob = Some m" for ob m
    by (rule all) (use bm that in \<open>auto simp: blobs_mirror_def\<close>)
  then have snaps: "map_of (st_snapshots s) ob = map_of (st_snapshots g) ob" for ob
    using L by (cases "map_of (st_snapshots g) ob") (auto simp: loaded_def)
  have "stream_path C p \<in> seen" if "map_of (st_streams g) p = Some m" for p m
    by (rule all) (use sm that in \<open>auto simp: streams_mirror_def\<close>)
  then have streams': "map_of (st_streams s) p = map_of (st_streams g) p" for p
    using L by (cases "map_of (st_streams g) p") (auto simp: loaded_def)
  have "session_file_path C p \<in> seen" if "map_of (st_sessions g) p = Some m" for p m
    by (rule all) (use em that in \<open>auto simp: sessions_mirror_def\<close>)
  then have sessions': "map_of (st_sessions s) p = map_of (st_sessions g) p" for p
    using L by (cases "map_of (st_sessions g) p") (auto simp: loaded_def)
  have streams: "map_of (st_streams s) = map_of (st_streams g)"
    and sessions: "map_of (st_sessions s) = map_of (st_sessions g)"
    using streams' sessions' by auto
  have keys: "fst ` set (st_streams s) = fst ` set (st_streams g)" "fst ` set (st_sessions s) = fst ` set (st_sessions g)"
    using streams sessions by (metis dom_map_of_conv_image_fst)+
  have "disk_inv C N s"
    using g L snaps streams sessions unfolding store_inv_def disk_inv_def loaded_def keys
    by (simp add: blobs_mirror_def streams_mirror_def sessions_mirror_def)
  moreover have "heads_inv C J s"
    using g L snaps streams unfolding store_inv_def heads_inv_def stored_def loaded_def by simp
  ultimately show ?thesis using streams sessions by (simp add: mirrors_def store_inv_def)
qed

lemma remove_blobs_calm:
  assumes "disk_inv C N s" "names_ok C N" "distinct obs" "set obs \<subseteq> fst ` set (st_snapshots s)" "calm s"
  shows "\<exists>s' xs. forE obs (remove_blob C) s = (Inr xs, s') \<and> calm s'"
  using assms
proof (induction obs arbitrary: s)
  case (Cons ob obs)
  obtain m where m: "map_of (st_snapshots s) ob = Some m"
    using Cons.prems(4) by (metis fst_set_map_of insert_subset list.simps(15) not_None_eq)
  then obtain b where "file_at s (blob_path C ob) = Some (Blob m b)"
    using Cons.prems(1) unfolding disk_inv_def blobs_mirror_def by blast
  then have "map_of (st_files s) (blob_path C ob) \<noteq> None"
    by (auto simp: file_at_def files_at_def split: if_splits)
  then obtain s1 where s1: "remove_blob C ob s = (Inr (), s1)" "calm s1"
    using Cons.prems(5) by (auto simp: remove_blob_def rio_def calm_def Let_def)
  have p: "pruned C N {ob} s s1"
    using tripleD_Ok [OF remove_blob_spec [OF Cons.prems(1) m] refl s1(1)] .
  have "set obs \<subseteq> fst ` set (st_snapshots s1)"
  proof
    fix x assume "x \<in> set obs"
    then have "x \<noteq> ob" "x \<in> fst ` set (st_snapshots s)" using Cons.prems(3,4) by auto
    moreover from this(1) have "map_of (st_snapshots s1) x = map_of (st_snapshots s) x" using p by (simp add: pruned_def)
    ultimately show "x \<in> fst ` set (st_snapshots s1)" by (metis fst_set_map_of)
  qed
  then have "\<exists>s' xs. forE obs (remove_blob C) s1 = (Inr xs, s') \<and> calm s'"
    using Cons.IH [of s1] p s1(2) Cons.prems by (simp add: pruned_def)
  with s1 show ?case by auto
qed simp

lemma prune_stream_calm:
  assumes "disk_inv C N s" "names_ok C N" "calm s"
  shows "\<exists>s'. prune_stream C h s = (Inr (), s') \<and> calm s'"
proof (cases "sth_latest h")
  case None
  then show ?thesis using assms(3) by (simp add: prune_stream_def)
next
  case (Some r)
  let ?obs = "filter (\<lambda>ob. starts_with ob (rs_prefix (sth_stream h)) \<and> ob \<noteq> sr_object r) (map fst (st_snapshots s))"
  have "distinct ?obs" using assms(1) by (simp add: disk_inv_def)
  then obtain s' xs where "forE ?obs (remove_blob C) s = (Inr xs, s')" "calm s'"
    using remove_blobs_calm [OF assms(1,2) _ _ assms(3), of ?obs] by auto
  then show ?thesis using Some assms(3) by (auto simp: prune_stream_def rio_def calm_def)
qed

lemma mirrors_prune:
  assumes ok: "names_ok C N" and h: "map_of (st_streams g) p = Some h"
  shows "triple (\<lambda>s. mirrors C J N g s \<and> (q \<longrightarrow> calm s)) (prune_stream C h)
    (\<lambda>_ s. mirrors C J N g s \<and> (q \<longrightarrow> calm s)) (\<lambda>s. mirrors C J N g s \<and> \<not> q)"
proof -
  have keep: "mirrors C J N g s'" "q \<Longrightarrow> r = Inr () \<and> calm s'"
    if m: "mirrors C J N g s" "q \<longrightarrow> calm s" and run: "prune_stream C h s = (r, s')" for s r s'
  proof -
    have i: "store_inv C J N s" "disk_inv C N s" and h': "map_of (st_streams s) p = Some h"
      using m(1) h by (auto simp: mirrors_def store_inv_def)
    have "pruned C N (obsolete h) s s'"
      using tripleD [OF prune_stream_spec [OF i(2)] refl run] .
    then show "mirrors C J N g s'"
      using advanced_pruned [OF i(1) ok h'] m(1) by (simp add: mirrors_def advanced_def pruned_def)
    show "r = Inr () \<and> calm s'" if q
      using prune_stream_calm [OF i(2) ok, of h] m(2) that run by auto
  qed
  show ?thesis by (rule tripleI) (use keep in blast)+
qed

lemma restore_spec:
  assumes g: "store_inv C J N g" and ok: "names_ok C N" and L: "loaded C g {} s0" and q: "q \<longrightarrow> calm s0"
  shows "triple (\<lambda>s. s = s0) (restore C) (\<lambda>_. mirrors C J N g)
    (\<lambda>s. (\<exists>g'. mirrors C J N g g' \<and> same_dir g' s) \<and> \<not> q)"
proof -
  let ?E = "\<lambda>s. (\<exists>g'. mirrors C J N g g' \<and> same_dir g' s) \<and> \<not> q"
  let ?L = "\<lambda>seen s. loaded C g seen s \<and> (q \<longrightarrow> calm s)" and ?M = "\<lambda>s. mirrors C J N g s \<and> (q \<longrightarrow> calm s)"
  have disk: "disk_inv C N g" and dig: "digest_ok C N" using g ok by (auto simp: store_inv_def names_ok_def)
  have F: "file_at s0 = file_at g" using L by (simp add: loaded_def)
  have g_err: "?E s" if "same_dir g s \<and> \<not> q" for s using that g by (auto simp: mirrors_def)
  have m_err: "?E s" if "mirrors C J N g s \<and> \<not> q" for s
    using that by (auto simp: mirrors_def same_dir_def store_inv_def disk_inv_def intro!: exI [of _ s])
  have io: "triple (\<lambda>s. s = s0) rio (\<lambda>_ s. ?L {} s \<and> st_files s = st_files s0) ?E"
    by (rule triple_weaken [OF triple_rio_calm [where P = "\<lambda>s. loaded C g {} s \<and> st_files s = st_files s0" and q = q]])
      (use L q g_err in \<open>auto simp: loaded_fault same_dir_def loaded_def\<close>)
  have entries: "triple (\<lambda>s. ?L {} s \<and> st_files s = st_files s0) (forE (st_files s0) (restore_entry C)) (\<lambda>_. ?M) ?E"
  proof (rule triple_weaken [OF restore_entries_spec [OF disk dig, of "st_files s0" "{}" q]])
    show "distinct (map fst (st_files s0))" using L by (simp add: loaded_def)
    show "p \<notin> {} \<and> (starts_with p pending_prefix \<or> file_at g p = Some f)" if "(p, f) \<in> set (st_files s0)" for p f
    proof -
      have "map_of (st_files s0) p = Some f" using L that by (intro map_of_is_SomeI) (auto simp: loaded_def)
      then have "starts_with p pending_prefix \<or> file_at s0 p = Some f" by (simp add: file_at_def files_at_def)
      then show ?thesis using F by simp
    qed
    show "?M s" if "loaded C g ({} \<union> fst ` set (st_files s0)) s \<and> (q \<longrightarrow> calm s)" for s
    proof -
      have "p \<in> {} \<union> fst ` set (st_files s0)" if "file_at g p \<noteq> None" for p
      proof -
        have "file_at s0 p \<noteq> None" using that F by simp
        then have "map_of (st_files s0) p \<noteq> None" by (simp add: file_at_def files_at_def split: if_splits)
        then show ?thesis by (simp add: fst_set_map_of)
      qed
      then show ?thesis using loaded_all [OF g] that by blast
    qed
  qed (use g_err in auto)
  have heads: "triple (\<lambda>s. s = s1) (bindE (getE (\<lambda>s. map snd (st_streams s))) (\<lambda>heads.
      bindE (forE heads (prune_stream C)) (\<lambda>_. retE ()))) (\<lambda>_. mirrors C J N g) ?E" if s1: "?M s1" for s1
  proof (rule triple_bind_get)
    have "\<exists>p. map_of (st_streams g) p = Some h" if "h \<in> set (map snd (st_streams s1))" for h
    proof -
      from that obtain p where "(p, h) \<in> set (st_streams s1)" by auto
      then have "map_of (st_streams s1) p = Some h"
        using s1 by (intro map_of_is_SomeI) (auto simp: mirrors_def store_inv_def disk_inv_def)
      then show ?thesis using s1 by (auto simp: mirrors_def)
    qed
    then have "triple ?M (forE (map snd (st_streams s1)) (prune_stream C)) (\<lambda>_. ?M) (\<lambda>s. mirrors C J N g s \<and> \<not> q)"
      by (intro triple_for) (use mirrors_prune [OF ok] in blast)
    then have "triple (\<lambda>s. s = s1) (forE (map snd (st_streams s1)) (prune_stream C)) (\<lambda>_. ?M) ?E"
      by (rule triple_weaken) (use s1 m_err in auto)
    then show "triple (\<lambda>s. s = s1) (bindE (forE (map snd (st_streams s1)) (prune_stream C)) (\<lambda>_. retE ()))
        (\<lambda>_. mirrors C J N g) ?E"
      by (rule triple_bind) (rule triple_ret, simp)
  qed
  have "triple (\<lambda>s. ?L {} s \<and> st_files s = st_files s0) (bindE (getE st_files) (\<lambda>entries.
      bindE (forE entries (restore_entry C)) (\<lambda>_. bindE (getE (\<lambda>s. map snd (st_streams s))) (\<lambda>heads.
      bindE (forE heads (prune_stream C)) (\<lambda>_. retE ()))))) (\<lambda>_. mirrors C J N g) ?E"
  proof (rule triple_bind)
    show "triple (\<lambda>s. ?L {} s \<and> st_files s = st_files s0) (getE st_files)
        (\<lambda>es s. (?L {} s \<and> st_files s = st_files s0) \<and> es = st_files s0) ?E"
      by (rule triple_get) auto
  qed (rule triple_assume, simp only:, rule triple_seq [OF entries], rule triple_at, rule heads)
  then show ?thesis unfolding restore_def by (rule triple_seq [OF io])
qed

lemma store_open_spec:
  assumes g: "store_inv C J N g" and ok: "names_ok C N" and d: "same_dir g s0"
  shows "triple (\<lambda>s. s = s0) (store_open C capacity faults)
    (\<lambda>_ s. mirrors C J N g s)
    (\<lambda>s. (\<exists>g'. mirrors C J N g g' \<and> same_dir g' s) \<and> \<not> (0 < capacity \<and> faults = []))"
proof -
  let ?s1 = "s0\<lparr>st_capacity := capacity, st_used := 0, st_snapshots := [], st_streams := [],
       st_sessions := [], st_faults := faults, st_crashed := False\<rparr>"
  let ?E = "\<lambda>s. (\<exists>g'. mirrors C J N g g' \<and> same_dir g' s) \<and> \<not> (0 < capacity \<and> faults = [])"
  let ?q = "0 < capacity \<and> faults = []"
  let ?P = "\<lambda>s. loaded C g {} s"
  have L: "?P ?s1" using d by (simp add: loaded_def same_dir_def total_size_def file_at_def)
  have self: "mirrors C J N g g" using g by (simp add: mirrors_def)
  have io: "triple (\<lambda>s. s = ?s1) rio (\<lambda>_ s. ?P s \<and> (?q \<longrightarrow> calm s)) ?E"
    by (rule triple_weaken [OF triple_rio_calm [where P = ?P and q = ?q]])
      (use L self in \<open>auto simp: loaded_fault calm_def\<close>, auto simp: same_dir_def loaded_def)
  have rest: "triple (\<lambda>s. s = s1) (restore C) (\<lambda>_. mirrors C J N g) ?E" if "?P s1 \<and> (?q \<longrightarrow> calm s1)" for s1
    using restore_spec [OF g ok, of s1 ?q] that by blast
  have reset: "triple (\<lambda>s. s = s0) (modE (\<lambda>s. s\<lparr>st_capacity := capacity, st_used := 0, st_snapshots := [],
      st_streams := [], st_sessions := [], st_faults := faults, st_crashed := False\<rparr>)) (\<lambda>_ s. s = ?s1) ?E"
    by (rule triple_mod) simp
  have "triple (\<lambda>s. s = s0) (bindE (modE (\<lambda>s. s\<lparr>st_capacity := capacity, st_used := 0, st_snapshots := [],
      st_streams := [], st_sessions := [], st_faults := faults, st_crashed := False\<rparr>)) (\<lambda>_. bindE rio (\<lambda>_. restore C)))
      (\<lambda>_. mirrors C J N g) ?E"
    by (rule triple_seq [OF reset], rule triple_seq [OF io], rule triple_at) (rule rest)
  then show ?thesis
    unfolding store_open_def
    by (intro triple_bind_lift) (use self d in \<open>auto simp: result_simps\<close>)
qed

section \<open>Sequences of calls with restarts\<close>

text \<open>
  The calls a replica host serves, in the order its lock admits them. A process that stopped serves
  nothing until a restart on its directory succeeds.
\<close>

datatype store_call =
    Initialize string
  | Append replica_stream bytes
  | Stream_Head replica_stream
  | Seal string
  | Put string bytes
  | Read string
  | Restart u64 "io list"

fun serve :: "crypto \<Rightarrow> snapshot_codec \<Rightarrow> store_call \<Rightarrow> replica_store \<Rightarrow> replica_store" where
  "serve C J (Restart capacity faults) s =
     (case store_open C capacity faults s of
        (Inr _, s') \<Rightarrow> s' | (Inl _, s') \<Rightarrow> s'\<lparr>st_crashed := True\<rparr>)"
| "serve C J (Initialize x) s = snd (store_initialize_session C x s)"
| "serve C J (Append st b) s = snd (store_append C J st b s)"
| "serve C J (Stream_Head st) s = snd (store_stream_head st s)"
| "serve C J (Seal x) s = snd (store_seal_session C x s)"
| "serve C J (Put ob b) s = snd (store_put C ob b s)"
| "serve C J (Read ob) s = snd (store_read C ob s)"

fun is_restart :: "store_call \<Rightarrow> bool" where
  "is_restart (Restart _ _) = True"
| "is_restart _ = False"

definition store_step :: "crypto \<Rightarrow> snapshot_codec \<Rightarrow> store_call \<Rightarrow> replica_store \<Rightarrow> replica_store" where
  "store_step C J c s = (if st_crashed s \<and> \<not> is_restart c then s else serve C J c s)"

fun call_name :: "store_call \<Rightarrow> string set" where
  "call_name (Initialize x) = {x}"
| "call_name (Append st b) = {rs_prefix st}"
| "call_name (Seal x) = {x}"
| "call_name _ = {}"

lemma serve_advanced:
  assumes inv: "store_inv C J N s" and ok: "names_ok C N" and N: "call_name c \<subseteq> N" and c: "\<not> is_restart c"
  shows "advanced C J N s (serve C J c s)"
proof (cases c)
  case (Put ob b)
  have dig: "digest_ok C N" and disk: "disk_inv C N s" using ok inv by (auto simp: names_ok_def store_inv_def)
  have "triple (\<lambda>w. w = s) (store_put C ob b) (\<lambda>_. advanced C J N s) (advanced C J N s)"
    unfolding store_put_def
    by (rule triple_weaken [OF put_spec [OF disk dig]]) (auto simp: advanced_kept [OF inv])
  from triple_snd [OF this] Put show ?thesis by simp
next
  case (Stream_Head st)
  have "snd (store_stream_head st s) = s"
    by (auto simp: store_stream_head_def bindE_def split: sum.splits)
  with Stream_Head show ?thesis using advanced_refl [OF inv] by simp
next
  case (Initialize x)
  have "triple (\<lambda>w. w = s) (store_initialize_session C x) (\<lambda>_. advanced C J N s) (advanced C J N s)"
    by (rule triple_weaken [OF store_initialize_spec [OF inv ok]]) (use N Initialize in auto)
  from triple_snd [OF this] Initialize show ?thesis by simp
next
  case (Append st b)
  have "triple (\<lambda>w. w = s) (store_append C J st b) (\<lambda>_. advanced C J N s) (advanced C J N s)"
    by (rule triple_weaken [OF store_append_spec [OF inv ok]]) (use N Append in auto)
  from triple_snd [OF this] Append show ?thesis by simp
next
  case (Seal x)
  have "triple (\<lambda>w. w = s) (store_seal_session C x) (\<lambda>_. advanced C J N s) (advanced C J N s)"
    by (rule triple_weaken [OF store_seal_spec [OF inv ok]]) (use N Seal in auto)
  from triple_snd [OF this] Seal show ?thesis by simp
next
  case (Read ob)
  have "triple (\<lambda>w. w = s) (store_read C ob) (\<lambda>_. advanced C J N s) (advanced C J N s)"
    by (rule triple_weaken [OF store_read_spec [OF inv ok]]) (auto simp: advanced_unwritten [OF inv])
  from triple_snd [OF this] Read show ?thesis by simp
qed (use c in simp)

text \<open>What holds of a host since the state \<open>s0\<close>, running or stopped.\<close>

definition live :: "crypto \<Rightarrow> snapshot_codec \<Rightarrow> string set \<Rightarrow> replica_store \<Rightarrow> replica_store \<Rightarrow> bool" where
  "live C J N s0 s \<longleftrightarrow>
     (\<exists>g. store_inv C J N g \<and> same_dir g s \<and> heads_grow s0 g \<and> (\<not> st_crashed s \<longrightarrow> mirrors C J N g s))"

lemma heads_grow_mirrors:
  assumes "heads_grow s0 g" "mirrors C J N g s" shows "heads_grow s0 s"
  using assms unfolding heads_grow_def mirrors_def session_of_def by simp

lemma live_self: "store_inv C J N s \<Longrightarrow> heads_grow s0 s \<Longrightarrow> live C J N s0 s"
  unfolding live_def
  by (rule exI [of _ s]) (auto simp: same_dir_def mirrors_def store_inv_def disk_inv_def)

lemma live_step:
  assumes L: "live C J N s0 s" and ok: "names_ok C N" and N: "call_name c \<subseteq> N"
  shows "live C J N s0 (store_step C J c s)"
proof -
  obtain g where g: "store_inv C J N g" "same_dir g s" "heads_grow s0 g" "\<not> st_crashed s \<Longrightarrow> mirrors C J N g s"
    using L unfolding live_def by blast
  show ?thesis
  proof (cases "is_restart c")
    case True
    then obtain capacity faults where c: "c = Restart capacity faults" by (cases c) auto
    obtain r s' where run: "store_open C capacity faults s = (r, s')" by fastforce
    show ?thesis
    proof (cases r)
      case (Inr u)
      then have m: "mirrors C J N g s'"
        using tripleD_Ok [OF store_open_spec [OF g(1) ok g(2)] refl] run by blast
      then have "live C J N s0 s'"
        using live_self heads_grow_mirrors [OF g(3) m] unfolding mirrors_def by blast
      then show ?thesis using run Inr c True by (simp add: store_step_def)
    next
      case (Inl e)
      then obtain g' where "mirrors C J N g g'" "same_dir g' s'"
        using tripleD_Err [OF store_open_spec [OF g(1) ok g(2)] refl] run by blast
      then show ?thesis
        using run Inl c True heads_grow_mirrors [OF g(3)] unfolding live_def
        by (intro exI [of _ g']) (auto simp: store_step_def mirrors_def same_dir_def file_at_def)
    qed
  next
    case False
    show ?thesis
    proof (cases "st_crashed s")
      case True
      with False L show ?thesis by (simp add: store_step_def)
    next
      case running: False
      then have s: "store_inv C J N s" "heads_grow s0 s"
        using g heads_grow_mirrors [OF g(3)] by (auto simp: mirrors_def)
      have "advanced C J N s (serve C J c s)" by (rule serve_advanced [OF s(1) ok N False])
      then show ?thesis
        using False running live_self [of C J N "serve C J c s" s0] heads_grow_trans [OF s(2)]
        by (auto simp: store_step_def advanced_def grows_def)
    qed
  qed
qed

lemma live_run:
  "live C J N s0 s \<Longrightarrow> names_ok C N \<Longrightarrow> \<forall>c \<in> set cs. call_name c \<subseteq> N \<Longrightarrow> live C J N s0 (fold (store_step C J) cs s)"
  by (induction cs arbitrary: s) (auto simp: live_step)

section \<open>A concrete host\<close>

definition demo_stream :: replica_stream where
  "demo_stream = \<lparr>rs_session = ''s'', rs_prefix = ''a/'', rs_owner_epoch = 1, rs_base_version = 0\<rparr>"

definition demo_names :: "string set" where
  "demo_names = {''s'', ''a/''}"

text \<open>An empty host that has initialised the session, with the outcomes of its coming I/O calls.\<close>

definition demo_host :: "io list \<Rightarrow> replica_store" where
  "demo_host faults =
     (snd (store_initialize_session hex_crypto ''s'' (empty_store\<lparr>st_capacity := 100\<rparr>)))\<lparr>st_faults := faults\<rparr>"

lemma demo_names_ok: "names_ok hex_crypto demo_names"
proof -
  have "sha256 hex_crypto b = CHR ''#'' # b" for b by (simp add: hex_crypto_def)
  then show ?thesis
    by (auto simp: names_ok_def digest_ok_def hex_crypto_laws demo_names_def inj_on_def)
qed

lemma store_inv_empty: "store_inv C J N (empty_store\<lparr>st_capacity := c\<rparr>)"
  by (simp add: store_inv_def disk_inv_def heads_inv_def empty_store_def file_at_def files_at_def
      all_well_named_def blobs_mirror_def streams_mirror_def sessions_mirror_def total_size_def)

lemma store_inv_faults: "store_inv C J N (s\<lparr>st_faults := fs\<rparr>) = store_inv C J N s"
  using store_inv_fault [where s = s and fs = fs and c = "st_crashed s"] by simp

lemma demo_host_inv: "store_inv hex_crypto J demo_names (demo_host faults)"
proof -
  have "advanced hex_crypto J demo_names (empty_store\<lparr>st_capacity := 100\<rparr>)
      (serve hex_crypto J (Initialize ''s'') (empty_store\<lparr>st_capacity := 100\<rparr>))"
    by (rule serve_advanced [OF store_inv_empty demo_names_ok]) (simp_all add: demo_names_def)
  then show ?thesis by (simp add: demo_host_def advanced_def store_inv_faults)
qed

section \<open>Properties\<close>

text \<open>
  C12: an acknowledged append survives. Whatever calls a replica host serves afterwards, and however
  often its process fails, stops in the middle of a call and restarts on its directory, the stream's
  head is never older than the acknowledged snapshot, and the snapshot the head names is stored and
  verifies against it.
\<close>

theorem acknowledged_append_survives:
  assumes "store_inv C J N s0" "names_ok C N" "rs_prefix st \<in> N"
    and "store_append C J st b s0 = (Ok (), s1)" "\<forall>c \<in> set cs. call_name c \<subseteq> N"
    and "s2 = fold (store_step C J) cs s1" "\<not> st_crashed s2"
  shows "\<exists>r h. stream_snapshot C J st b = Ok r \<and>
    map_of (st_streams s2) (rs_prefix st) = Some h \<and> sth_stream h = st \<and> latest_le (Some r) (sth_latest h) \<and>
    (\<exists>r' b'. sth_latest h = Some r' \<and> stored C s2 (sr_object r') b' \<and> stream_snapshot C J st b' = Ok r')"
proof -
  obtain r where r: "stream_snapshot C J st b = Ok r" "appended st r s1" and a: "advanced C J N s0 s1"
    using tripleD_Ok [OF store_append_spec [OF assms(1-3)] refl assms(4)] by blast
  have "live C J N s1 s1" using a live_self by (simp add: advanced_def)
  then have "live C J N s1 s2" using live_run assms(2,5,6) by blast
  then have s2: "store_inv C J N s2" "heads_grow s1 s2"
    using assms(7) heads_grow_mirrors unfolding live_def mirrors_def by blast+
  obtain h where h: "map_of (st_streams s2) (rs_prefix st) = Some h" "sth_stream h = st"
      "latest_le (Some r) (sth_latest h)"
    using heads_growD [OF s2(2)] r(2) unfolding appended_def by (metis stream_head.select_convs)
  then obtain r' where r': "sth_latest h = Some r'" unfolding latest_le_def by fastforce
  then obtain b' where "stored C s2 (sr_object r') b'" "stream_snapshot C J st b' = Ok r'"
    using s2(1) h unfolding store_inv_def heads_inv_def by blast
  with r(1) h r' show ?thesis by blast
qed

text \<open>
  The host of the witness acknowledges version 1, stops while it replaces version 1 by version 2, and
  restarts.
\<close>

theorem acknowledged_append_survives_witness:
  "let C = hex_crypto; J = demo_codec; s0 = demo_host (replicate 12 Io_ok @ [Io_crash]);
       s1 = snd (store_append C J demo_stream [CHR 0x01] s0);
       s2 = fold (store_step C J) [Append demo_stream [CHR 0x02], Restart 100 []] s1
   in st_crashed (store_step C J (Append demo_stream [CHR 0x02]) s1) \<and>
      (\<exists>r h. stream_snapshot C J demo_stream [CHR 0x01] = Ok r \<and>
         map_of (st_streams s2) ''a/'' = Some h \<and> latest_le (Some r) (sth_latest h))"
proof -
  let ?C = hex_crypto and ?J = demo_codec and ?s0 = "demo_host (replicate 12 Io_ok @ [Io_crash])"
  let ?s1 = "snd (store_append ?C ?J demo_stream [CHR 0x01] ?s0)"
  let ?cs = "[Append demo_stream [CHR 0x02], Restart 100 []]"
  have ok: "fst (store_append ?C ?J demo_stream [CHR 0x01] ?s0) = Ok ()" by code_simp
  have crash: "st_crashed (store_step ?C ?J (Append demo_stream [CHR 0x02]) ?s1)" by code_simp
  have run: "\<not> st_crashed (fold (store_step ?C ?J) ?cs ?s1)" by code_simp
  have N: "rs_prefix demo_stream \<in> demo_names" "\<forall>c \<in> set ?cs. call_name c \<subseteq> demo_names"
    by (simp_all add: demo_stream_def demo_names_def)
  have "store_append ?C ?J demo_stream [CHR 0x01] ?s0 = (Ok (), ?s1)" using ok by (metis prod.collapse)
  from acknowledged_append_survives [OF demo_host_inv demo_names_ok N(1) this N(2) refl run] crash
  show ?thesis unfolding Let_def by (auto simp: demo_stream_def)
qed

text \<open>
  C13: a sealed session is frozen. Once a seal was answered, the streams of the session and their heads
  are exactly those of the answer, after any further calls, faults and restarts; in particular no
  append to the session is ever accepted again.
\<close>

theorem seal_freezes_session:
  assumes "store_inv C J N s0" "names_ok C N" "x \<in> N"
    and "store_seal_session C x s0 = (Ok h, s1)" "\<forall>c \<in> set cs. call_name c \<subseteq> N"
    and "s2 = fold (store_step C J) cs s1" "\<not> st_crashed s2"
  shows "set (seh_streams h) = {g. \<exists>p. map_of (st_streams s2) p = Some g \<and> rs_session (sth_stream g) = x} \<and>
    (\<forall>st b s3. rs_session st = x \<longrightarrow> store_append C J st b s2 \<noteq> (Ok (), s3))"
proof -
  have a: "advanced C J N s0 s1" and sealed: "seals x h s1"
    using tripleD_Ok [OF store_seal_spec [OF assms(1-3)] refl assms(4)] by blast+
  have "live C J N s1 s1" using a live_self by (simp add: advanced_def)
  then have "live C J N s1 s2" using live_run assms(2,5,6) by blast
  then have s2: "heads_grow s1 s2"
    using assms(7) heads_grow_mirrors unfolding live_def by blast
  have x: "seh_sealed (session_of x s1)" "seh_sealed (session_of x s2)"
    using sealed s2 by (auto simp: seals_def heads_grow_def)
  have "map_of (st_streams s2) p = Some g \<longleftrightarrow> map_of (st_streams s1) p = Some g"
    if "rs_session (sth_stream g) = x" for p g
    using heads_grow_frozen [OF s2] x(1) that by simp
  moreover have "store_append C J st b s2 \<noteq> (Ok (), s3)" if "rs_session st = x" for st b s3
    using x(2) that by (auto simp: store_append_def eff_simps result_simps)
  ultimately show ?thesis using sealed by (auto simp: seals_def)
qed

theorem seal_freezes_session_witness:
  "let C = hex_crypto; J = demo_codec; s0 = snd (store_append C J demo_stream [CHR 0x01] (demo_host []));
       (r, s1) = store_seal_session C ''s'' s0;
       s2 = fold (store_step C J) [Append demo_stream [CHR 0x02], Restart 100 []] s1
   in \<exists>h. r = Ok h \<and> length (seh_streams h) = 1 \<and>
        set (seh_streams h) = {g. \<exists>p. map_of (st_streams s2) p = Some g \<and> rs_session (sth_stream g) = ''s''}"
proof -
  let ?C = hex_crypto and ?J = demo_codec
  let ?s0 = "snd (store_append ?C ?J demo_stream [CHR 0x01] (demo_host []))"
  let ?seal = "store_seal_session ?C ''s'' ?s0" and ?cs = "[Append demo_stream [CHR 0x02], Restart 100 []]"
  have N: "''s'' \<in> demo_names" "\<forall>c \<in> set ?cs. call_name c \<subseteq> demo_names" "call_name (Append demo_stream [CHR 0x01]) \<subseteq> demo_names"
    by (simp_all add: demo_stream_def demo_names_def)
  have inv: "store_inv ?C ?J demo_names ?s0"
    using serve_advanced [OF demo_host_inv demo_names_ok N(3)] by (simp add: advanced_def)
  have "case fst ?seal of Inr h \<Rightarrow> length (seh_streams h) = 1 | Inl _ \<Rightarrow> False" by code_simp
  then obtain h s1 where h: "?seal = (Ok h, s1)" "length (seh_streams h) = 1"
    by (cases ?seal; cases "fst ?seal") simp_all
  have "\<not> st_crashed (fold (store_step ?C ?J) ?cs (snd ?seal))" by code_simp
  then have run: "\<not> st_crashed (fold (store_step ?C ?J) ?cs s1)" by (simp only: h(1) snd_conv simp_thms)
  note frozen = seal_freezes_session [OF inv demo_names_ok N(1) h(1) N(2) refl run]
  show ?thesis
    unfolding Let_def h(1) prod.case
    by (rule exI [of _ h]) (use frozen h(2) in \<open>simp only: simp_thms\<close>)
qed

text \<open>
  C14: the accounting is exact and bounded. From any good state within its capacity, after any call,
  failed or not, the used bytes are exactly the sizes of the stored snapshots, the subtraction that
  lowers them never wraps, and they stay within the capacity.
\<close>

theorem store_usage_bounded:
  assumes "store_inv C J N s" "names_ok C N" "call_name c \<subseteq> N" "\<not> is_restart c" "st_used s \<le> st_capacity s"
  shows "unat (st_used (serve C J c s)) = total_size (st_snapshots (serve C J c s)) \<and>
    total_size (st_snapshots (serve C J c s)) \<le> unat (st_capacity s) \<and> st_capacity (serve C J c s) = st_capacity s"
  using serve_advanced [OF assms(1-4)] assms(5)
  by (auto simp: advanced_def store_inv_def disk_inv_def grows_def word_le_nat_alt)

theorem store_usage_bounded_witness:
  "let s = serve hex_crypto demo_codec (Append demo_stream [CHR 0x01]) (demo_host [])
   in unat (st_used s) = 1 \<and> total_size (st_snapshots s) = 1 \<and> total_size (st_snapshots s) \<le> 100"
proof -
  let ?s = "serve hex_crypto demo_codec (Append demo_stream [CHR 0x01]) (demo_host [])"
  have N: "call_name (Append demo_stream [CHR 0x01]) \<subseteq> demo_names" "\<not> is_restart (Append demo_stream [CHR 0x01])"
    by (simp_all add: demo_stream_def demo_names_def)
  have cap: "st_used (demo_host []) \<le> st_capacity (demo_host [])" "st_capacity (demo_host []) = 100" by code_simp+
  have "st_used ?s = 1" by code_simp
  with store_usage_bounded [OF demo_host_inv demo_names_ok N cap(1), of demo_codec] cap(2)
  show ?thesis by (simp add: Let_def)
qed

text \<open>
  C15: a restart always succeeds. Whatever a replica host served and wherever its process stopped,
  opening its directory with a positive capacity succeeds when no I/O call fails, and the heads and
  seals it finds are at least those before.
\<close>

theorem restart_succeeds:
  assumes "store_inv C J N s0" "names_ok C N" "\<forall>c \<in> set cs. call_name c \<subseteq> N" "0 < capacity"
  shows "\<exists>s. store_open C capacity [] (fold (store_step C J) cs s0) = (Ok (), s) \<and> store_inv C J N s \<and> heads_grow s0 s"
proof -
  have "live C J N s0 (fold (store_step C J) cs s0)"
    using live_run [OF live_self [OF assms(1)] assms(2,3)] by simp
  then obtain g where g: "store_inv C J N g" "same_dir g (fold (store_step C J) cs s0)" "heads_grow s0 g"
    unfolding live_def by blast
  note op = store_open_spec [OF g(1) assms(2) g(2), of capacity "[]"]
  obtain r s where run: "store_open C capacity [] (fold (store_step C J) cs s0) = (r, s)" by fastforce
  show ?thesis
  proof (cases r)
    case (Inl e) with tripleD_Err [OF op refl] run assms(4) show ?thesis by blast
  next
    case (Inr u)
    then have "mirrors C J N g s" using tripleD_Ok [OF op refl] run by blast
    then show ?thesis using run Inr heads_grow_mirrors [OF g(3)] by (auto simp: mirrors_def)
  qed
qed

theorem restart_succeeds_witness:
  "let s = fold (store_step hex_crypto demo_codec) [Append demo_stream [CHR 0x01]] (demo_host [Io_ok, Io_ok, Io_crash])
   in st_crashed s \<and> (\<exists>s'. store_open hex_crypto 100 [] s = (Ok (), s'))"
proof -
  let ?cs = "[Append demo_stream [CHR 0x01]]"
  have N: "\<forall>c \<in> set ?cs. call_name c \<subseteq> demo_names" by (simp add: demo_stream_def demo_names_def)
  have "st_crashed (fold (store_step hex_crypto demo_codec) ?cs (demo_host [Io_ok, Io_ok, Io_crash]))" by code_simp
  with restart_succeeds [OF demo_host_inv demo_names_ok N, of 100 demo_codec] show ?thesis
    unfolding Let_def by auto
qed

end
