(* ===== verification/Replica_Server.thy ===== *)
theory Replica_Server
  imports Replica_Access Replica_Contract
begin

text \<open>
  A replica host as its callers see it: \<^verbatim>\<open>src/replication/server.rs\<close> (the gRPC handlers and their
  authorisation), \<^verbatim>\<open>src/replication/spare.rs\<close> (the one-time assignment of a spare host), and the clients
  \<^verbatim>\<open>src/state_transport.rs\<close> and \<^verbatim>\<open>src/bucket/peers.rs\<close>.

  \<open>replica_host\<close> is the process: its store, its binding to one activation, and the assignment it
  accepted. \<open>cluster\<close> is what a client reaches: hosts by origin, the clock of the client and of the
  hosts, and the fate of every coming request (answered, lost before the host, or answered with the reply
  lost).
\<close>

section \<open>The server\<close>

record replica_binding =
  bd_access :: replica_access
  bd_host_id :: string
  bd_scope :: replica_scope

record replica_assignment =
  as_host_id :: string
  as_scope :: replica_scope
  as_secret :: string

record replica_host =
  rh_store :: replica_store
  rh_binding :: "replica_binding option"
  rh_authorization :: string
  rh_assigned :: "replica_assignment option"

definition on_store :: "(replica_store, 'a) eff \<Rightarrow> (replica_host, 'a) eff" where
  "on_store m = zoomE rh_store (\<lambda>s h. h\<lparr>rh_store := s\<rparr>) m"

definition in_scope :: "libs \<Rightarrow> replica_scope \<Rightarrow> replica_grant \<Rightarrow> bool result" where
  "in_scope L scope g =
     (if gr_operation g = ''INITIALIZE_SESSION'' \<or> gr_operation g = ''SEAL_SESSION'' then
        Ok (gr_object g = scope_identity (l_crypto L) scope)
      else
        bindR (map_errR unavailable (snapshots (l_crypto L) (sc_actor scope))) (\<lambda>prefix.
        Ok (starts_with (gr_object g) prefix \<and>
          (case gr_stream g of None \<Rightarrow> True
           | Some stream \<Rightarrow> rs_session stream = scope_identity (l_crypto L) scope \<and>
               starts_with (rs_prefix stream) prefix))))"

definition authorize ::
    "libs \<Rightarrow> u64 result \<Rightarrow> string option \<Rightarrow> string list \<Rightarrow> replica_host \<Rightarrow> replica_grant result" where
  "authorize L now header operations h =
     (case rh_binding h of
        None \<Rightarrow> Err (Status PermissionDenied ''replica is not assigned'')
      | Some binding \<Rightarrow>
          bindR (grpc_token header) (\<lambda>token.
          bindR (map_errR (\<lambda>_. Status PermissionDenied ''replica capability rejected'')
            (verify_any L (bd_access binding) now token operations)) (\<lambda>g.
          if gr_host_id g \<noteq> bd_host_id binding then
            Err (Status PermissionDenied ''capability belongs to another replica'')
          else
            bindR (in_scope L (bd_scope binding) g) (\<lambda>allowed.
            if allowed then Ok g
            else Err (Status PermissionDenied ''replica belongs to another actor activation'')))))"

definition server_session ::
    "libs \<Rightarrow> u64 result \<Rightarrow> string option \<Rightarrow> string \<Rightarrow> replica_host \<Rightarrow> replica_grant result" where
  "server_session L now header operation h =
     bindR (authorize L now header [operation] h) (\<lambda>g.
     if gr_stream g \<noteq> None then Err (Status PermissionDenied ''session authority is required'') else Ok g)"

definition stream_authority :: "replica_grant \<Rightarrow> replica_stream result" where
  "stream_authority g =
     (case gr_stream g of Some st \<Rightarrow> Ok st
      | None \<Rightarrow> Err (Status PermissionDenied ''stream authority is required''))"

definition server_read :: "libs \<Rightarrow> u64 result \<Rightarrow> string option \<Rightarrow> (replica_host, bytes) eff" where
  "server_read L now header =
     bindE (getE (authorize L now header [''GET''])) (\<lambda>g. bindE (liftE g) (\<lambda>g.
     bindE (map_errE unavailable (on_store (store_read (l_crypto L) (gr_object g)))) (\<lambda>data.
     case data of Some bytes \<Rightarrow> retE bytes
     | None \<Rightarrow> liftE (Err (Status NotFound ''snapshot not found'')))))"

definition server_write :: "libs \<Rightarrow> u64 result \<Rightarrow> string option \<Rightarrow> bytes \<Rightarrow> (replica_host, bool) eff" where
  "server_write L now header bytes =
     bindE (getE (authorize L now header [''APPEND''])) (\<lambda>g. bindE (liftE g) (\<lambda>g.
     bindE (liftE (map_errR (\<lambda>_. Status InvalidArgument ''invalid snapshot'') (decode (l_snapshots L) bytes))) (\<lambda>_.
     bindE (liftE (stream_authority g)) (\<lambda>stream.
     bindE (map_errE unavailable (on_store (store_append (l_crypto L) (l_snapshots L) stream bytes))) (\<lambda>_.
     retE False)))))"

definition server_initialize :: "libs \<Rightarrow> u64 result \<Rightarrow> string option \<Rightarrow> (replica_host, unit) eff" where
  "server_initialize L now header =
     bindE (getE (server_session L now header ''INITIALIZE_SESSION'')) (\<lambda>g. bindE (liftE g) (\<lambda>g.
     map_errE unavailable (on_store (store_initialize_session (l_crypto L) (gr_object g)))))"

definition server_head :: "libs \<Rightarrow> u64 result \<Rightarrow> string option \<Rightarrow> (replica_host, proto_stream_head) eff" where
  "server_head L now header =
     bindE (getE (authorize L now header [''HEAD''])) (\<lambda>g. bindE (liftE g) (\<lambda>g.
     bindE (liftE (stream_authority g)) (\<lambda>stream.
     bindE (map_errE unavailable (on_store (store_stream_head stream))) (\<lambda>head.
     retE (head_to_proto head)))))"

definition server_seal :: "libs \<Rightarrow> u64 result \<Rightarrow> string option \<Rightarrow> (replica_host, proto_session_head) eff" where
  "server_seal L now header =
     bindE (getE (server_session L now header ''SEAL_SESSION'')) (\<lambda>g. bindE (liftE g) (\<lambda>g.
     bindE (map_errE unavailable (on_store (store_seal_session (l_crypto L) (gr_object g)))) (\<lambda>head.
     retE (session_to_proto head))))"

section \<open>Assigning a spare\<close>

text \<open>A request of the assignment router; \<open>routers\<close> is the fresh process.\<close>

definition routers :: "replica_store \<Rightarrow> string \<Rightarrow> replica_host" where
  "routers store token = \<lparr>rh_store = store, rh_binding = None,
     rh_authorization = ''Bearer '' @ token, rh_assigned = None\<rparr>"

definition new_binding :: "replica_assignment \<Rightarrow> replica_binding" where
  "new_binding a = \<lparr>bd_access = \<lparr>ra_secret = as_secret a\<rparr>, bd_host_id = as_host_id a, bd_scope = as_scope a\<rparr>"

definition assignment_ok :: "replica_assignment \<Rightarrow> bool" where
  "assignment_ok a \<longleftrightarrow>
     is_ok (validate_actor_key (sc_actor (as_scope a))) \<and> as_host_id a \<noteq> [] \<and>
     sc_host (as_scope a) \<noteq> [] \<and> sc_session (as_scope a) \<noteq> [] \<and> 32 \<le> length (as_secret a)"

definition assign :: "libs \<Rightarrow> string option \<Rightarrow> replica_assignment \<Rightarrow> (replica_host, nat) eff" where
  "assign L header a =
     bindE (getE rh_authorization) (\<lambda>authorization.
     if header \<noteq> Some authorization then liftE (Err (Http 401))
     else if \<not> assignment_ok a then liftE (Err (Http 400))
     else
       bindE (getE rh_assigned) (\<lambda>assigned.
       case assigned of
         Some existing \<Rightarrow> if existing = a then retE 204 else liftE (Err (Http 409))
       | None \<Rightarrow>
           bindE (map_errE (\<lambda>_. Http 503)
             (on_store (store_initialize_session (l_crypto L) (scope_identity (l_crypto L) (as_scope a))))) (\<lambda>_.
           bindE (getE rh_binding) (\<lambda>binding.
           if binding \<noteq> None then liftE (Err (Http 409))
           else
             bindE (modE (\<lambda>h. h\<lparr>rh_binding := Some (new_binding a), rh_assigned := Some a\<rparr>)) (\<lambda>_.
             retE 204)))))"

section \<open>Clients\<close>

datatype net = Net_ok | Net_lost | Net_reply_lost

record cluster =
  cl_hosts :: "(string \<times> replica_host) list"
  cl_net :: "net list"
  cl_now :: "u64 result"
  cl_host_now :: "u64 result"

text \<open>One request to the host at an origin.\<close>

definition send :: "string \<Rightarrow> (replica_host, 'a) eff \<Rightarrow> (cluster, 'a) eff" where
  "send origin m c =
     (let (fate, rest) = (case cl_net c of [] \<Rightarrow> (Net_ok, []) | f # fs \<Rightarrow> (f, fs));
          c = c\<lparr>cl_net := rest\<rparr>
      in case (fate, map_of (cl_hosts c) origin) of
           (Net_lost, _) \<Rightarrow> (Err (Status Unavailable ''transport error''), c)
         | (_, None) \<Rightarrow> (Err (Status Unavailable ''transport error''), c)
         | (_, Some h) \<Rightarrow>
             (case m h of (r, h') \<Rightarrow>
                (if fate = Net_ok then r else Err (Status Unavailable ''transport error''),
                 c\<lparr>cl_hosts := AList.update origin h' (cl_hosts c)\<rparr>)))"

definition transport_read :: "libs \<Rightarrow> string \<Rightarrow> (cluster, bytes) eff" where
  "transport_read L address =
     bindE (liftE (capability (l_url L) address)) (\<lambda>(origin, token).
     bindE (liftE (grpc_request token)) (\<lambda>header.
     bindE (getE cl_host_now) (\<lambda>now.
     send origin (server_read L now (Some header)))))"

definition transport_write :: "libs \<Rightarrow> string \<Rightarrow> bytes \<Rightarrow> (cluster, state_write) eff" where
  "transport_write L address bytes =
     bindE (liftE (capability (l_url L) address)) (\<lambda>(origin, token).
     bindE (liftE (grpc_request token)) (\<lambda>header.
     bindE (getE cl_host_now) (\<lambda>now.
     bindE (send origin (server_write L now (Some header) bytes)) (\<lambda>already_exists.
     retE (if already_exists then AlreadyExists else Written)))))"

text \<open>The trait \<open>ReplicaPeers\<close>.\<close>

record 'w replica_peers =
  p_initialize :: "replica_target \<Rightarrow> string \<Rightarrow> ('w, unit) eff"
  p_head :: "replica_target \<Rightarrow> replica_stream \<Rightarrow> ('w, stream_head) eff"
  p_seal :: "replica_target \<Rightarrow> string \<Rightarrow> ('w, session_head) eff"
  p_read :: "replica_target \<Rightarrow> string \<Rightarrow> ('w, bytes) eff"

definition peer_client ::
    "libs \<Rightarrow> replica_access \<Rightarrow> replica_target \<Rightarrow> replica_grant \<Rightarrow> (string \<times> string) result" where
  "peer_client L access peer g =
     bindR (access_url L access (rt_url peer) (g\<lparr>gr_host_id := rt_host_id peer\<rparr>)) (\<lambda>address.
     bindR (capability (l_url L) address) (\<lambda>(origin, token).
     bindR (grpc_request token) (\<lambda>header. Ok (origin, header))))"

definition peer_initialize :: "libs \<Rightarrow> replica_access \<Rightarrow> replica_target \<Rightarrow> string \<Rightarrow> (cluster, unit) eff" where
  "peer_initialize L access peer session =
     bindE (getE (\<lambda>c. grant (cl_now c) ''INITIALIZE_SESSION'' (rt_region peer) session 60000)) (\<lambda>g. bindE (liftE g) (\<lambda>g.
     bindE (liftE (peer_client L access peer g)) (\<lambda>(origin, header).
     bindE (getE cl_host_now) (\<lambda>now.
     send origin (server_initialize L now (Some header))))))"

definition peer_head :: "libs \<Rightarrow> replica_access \<Rightarrow> replica_target \<Rightarrow> replica_stream \<Rightarrow> (cluster, stream_head) eff" where
  "peer_head L access peer stream =
     bindE (getE (\<lambda>c. grant (cl_now c) ''HEAD'' (rt_region peer) (rs_prefix stream) 60000)) (\<lambda>g. bindE (liftE g) (\<lambda>g.
     bindE (liftE (peer_client L access peer (g\<lparr>gr_stream := Some stream\<rparr>))) (\<lambda>(origin, header).
     bindE (getE cl_host_now) (\<lambda>now.
     bindE (send origin (server_head L now (Some header))) (\<lambda>reply.
     liftE (head_from_proto reply))))))"

definition peer_seal :: "libs \<Rightarrow> replica_access \<Rightarrow> replica_target \<Rightarrow> string \<Rightarrow> (cluster, session_head) eff" where
  "peer_seal L access peer session =
     bindE (getE (\<lambda>c. grant (cl_now c) ''SEAL_SESSION'' (rt_region peer) session 60000)) (\<lambda>g. bindE (liftE g) (\<lambda>g.
     bindE (liftE (peer_client L access peer g)) (\<lambda>(origin, header).
     bindE (getE cl_host_now) (\<lambda>now.
     bindE (send origin (server_seal L now (Some header))) (\<lambda>reply.
     liftE (session_from_proto reply))))))"

definition peer_read :: "libs \<Rightarrow> replica_access \<Rightarrow> replica_target \<Rightarrow> string \<Rightarrow> (cluster, bytes) eff" where
  "peer_read L access peer object =
     bindE (getE (\<lambda>c. grant (cl_now c) ''GET'' (rt_region peer) object 60000)) (\<lambda>g. bindE (liftE g) (\<lambda>g.
     bindE (liftE (access_url L access (rt_url peer) (g\<lparr>gr_host_id := rt_host_id peer\<rparr>))) (\<lambda>address.
     transport_read L address)))"

definition grpc_replica_peers :: "libs \<Rightarrow> replica_access \<Rightarrow> cluster replica_peers" where
  "grpc_replica_peers L access = \<lparr>p_initialize = peer_initialize L access, p_head = peer_head L access,
     p_seal = peer_seal L access, p_read = peer_read L access\<rparr>"

end
