(* ===== verification/Bucket.thy ===== *)
theory Bucket
  imports Prelude
begin

text \<open>
  The object store that holds ownership records, session records and snapshots:
  \<^verbatim>\<open>src/bucket.rs\<close> (the \<open>Bucket\<close> trait and \<open>replace\<close>) and \<^verbatim>\<open>src/bucket/file.rs\<close> (the bucket over
  a directory).

  A \<open>dyn Bucket\<close> is a record of its three operations. The locale \<open>bucket\<close> states what a client may
  rely on while other processes use the same bucket: every call first lets the others change the
  store within a relation \<open>env\<close>, objects never disappear, a changed object has a larger generation, and a successful compare-and-swap acted
  on the generation it was given. \<open>file_bucket\<close> is the directory bucket with its files, its lock
  files, injected I/O faults, and the calls other processes make between two calls of ours. It
  interprets the locale twice: with arbitrary calls of others, and with none.
\<close>

section \<open>The trait\<close>

record bucket_object =
  obj_generation :: int
  obj_bytes :: bytes

type_synonym objects = "string \<rightharpoonup> bucket_object"

record 'w bucket_ops =
  b_get :: "string \<Rightarrow> ('w, bucket_object option) eff"
  b_cas :: "string \<Rightarrow> int option \<Rightarrow> bytes \<Rightarrow> ('w, bool) eff"
  b_list :: "string \<Rightarrow> ('w, string list) eff"

definition replace :: "'w bucket_ops \<Rightarrow> string \<Rightarrow> int option \<Rightarrow> bytes \<Rightarrow> ('w, bool) eff" where
  "replace B key generation bytes =
     bindE (tryE (b_cas B key generation bytes)) (\<lambda>result.
     if result = Ok True then retE True
     else
       bindE (b_get B key) (\<lambda>object.
       if (case object of None \<Rightarrow> False | Some ob \<Rightarrow> obj_bytes ob = bytes) then retE True
       else liftE result))"

section \<open>The bucket over a directory\<close>

text \<open>Big-endian bytes of a signed 64-bit generation.\<close>

fun be_digits :: "nat \<Rightarrow> int \<Rightarrow> bytes" where
  "be_digits 0 n = []"
| "be_digits (Suc k) n = be_digits k (n div 256) @ [char_of (n mod 256)]"

definition be_value :: "bytes \<Rightarrow> int" where
  "be_value bs = foldl (\<lambda>acc c. acc * 256 + of_char c) 0 bs"

definition to_be_bytes :: "int \<Rightarrow> bytes" where
  "to_be_bytes g = be_digits 8 (g mod 2 ^ 64)"

definition from_be_bytes :: "bytes \<Rightarrow> int" where
  "from_be_bytes bs = (let n = be_value bs in if n < 2 ^ 63 then n else n - 2 ^ 64)"

definition checked_add_i64 :: "int \<Rightarrow> int \<Rightarrow> int option" where
  "checked_add_i64 a b = (if - (2 ^ 63) \<le> a + b \<and> a + b < 2 ^ 63 then Some (a + b) else None)"

text \<open>
  The directory: the files by their path relative to the bucket's root, the faults of the coming I/O
  calls, and the compare-and-swaps that other processes make before each of our coming calls.
\<close>

record file_bucket =
  fb_files :: "(string \<times> bytes) list"
  fb_faults :: "bool list"
  fb_foreign :: "(string \<times> int option \<times> bytes) list list"

definition fb_io :: "(file_bucket, unit) eff" where
  "fb_io w = (case fb_faults w of [] \<Rightarrow> (Ok (), w)
     | b # bs \<Rightarrow> ((if b then Err (Msg ''input/output error'') else Ok ()), w\<lparr>fb_faults := bs\<rparr>))"

definition object_path :: "string \<Rightarrow> string result" where
  "object_path key =
     bindR (ensure (key \<noteq> [] \<and>
       list_all (\<lambda>part. part \<noteq> [] \<and> \<not> starts_with part ''.'' \<and> CHR 0x5C \<notin> set part)
         (split_on (CHR ''/'') key)) ''invalid bucket object path'') (\<lambda>_. Ok key)"

text \<open>
  \<open>File::open\<close>: a missing file is no error, a path below a regular file is one. Opening a directory
  succeeds and the first read fails, as it does on a file with no content.
\<close>

definition file_open :: "(string \<times> bytes) list \<Rightarrow> string \<Rightarrow> bytes option result" where
  "file_open files path =
     (if list_ex (\<lambda>f. prefix (f @ ''/'') path) (map fst files) then Err (Msg ''not a directory'')
      else (case map_of files path of
              Some content \<Rightarrow> Ok (Some content)
            | None \<Rightarrow> if list_ex (\<lambda>f. prefix (path @ ''/'') f) (map fst files) then Ok (Some []) else Ok None))"

definition read_generation :: "bytes \<Rightarrow> (int \<times> bytes) result" where
  "read_generation content =
     (if 8 \<le> length content then Ok (from_be_bytes (take 8 content), drop 8 content)
      else Err (Msg ''incomplete bucket object''))"

definition file_read :: "(string \<times> bytes) list \<Rightarrow> string \<Rightarrow> bucket_object option result" where
  "file_read files path =
     bindR (file_open files path) (\<lambda>f.
     case f of None \<Rightarrow> Ok None
     | Some content \<Rightarrow>
         bindR (read_generation content) (\<lambda>(g, bs).
         Ok (Some \<lparr>obj_generation = g, obj_bytes = bs\<rparr>)))"

text \<open>The lock file of an object stands beside it and is created once.\<close>

definition lock_path :: "string \<Rightarrow> string" where
  "lock_path path =
     (case rev (split_on (CHR ''/'') path) of
        name # parents \<Rightarrow>
          concat (map (\<lambda>p. p @ ''/'') (rev parents)) @ ''.'' @ name @ ''.lock''
      | [] \<Rightarrow> [])"

definition lock_object :: "string \<Rightarrow> (file_bucket, unit) eff" where
  "lock_object path =
     bindE fb_io (\<lambda>_ w.
     if list_ex (\<lambda>f. prefix (f @ ''/'') path) (map fst (fb_files w)) then
       (Err (Msg ''not a directory''), w)
     else if map_of (fb_files w) (lock_path path) = None then
       (Ok (), w\<lparr>fb_files := (lock_path path, []) # fb_files w\<rparr>)
     else (Ok (), w))"

definition file_cas_now :: "string \<Rightarrow> int option \<Rightarrow> bytes \<Rightarrow> (file_bucket, bool) eff" where
  "file_cas_now key expected bytes =
     bindE (liftE (object_path key)) (\<lambda>path.
     bindE (lock_object path) (\<lambda>_.
     bindE fb_io (\<lambda>_.
     bindE (\<lambda>w. (file_read (fb_files w) path, w)) (\<lambda>current.
     let generation = map_option obj_generation current in
     if generation \<noteq> expected then retE False
     else
       bindE (liftE (ok_or (checked_add_i64 (case generation of None \<Rightarrow> 0 | Some g \<Rightarrow> g) 1)
         ''bucket generation overflow'')) (\<lambda>next.
       bindE fb_io (\<lambda>_.
       bindE (\<lambda>w. (Ok (), w\<lparr>fb_files := AList.update path (to_be_bytes next @ bytes) (fb_files w)\<rparr>)) (\<lambda>_.
       bindE fb_io (\<lambda>_. retE True))))))))"

text \<open>
  The last fault of \<open>file_cas_now\<close> is a commit that reports an error after the rename took effect.
  The compare-and-swaps of other processes that take effect before our next call:
\<close>

definition fb_interfere :: "file_bucket \<Rightarrow> file_bucket" where
  "fb_interfere w =
     (case fb_foreign w of [] \<Rightarrow> w
      | ops # rest \<Rightarrow>
          fold (\<lambda>(k, g, b) w. snd (file_cas_now k g b w)) ops (w\<lparr>fb_foreign := rest\<rparr>))"

definition file_get :: "string \<Rightarrow> (file_bucket, bucket_object option) eff" where
  "file_get key w =
     bindE (liftE (object_path key)) (\<lambda>path.
     bindE fb_io (\<lambda>_ w. (file_read (fb_files w) path, w))) (fb_interfere w)"

definition file_compare_and_swap :: "string \<Rightarrow> int option \<Rightarrow> bytes \<Rightarrow> (file_bucket, bool) eff" where
  "file_compare_and_swap key expected bytes w = file_cas_now key expected bytes (fb_interfere w)"

text \<open>The recursive walk skips every entry whose name starts with a dot.\<close>

definition visible :: "string \<Rightarrow> bool" where
  "visible path = list_all (\<lambda>part. \<not> starts_with part ''.'') (split_on (CHR ''/'') path)"

definition file_list :: "string \<Rightarrow> (file_bucket, string list) eff" where
  "file_list p w =
     bindE fb_io (\<lambda>_ w.
       (Ok (sort (filter (\<lambda>k. visible k \<and> starts_with k p) (map fst (fb_files w)))), w))
     (fb_interfere w)"

definition file_bucket_ops :: "file_bucket bucket_ops" where
  "file_bucket_ops = \<lparr>b_get = file_get, b_cas = file_compare_and_swap, b_list = file_list\<rparr>"

definition new_file_bucket :: file_bucket where
  "new_file_bucket = \<lparr>fb_files = [], fb_faults = [], fb_foreign = []\<rparr>"

section \<open>What clients rely on\<close>

text \<open>Between two observations no object disappears, and one that changed has a larger generation.\<close>

definition evolves :: "objects \<Rightarrow> objects \<Rightarrow> bool" where
  "evolves m m' \<longleftrightarrow>
     (\<forall>k x. m k = Some x \<longrightarrow> (\<exists>y. m' k = Some y \<and> (x = y \<or> obj_generation x < obj_generation y)))"

definition swaps :: "string \<Rightarrow> int option \<Rightarrow> bytes \<Rightarrow> objects \<Rightarrow> objects \<Rightarrow> bool" where
  "swaps k g b m m' \<longleftrightarrow>
     map_option obj_generation (m k) = g \<and>
     (\<exists>g'. (\<forall>x. m k = Some x \<longrightarrow> obj_generation x < g') \<and>
           m' = m(k \<mapsto> \<lparr>obj_generation = g', obj_bytes = b\<rparr>))"

lemma evolves_refl [simp]: "evolves m m"
  by (auto simp: evolves_def)

lemma evolves_trans: "evolves m m1 \<Longrightarrow> evolves m1 m2 \<Longrightarrow> evolves m m2"
  unfolding evolves_def by (fastforce dest: order.strict_trans)

lemma swaps_evolves: "swaps k g b m m' \<Longrightarrow> evolves m m'"
  by (auto simp: swaps_def evolves_def)

lemma evolves_same_generation:
  assumes "evolves m m'" "m k = Some x" "map_option obj_generation (m' k) = Some (obj_generation x)"
  shows "m' k = Some x"
  using assms by (force simp: evolves_def)

lemma evolves_absent: "evolves m m' \<Longrightarrow> m' k = None \<Longrightarrow> m k = None"
  by (metis evolves_def not_None_eq)

locale bucket =
  fixes B :: "'w bucket_ops"
    and objs :: "'w \<Rightarrow> objects"
    and wf :: "'w \<Rightarrow> bool"
    and env :: "objects \<Rightarrow> objects \<Rightarrow> bool"
  assumes env_evolves: "env m m' \<Longrightarrow> evolves m m'"
    and get_wf: "wf w \<Longrightarrow> b_get B k w = (r, w') \<Longrightarrow> wf w' \<and> env (objs w) (objs w')"
    and get_value: "wf w \<Longrightarrow> b_get B k w = (Inr x, w') \<Longrightarrow> x = objs w' k"
    and cas_wf: "wf w \<Longrightarrow> b_cas B k g b w = (rb, w') \<Longrightarrow>
        wf w' \<and> (\<exists>m. env (objs w) m \<and> (objs w' = m \<or> swaps k g b m (objs w')))"
    and cas_true: "wf w \<Longrightarrow> b_cas B k g b w = (Inr True, w') \<Longrightarrow>
        \<exists>m. env (objs w) m \<and> swaps k g b m (objs w')"
    and list_wf: "wf w \<Longrightarrow> b_list B p w = (rl, w') \<Longrightarrow> wf w' \<and> env (objs w) (objs w')"
    and list_value: "wf w \<Longrightarrow> b_list B p w = (Inr ks, w') \<Longrightarrow>
        set ks = {k \<in> dom (objs w'). starts_with k p} \<and> sorted ks"
begin

lemma get_evolves: "wf w \<Longrightarrow> b_get B k w = (r, w') \<Longrightarrow> wf w' \<and> evolves (objs w) (objs w')"
  using get_wf env_evolves by blast

lemma cas_evolves: "wf w \<Longrightarrow> b_cas B k g b w = (r, w') \<Longrightarrow> wf w' \<and> evolves (objs w) (objs w')"
  by (drule (1) cas_wf) (auto intro: swaps_evolves evolves_trans env_evolves)

text \<open>
  \<open>replace\<close> reports success only when the bytes are stored under the key, and every change it makes
  is one swap on the generation it was given.
\<close>

lemma replace_evolves:
  assumes "wf w" "replace B k g b w = (r, w')"
  shows "wf w' \<and> evolves (objs w) (objs w')"
proof -
  obtain c w1 where c: "b_cas B k g b w = (c, w1)" by fastforce
  with assms(1) have 1: "wf w1" "evolves (objs w) (objs w1)" using cas_evolves by blast+
  show ?thesis
  proof (cases "c = Inr True")
    case True
    with c assms(2) 1 show ?thesis by (simp add: replace_def eff_simps)
  next
    case False
    obtain v w2 where v: "b_get B k w1 = (v, w2)" by fastforce
    with 1 have "wf w2" "evolves (objs w) (objs w2)" using get_evolves evolves_trans by blast+
    moreover have "w' = w2"
      using assms(2) c v False by (auto simp: replace_def eff_simps bindE_def split: sum.splits if_splits)
    ultimately show ?thesis by simp
  qed
qed

lemma replace_stored:
  assumes "wf w" "replace B k g b w = (Inr True, w')"
  shows "\<exists>ob. objs w' k = Some ob \<and> obj_bytes ob = b"
proof -
  obtain c w1 where c: "b_cas B k g b w = (c, w1)" by fastforce
  with assms(1) have 1: "wf w1" using cas_evolves by blast
  show ?thesis
  proof (cases "c = Inr True")
    case True
    with c assms(1) obtain m where "swaps k g b m (objs w1)" using cas_true by blast
    moreover have "w' = w1" using assms(2) c True by (simp add: replace_def eff_simps)
    ultimately show ?thesis by (auto simp: swaps_def)
  next
    case False
    obtain v w2 where v: "b_get B k w1 = (v, w2)" by fastforce
    have "\<exists>ob. v = Inr (Some ob) \<and> obj_bytes ob = b \<and> w' = w2"
      using assms(2) c v False
      by (auto simp: replace_def eff_simps bindE_def split: sum.splits if_splits option.splits)
    with v 1 show ?thesis using get_value by fastforce
  qed
qed

end

section \<open>The directory bucket keeps the contract\<close>

definition fb_objs :: "file_bucket \<Rightarrow> objects" where
  "fb_objs w k =
     (if object_path k = Ok k then
        (case map_of (fb_files w) k of
           Some content \<Rightarrow>
             if 8 \<le> length content then
               Some \<lparr>obj_generation = from_be_bytes (take 8 content), obj_bytes = drop 8 content\<rparr>
             else None
         | None \<Rightarrow> None)
      else None)"

definition fb_wf :: "file_bucket \<Rightarrow> bool" where
  "fb_wf w \<longleftrightarrow>
     distinct (map fst (fb_files w)) \<and>
     (\<forall>(k, content) \<in> set (fb_files w). visible k \<longrightarrow> object_path k = Ok k \<and> 8 \<le> length content)"

lemma be_value_snoc: "be_value (bs @ [c]) = be_value bs * 256 + of_char c"
  by (simp add: be_value_def)

lemma length_be_digits [simp]: "length (be_digits k n) = k"
  by (induction k arbitrary: n) auto

lemma be_value_be_digits: "0 \<le> n \<Longrightarrow> n < 256 ^ k \<Longrightarrow> be_value (be_digits k n) = n"
proof (induction k arbitrary: n)
  case 0 then show ?case by (simp add: be_value_def)
next
  case (Suc k)
  then have "n div 256 < 256 ^ k" by (simp add: div_less_iff_less_mult mult.commute)
  with Suc show ?case by (simp add: be_value_snoc)
qed

lemma length_to_be_bytes [simp]: "length (to_be_bytes g) = 8"
  by (simp add: to_be_bytes_def)

lemma from_to_be_bytes:
  assumes "- (2 ^ 63) \<le> g" "g < 2 ^ 63"
  shows "from_be_bytes (to_be_bytes g) = g"
proof -
  have "be_value (to_be_bytes g) = g mod 2 ^ 64"
    unfolding to_be_bytes_def by (rule be_value_be_digits) simp_all
  moreover have "g mod 2 ^ 64 = (if 0 \<le> g then g else g + 2 ^ 64)"
    using assms by (auto intro: mod_pos_pos_trivial) (subst mod_add_self2 [symmetric], subst mod_pos_pos_trivial, auto)
  ultimately show ?thesis using assms by (simp add: from_be_bytes_def Let_def)
qed

lemma object_path_Ok: "object_path k = Inr p \<Longrightarrow> p = k"
  by (auto simp: object_path_def result_simps)

lemma object_path_visible: "object_path k = Inr k \<Longrightarrow> visible k"
  by (auto simp: object_path_def visible_def result_simps list_all_iff)

lemma lock_path_hidden: "\<not> visible (lock_path k)"
proof -
  obtain name parents where r: "rev (split_on (CHR ''/'') k) = name # parents"
    by (metis list.exhaust rev_is_Nil_conv split_on_nonempty)
  then have "name \<in> set (split_on (CHR ''/'') k)"
    by (metis list.set_intros(1) set_rev)
  then have no: "CHR ''/'' \<notin> set (''.'' @ name @ ''.lock'')"
    using split_on_no_sep by fastforce
  have "\<exists>qs. split_on (CHR ''/'') (concat (map (\<lambda>p. p @ ''/'') ps) @ a) = qs @ [a]"
    if "CHR ''/'' \<notin> set a" for ps and a :: string
    using that by (induction ps) (auto simp: split_on_none split_on_append)
  from this [OF no] obtain qs where "split_on (CHR ''/'') (lock_path k) = qs @ [''.'' @ name @ ''.lock'']"
    unfolding lock_path_def r by auto
  then show ?thesis by (simp add: visible_def starts_with_def)
qed

lemma fb_io_files: "fb_io w = (r, w') \<Longrightarrow> fb_files w' = fb_files w"
  by (auto simp: fb_io_def split: list.splits)

definition same_objects :: "file_bucket \<Rightarrow> file_bucket \<Rightarrow> bool" where
  "same_objects w w' \<longleftrightarrow> fb_objs w' = fb_objs w \<and> (fb_wf w \<longrightarrow> fb_wf w')"

lemma same_objects_refl [simp]: "same_objects w w"
  by (simp add: same_objects_def)

lemma same_objects_trans: "same_objects w w1 \<Longrightarrow> same_objects w1 w2 \<Longrightarrow> same_objects w w2"
  by (simp add: same_objects_def)

lemma same_files: "fb_files w' = fb_files w \<Longrightarrow> same_objects w w'"
  by (simp add: same_objects_def fb_objs_def fb_wf_def fun_eq_iff)

lemma fb_io_same: "fb_io w = (r, w') \<Longrightarrow> same_objects w w'"
  by (intro same_files fb_io_files)

lemma lock_object_same:
  assumes "lock_object k w = (r, w')" shows "same_objects w w'"
proof -
  obtain r1 w1 where io: "fb_io w = (r1, w1)" by fastforce
  then have s1: "same_objects w w1" by (rule fb_io_same)
  have "same_objects w1 w'"
  proof (cases "w' = w1")
    case False
    then have w': "w' = w1\<lparr>fb_files := (lock_path k, []) # fb_files w1\<rparr>"
      and new: "map_of (fb_files w1) (lock_path k) = None"
      using assms io by (auto simp: lock_object_def bindE_def split: sum.splits if_splits)
    from w' have "fb_objs w' = fb_objs w1"
      using lock_path_hidden [of k] object_path_visible by (fastforce simp: fb_objs_def fun_eq_iff)
    moreover from w' new have "fb_wf w1 \<Longrightarrow> fb_wf w'"
      using lock_path_hidden [of k] by (auto simp: fb_wf_def map_of_eq_None_iff)
    ultimately show ?thesis by (simp add: same_objects_def)
  qed simp
  with s1 show ?thesis by (rule same_objects_trans)
qed

lemma file_read_objs:
  "object_path k = Inr k \<Longrightarrow> file_read (fb_files w) k = Inr x \<Longrightarrow> x = fb_objs w k"
  by (auto simp: file_read_def file_open_def read_generation_def fb_objs_def result_simps
      split: if_splits option.splits)

lemma in_set_update: "(x, y) \<in> set (AList.update k v al) \<Longrightarrow> x = k \<and> y = v \<or> (x, y) \<in> set al"
  by (induction al) (auto split: if_splits)

lemma fb_commit:
  assumes "fb_wf w" "object_path k = Inr k" "- (2 ^ 63) \<le> g'" "g' < 2 ^ 63"
    and w': "w' = w\<lparr>fb_files := AList.update k (to_be_bytes g' @ b) (fb_files w)\<rparr>"
  shows "fb_wf w'" "fb_objs w' = (fb_objs w)(k \<mapsto> \<lparr>obj_generation = g', obj_bytes = b\<rparr>)"
proof -
  show "fb_wf w'"
    using assms(1,2) unfolding w' fb_wf_def
    by (auto simp: distinct_update dest: in_set_update)
  show "fb_objs w' = (fb_objs w)(k \<mapsto> \<lparr>obj_generation = g', obj_bytes = b\<rparr>)"
    using assms(2-4) unfolding w' by (auto simp: fb_objs_def fun_eq_iff update_conv from_to_be_bytes)
qed

text \<open>One compare-and-swap with the lock held.\<close>

lemma file_cas_now_spec:
  assumes wf: "fb_wf w" and cas: "file_cas_now k g b w = (r, w')"
  shows "fb_wf w' \<and> (fb_objs w' = fb_objs w \<and> r \<noteq> Inr True \<or> swaps k g b (fb_objs w) (fb_objs w'))"
proof (cases "object_path k")
  case (Inl e)
  with wf cas show ?thesis by (auto simp: file_cas_now_def eff_simps bindE_def)
next
  case (Inr p)
  then have path: "object_path k = Inr k" using object_path_Ok by fastforce
  obtain r1 w1 where l: "lock_object k w = (r1, w1)" by fastforce
  obtain r2 w2 where i: "fb_io w1 = (r2, w2)" by fastforce
  obtain r3 w3 where j: "fb_io w2 = (r3, w3)" by fastforce
  have same: "same_objects w w1" "same_objects w w2" "same_objects w w3"
    using lock_object_same [OF l] fb_io_same [OF i] fb_io_same [OF j] same_objects_trans by blast+
  show ?thesis
  proof (cases "\<exists>u v q x n. r1 = Inr u \<and> r2 = Inr v \<and> r3 = Inr q \<and> file_read (fb_files w2) k = Inr x \<and>
      map_option obj_generation x = g \<and> checked_add_i64 (case g of None \<Rightarrow> 0 | Some y \<Rightarrow> y) 1 = Some n")
    case False
    then have "(w' = w1 \<or> w' = w2 \<or> w' = w3) \<and> r \<noteq> Inr True"
      using cas path l i j
      by (auto simp: file_cas_now_def bindE_def liftE_def retE_def Let_def ok_or_def
          split: sum.splits if_splits option.splits prod.splits)
    with same wf show ?thesis by (auto simp: same_objects_def)
  next
    case True
    then obtain x n where ok: "r1 = Inr ()" "r2 = Inr ()" "r3 = Inr ()" "file_read (fb_files w2) k = Inr x"
      "map_option obj_generation x = g" "checked_add_i64 (case g of None \<Rightarrow> 0 | Some y \<Rightarrow> y) 1 = Some n"
      by auto
    define w4 where "w4 = w3\<lparr>fb_files := AList.update k (to_be_bytes n @ b) (fb_files w3)\<rparr>"
    have "snd (fb_io w4) = w'"
      using cas path l i j ok
      by (auto simp: file_cas_now_def bindE_def liftE_def retE_def Let_def ok_or_def w4_def [symmetric]
          split: sum.splits if_splits option.splits prod.splits)
    then have last: "same_objects w4 w'" using fb_io_same by (metis prod.collapse)
    have x: "x = fb_objs w k"
      using file_read_objs [OF path ok(4)] same(2) by (simp add: same_objects_def)
    from ok(6) have n: "- (2 ^ 63) \<le> n" "n < 2 ^ 63" "n = (case g of None \<Rightarrow> 0 | Some y \<Rightarrow> y) + 1"
      by (auto simp: checked_add_i64_def split: if_splits)
    have wf3: "fb_wf w3" using wf same by (simp add: same_objects_def)
    note c = fb_commit [OF wf3 path n(1,2) w4_def]
    from c last same have "fb_wf w'" "fb_objs w' = (fb_objs w)(k \<mapsto> \<lparr>obj_generation = n, obj_bytes = b\<rparr>)"
      by (auto simp: same_objects_def)
    moreover from this x ok(5) n(3) have "swaps k g b (fb_objs w) (fb_objs w')"
      unfolding swaps_def by (intro conjI exI [of _ n]) auto
    ultimately show ?thesis by simp
  qed
qed

lemma fb_interfere_spec:
  assumes "fb_wf w" shows "fb_wf (fb_interfere w) \<and> evolves (fb_objs w) (fb_objs (fb_interfere w))"
proof -
  have "fb_wf (fold (\<lambda>(k, g, b) w. snd (file_cas_now k g b w)) ops v) \<and>
      evolves (fb_objs v) (fb_objs (fold (\<lambda>(k, g, b) w. snd (file_cas_now k g b w)) ops v))"
    if "fb_wf v" for ops v
    using that
  proof (induction ops arbitrary: v)
    case (Cons op ops)
    obtain k g b where op: "op = (k, g, b)" by (cases op)
    obtain r v1 where v1: "file_cas_now k g b v = (r, v1)" by fastforce
    with file_cas_now_spec [OF Cons.prems] have "fb_wf v1" "evolves (fb_objs v) (fb_objs v1)"
      by (fastforce dest: swaps_evolves)+
    with Cons.IH [of v1] op v1 show ?case by (auto intro: evolves_trans)
  qed simp
  moreover have "same_objects w (w\<lparr>fb_foreign := rest\<rparr>)" for rest
    by (rule same_files) simp
  ultimately show ?thesis
    using assms unfolding same_objects_def fb_interfere_def by (auto split: list.split) metis
qed

lemma file_get_spec:
  assumes "fb_wf w" "file_get k w = (r, w')"
  shows "fb_wf w' \<and> evolves (fb_objs w) (fb_objs w') \<and> (\<forall>x. r = Inr x \<longrightarrow> x = fb_objs w' k)"
proof -
  note i = fb_interfere_spec [OF assms(1)]
  have same: "same_objects (fb_interfere w) w'"
    using assms(2)
    by (auto simp: file_get_def bindE_def liftE_def fb_io_same split: sum.splits prod.splits)
  have "x = fb_objs w' k" if "r = Inr x" for x
    using assms(2) that file_read_objs
    by (auto simp: file_get_def bindE_def liftE_def split: sum.splits prod.splits)
      (use object_path_Ok in blast)
  with i same show ?thesis by (auto simp: same_objects_def)
qed

lemma file_list_spec:
  assumes "fb_wf w" "file_list p w = (r, w')"
  shows "fb_wf w' \<and> evolves (fb_objs w) (fb_objs w') \<and>
    (\<forall>ks. r = Inr ks \<longrightarrow> set ks = {k \<in> dom (fb_objs w'). starts_with k p} \<and> sorted ks)"
proof -
  note i = fb_interfere_spec [OF assms(1)]
  have same: "same_objects (fb_interfere w) w'"
    using assms(2) by (auto simp: file_list_def bindE_def fb_io_same split: sum.splits prod.splits)
  with i have wf: "fb_wf w'" by (simp add: same_objects_def)
  have "k \<in> dom (fb_objs w') \<longleftrightarrow> visible k \<and> k \<in> set (map fst (fb_files w'))" for k
  proof
    assume "k \<in> dom (fb_objs w')"
    then show "visible k \<and> k \<in> set (map fst (fb_files w'))"
      by (force simp: fb_objs_def object_path_visible split: if_splits option.splits dest: map_of_SomeD)
  next
    assume k: "visible k \<and> k \<in> set (map fst (fb_files w'))"
    then obtain c where c: "map_of (fb_files w') k = Some c"
      by (metis map_of_eq_None_iff not_None_eq set_map)
    with k wf have "object_path k = Inr k \<and> 8 \<le> length c"
      by (auto simp: fb_wf_def dest!: map_of_SomeD)
    with c show "k \<in> dom (fb_objs w')" by (simp add: fb_objs_def dom_def)
  qed
  moreover have "ks = sort (filter (\<lambda>k. visible k \<and> starts_with k p) (map fst (fb_files w')))"
    if "r = Inr ks" for ks
    using assms(2) that by (auto simp: file_list_def bindE_def split: sum.splits prod.splits)
  ultimately show ?thesis using i same wf by (auto simp: same_objects_def) force
qed

lemma file_cas_spec:
  assumes "fb_wf w" "file_compare_and_swap k g b w = (r, w')"
  shows "fb_wf w' \<and> (fb_objs w' = fb_objs (fb_interfere w) \<and> r \<noteq> Inr True \<or> swaps k g b (fb_objs (fb_interfere w)) (fb_objs w'))"
  using fb_interfere_spec [OF assms(1)] file_cas_now_spec assms(2) unfolding file_compare_and_swap_def by blast

interpretation fb: bucket file_bucket_ops fb_objs fb_wf evolves
proof
  show "fb_wf w' \<and> evolves (fb_objs w) (fb_objs w')"
    if "fb_wf w" "b_get file_bucket_ops k w = (r, w')" for w k r w'
    using that file_get_spec by (auto simp: file_bucket_ops_def)
  show "x = fb_objs w' k" if "fb_wf w" "b_get file_bucket_ops k w = (Inr x, w')" for w k x w'
    using that file_get_spec by (auto simp: file_bucket_ops_def)
  show "fb_wf w' \<and> (\<exists>m. evolves (fb_objs w) m \<and> (fb_objs w' = m \<or> swaps k g b m (fb_objs w')))"
    if "fb_wf w" "b_cas file_bucket_ops k g b w = (r, w')" for w k g b r w'
    using that fb_interfere_spec [OF that(1)] file_cas_spec by (fastforce simp: file_bucket_ops_def)
  show "\<exists>m. evolves (fb_objs w) m \<and> swaps k g b m (fb_objs w')"
    if "fb_wf w" "b_cas file_bucket_ops k g b w = (Inr True, w')" for w k g b w'
    using that fb_interfere_spec [OF that(1)] file_cas_spec by (fastforce simp: file_bucket_ops_def)
  show "fb_wf w' \<and> evolves (fb_objs w) (fb_objs w')"
    if "fb_wf w" "b_list file_bucket_ops p w = (r, w')" for w p r w'
    using that file_list_spec by (auto simp: file_bucket_ops_def)
  show "set ks = {k \<in> dom (fb_objs w'). starts_with k p} \<and> sorted ks"
    if "fb_wf w" "b_list file_bucket_ops p w = (Inr ks, w')" for w p ks w'
    using that file_list_spec by (auto simp: file_bucket_ops_def)
qed simp

text \<open>After the interference a call that reads keeps the files, and no call changes what others will do.\<close>

lemma fb_io_foreign: "fb_io w = (r, w') \<Longrightarrow> fb_foreign w' = fb_foreign w"
  by (auto simp: fb_io_def split: list.splits)

lemma file_cas_now_foreign: "file_cas_now k g b w = (r, w') \<Longrightarrow> fb_foreign w' = fb_foreign w"
  by (auto simp: file_cas_now_def lock_object_def bindE_def Let_def liftE_def retE_def
      split: sum.splits prod.splits if_splits dest!: fb_io_foreign)

lemma file_get_frame:
  "file_get k w = (r, w') \<Longrightarrow> same_objects (fb_interfere w) w' \<and> fb_foreign w' = fb_foreign (fb_interfere w)"
  unfolding file_get_def
  by (auto simp: bindE_def liftE_def fb_io_same split: sum.splits prod.splits dest: fb_io_foreign)

lemma file_list_frame:
  "file_list p w = (r, w') \<Longrightarrow> same_objects (fb_interfere w) w' \<and> fb_foreign w' = fb_foreign (fb_interfere w)"
  unfolding file_list_def by (auto simp: bindE_def fb_io_same split: sum.splits prod.splits dest: fb_io_foreign)

section \<open>Properties\<close>



text \<open>
  C11: \<open>replace\<close> reports success only when the object holds the given bytes, also when the swap itself
  reported an error after it took effect, and it never loses another object.
\<close>

theorem file_replace_stored:
  assumes "fb_wf w" "replace file_bucket_ops k g b w = (r, w')"
  shows "fb_wf w' \<and> evolves (fb_objs w) (fb_objs w') \<and>
    (r = Ok True \<longrightarrow> (\<exists>ob. fb_objs w' k = Some ob \<and> obj_bytes ob = b))"
  using fb.replace_evolves [OF assms] fb.replace_stored assms by blast

text \<open>The commit of the witness takes effect and then fails; the re-read finds the bytes.\<close>

theorem file_replace_stored_witness:
  "let w = new_file_bucket\<lparr>fb_faults := [False, False, False, True]\<rparr>;
       (c, _) = file_compare_and_swap ''k'' None ''x'' w;
       (r, w') = replace file_bucket_ops ''k'' None ''x'' w
   in c = Err (Msg ''input/output error'') \<and> r = Ok True \<and>
      (\<exists>ob. fb_objs w' ''k'' = Some ob \<and> obj_bytes ob = ''x'')"
proof -
  let ?w = "new_file_bucket\<lparr>fb_faults := [False, False, False, True]\<rparr>"
  have wf: "fb_wf ?w" by code_simp
  have c: "fst (file_compare_and_swap ''k'' None ''x'' ?w) = Err (Msg ''input/output error'')" by code_simp
  have r: "fst (replace file_bucket_ops ''k'' None ''x'' ?w) = Ok True" by code_simp
  show ?thesis
    using file_replace_stored [OF wf, of "''k''" None "''x''"] c r
    by (auto simp: Let_def split: prod.splits)
qed

end
