(* ===== verification/Runtime_Storage.thy ===== *)
theory Runtime_Storage
  imports Replica_Server Bucket Sockets
begin

text \<open>
  The storage of the runtime: \<^verbatim>\<open>src/bucket/runtime.rs\<close> and its modules \<open>session\<close>, \<open>activation\<close>, \<open>repair\<close>,
  \<open>startup\<close> and \<open>history\<close>, with the leases of \<^verbatim>\<open>src/host_leases.rs\<close> and the placements of
  \<^verbatim>\<open>src/placement.rs\<close>.

  \<open>RuntimeStorage\<close> works on a bucket, replica peers, a provisioner of replicas and clocks, which are
  trait objects: the record \<open>runtime\<close> holds their operations on an environment of type \<open>'e\<close>, and
  \<open>runtime_storage\<close> the memory of the process with that environment. The tasks of a \<open>JoinSet\<close> complete in
  the order \<open>rn_order\<close> picks, the values of a hash map come in the order \<open>rn_shuffle\<close> picks; a task that is
  aborted or runs out of time is a call that returns an error. Retry loops run at most \<open>rn_rounds\<close> times
  and give \<open>Diverged\<close> beyond.
\<close>

section \<open>Leases, inventories and placements\<close>

definition MAX_HOST_LEASE_DURATION_MS :: u64 where "MAX_HOST_LEASE_DURATION_MS = 60000"

record host_lease =
  hl_id :: host_id
  hl_session_id :: string
  hl_route :: string
  hl_expires_at_ms :: u64

record host_lease_request =
  hr_id :: host_id
  hr_session_id :: string
  hr_route :: string
  hr_duration_ms :: u64

definition validate_duration :: "host_lease_request \<Rightarrow> unit result" where
  "validate_duration r =
     bindR (ensure (0 < hr_duration_ms r) ''host lease duration must be positive'') (\<lambda>_.
     ensure (hr_duration_ms r \<le> MAX_HOST_LEASE_DURATION_MS)
       (''host lease duration must not exceed '' @ show_u64 MAX_HOST_LEASE_DURATION_MS @ ''ms''))"

record waiting_operation =
  wo_id :: string
  wo_operation :: string

record activation_inventory =
  ai_resident :: "bool option"
  ai_connections :: "socket_connection list"
  ai_waiting :: "waiting_operation list option"

definition default_inventory :: activation_inventory where
  "default_inventory = \<lparr>ai_resident = None, ai_connections = [], ai_waiting = None\<rparr>"

record object_placement =
  op_lease :: host_lease
  op_object :: storage_key
  op_owner :: host_id
  op_owner_epoch :: u64
  op_home_region :: string
  op_state_version :: u64
  op_state_object :: "string option"
  op_last_request_id :: "string option"

datatype actor_residency = Live | Dormant | Unknown

record actor_connection_inventory =
  aci_id :: string
  aci_metadata :: json

record actor_instance_overview =
  aio_actor_id :: string
  aio_status :: actor_residency
  aio_connections :: "actor_connection_inventory list"
  aio_waiting :: "waiting_operation list option"

record actor_inventory =
  inv_actor_name :: string
  inv_live :: u64
  inv_dormant :: u64
  inv_unknown :: u64
  inv_instances :: "actor_instance_overview list"

section \<open>Records in the bucket\<close>

record ownership =
  ow_inventory :: activation_inventory
  ow_lease :: host_lease
  ow_mutation :: string
  ow_actor :: actor_key
  ow_epoch :: u64
  ow_region :: string
  ow_base :: "snapshot_ref option"

datatype recovery_state = Open | Recovering | Sealed

record session_record =
  se_id :: string
  se_region :: string
  se_replicas :: "replica_target list"
  se_state :: recovery_state

record state_record =
  sre_state_version :: u64
  sre_owner_epoch :: u64
  sre_request_id :: string
  sre_attribution :: "state_attribution option"

record runtime_codec =
  ownership_to_vec :: "ownership \<Rightarrow> bytes"
  ownership_from_slice :: "bytes \<Rightarrow> ownership option"
  session_to_vec :: "session_record \<Rightarrow> bytes"
  session_from_slice :: "bytes \<Rightarrow> session_record option"
  record_to_vec :: "state_record \<Rightarrow> bytes"
  record_from_slice :: "bytes \<Rightarrow> state_record option"

definition is_open :: "session_record \<Rightarrow> bool" where
  "is_open s \<longleftrightarrow> se_state s = Open"

section \<open>The environment and the memory\<close>

record 'e provisioner =
  f_regions :: "string list"
  f_ensure :: "replica_scope \<Rightarrow> ('e, replica_target list) eff"
  f_repair :: "replica_scope \<Rightarrow> string list \<Rightarrow> ('e, replica_target list) eff"

text \<open>\<open>repair\<close> has a default, and the static set \<open>ReplicaSet\<close> uses it.\<close>

definition default_repair ::
    "(replica_scope \<Rightarrow> ('e, replica_target list) eff) \<Rightarrow> replica_scope \<Rightarrow> string list \<Rightarrow> ('e, replica_target list) eff" where
  "default_repair ens scope failed = ens scope"

definition replica_set :: "replica_target list \<Rightarrow> 'e provisioner" where
  "replica_set replicas = \<lparr>f_regions = map rt_region replicas, f_ensure = (\<lambda>_. retE replicas),
     f_repair = default_repair (\<lambda>_. retE replicas)\<rparr>"

record 'e state_transport =
  t_read :: "string \<Rightarrow> ('e, bytes) eff"
  t_write :: "string \<Rightarrow> bytes \<Rightarrow> ('e, state_write) eff"

record 'e runtime =
  rn_libs :: libs
  rn_codec :: runtime_codec
  rn_clock :: "('e, u64) eff"
  rn_system_clock :: "('e, u64) eff"
  rn_authority :: "'e bucket_ops"
  rn_fleet :: "'e provisioner"
  rn_peers :: "'e replica_peers"
  rn_access :: replica_access
  rn_origin :: string
  rn_uuid :: "('e, string) eff"
  rn_order :: "'e \<Rightarrow> replica_target list \<Rightarrow> replica_target list"
  rn_shuffle :: "'e \<Rightarrow> snapshot_ref list \<Rightarrow> snapshot_ref list"
  rn_rounds :: nat

record 'e runtime_storage =
  sto_owned :: "storage_key \<rightharpoonup> ownership"
  sto_sessions :: "string \<rightharpoonup> replica_target list"
  sto_env :: 'e

definition envE :: "('e, 'a) eff \<Rightarrow> ('e runtime_storage, 'a) eff" where
  "envE m = zoomE sto_env (\<lambda>e s. s\<lparr>sto_env := e\<rparr>) m"

abbreviation rn_crypto :: "'e runtime \<Rightarrow> crypto" where "rn_crypto R \<equiv> l_crypto (rn_libs R)"
abbreviation rn_snapshots :: "'e runtime \<Rightarrow> snapshot_codec" where "rn_snapshots R \<equiv> l_snapshots (rn_libs R)"

definition new_runtime_storage :: "'e runtime \<Rightarrow> 'e \<Rightarrow> 'e runtime_storage result" where
  "new_runtime_storage R e =
     bindR (ensure (length (f_regions (rn_fleet R)) \<le> MAX_REPLICAS) ''invalid runtime storage configuration'') (\<lambda>_.
     Ok \<lparr>sto_owned = Map.empty, sto_sessions = Map.empty, sto_env = e\<rparr>)"

definition grantE :: "'e runtime \<Rightarrow> string \<Rightarrow> string \<Rightarrow> string \<Rightarrow> u64 \<Rightarrow> ('e, replica_grant) eff" where
  "grantE R operation region object duration_ms =
     bindE (tryE (rn_system_clock R)) (\<lambda>now. liftE (grant now operation region object duration_ms))"

text \<open>The completed tasks of a \<open>JoinSet\<close> with one task per replica.\<close>

definition join_replicas ::
    "'e runtime \<Rightarrow> (replica_target \<Rightarrow> ('e, 'a) eff) \<Rightarrow> replica_target list \<Rightarrow> ('e, 'a result list) eff" where
  "join_replicas R task targets = bindE (getE (\<lambda>e. rn_order R e targets)) (\<lambda>targets. joinE task targets)"

section \<open>Ownership\<close>

record loaded_snapshot =
  ls_reference :: snapshot_ref
  ls_bytes :: bytes

record loaded_actor =
  la_placement :: object_placement
  la_state :: "bytes option"

definition ownership_scope :: "ownership \<Rightarrow> replica_scope" where
  "ownership_scope r = \<lparr>sc_actor = ow_actor r, sc_host = hl_id (ow_lease r),
     sc_session = hl_session_id (ow_lease r), sc_region = ow_region r\<rparr>"

definition apply_snapshot :: "object_placement \<Rightarrow> snapshot_ref option \<Rightarrow> object_placement" where
  "apply_snapshot placement snapshot =
     (case snapshot of None \<Rightarrow> placement
      | Some s \<Rightarrow> placement\<lparr>op_state_version := sr_state_version s, op_state_object := Some (sr_object s),
          op_last_request_id := Some (sr_request_id s)\<rparr>)"

definition ownership_placement :: "ownership \<Rightarrow> object_placement" where
  "ownership_placement r =
     apply_snapshot \<lparr>op_lease = ow_lease r, op_object = storage_key (ow_actor r), op_owner = hl_id (ow_lease r),
       op_owner_epoch = ow_epoch r, op_home_region = ow_region r, op_state_version = 0,
       op_state_object = None, op_last_request_id = None\<rparr> (ow_base r)"

definition session_identity :: "crypto \<Rightarrow> host_id \<Rightarrow> string \<Rightarrow> string" where
  "session_identity C host session = session_path C host session @ ''/''"

definition session_key :: "crypto \<Rightarrow> host_id \<Rightarrow> string \<Rightarrow> string" where
  "session_key C host session = session_path C host session @ ''.json''"

text \<open>\<open>strip_suffix("1.json").unwrap()\<close> cannot fail: the name was built for version one.\<close>

definition ownership_stream :: "crypto \<Rightarrow> ownership \<Rightarrow> replica_stream result" where
  "ownership_stream C r =
     bindR (snapshot_object_name C (ow_actor r) 1 (show_hex_padded 32 (unat (ow_epoch r)))) (\<lambda>name.
     Ok \<lparr>rs_session = session_identity C (hl_id (ow_lease r)) (hl_session_id (ow_lease r)),
       rs_prefix = take (length name - length ''1.json'') name, rs_owner_epoch = ow_epoch r,
       rs_base_version = (case ow_base r of None \<Rightarrow> 0 | Some b \<Rightarrow> sr_state_version b)\<rparr>)"

definition ownership_key :: "crypto \<Rightarrow> storage_key \<Rightarrow> string result" where
  "ownership_key C object = owner_path C object"

section \<open>Reading the newest snapshot\<close>

definition advance :: "snapshot_ref option \<Rightarrow> snapshot_ref option \<Rightarrow> snapshot_ref option result" where
  "advance current candidate =
     (case candidate of
        None \<Rightarrow> Ok current
      | Some cand \<Rightarrow>
          (case current of
             None \<Rightarrow> Ok (Some cand)
           | Some cur \<Rightarrow>
               bindR (ensure (snapshot_position (sr_object cur) \<noteq> snapshot_position (sr_object cand) \<or> cur = cand)
                 ''conflicting snapshot witnesses'') (\<lambda>_.
               Ok (if snapshot_position (sr_object cur) < snapshot_position (sr_object cand)
                   then Some cand else Some cur))))"

definition decode_snapshot :: "libs \<Rightarrow> string \<Rightarrow> bytes \<Rightarrow> loaded_snapshot result" where
  "decode_snapshot L object bytes =
     bindR (decode (l_snapshots L) bytes) (\<lambda>snapshot.
     bindR (ensure (snapshot_position object = Some (ss_owner_epoch snapshot, ss_state_version snapshot))
       ''snapshot identity does not match its object'') (\<lambda>_.
     Ok \<lparr>ls_reference = new_snapshot_ref (l_crypto L) object snapshot bytes, ls_bytes = bytes\<rparr>))"

text \<open>\<open>Iterator::max_by_key\<close>: the last of the greatest elements.\<close>

fun max_by_key :: "('a \<Rightarrow> 'k::linorder) \<Rightarrow> 'a list \<Rightarrow> 'a option" where
  "max_by_key f [] = None"
| "max_by_key f (x # xs) =
     (case max_by_key f xs of None \<Rightarrow> Some x | Some y \<Rightarrow> if f y < f x then Some x else Some y)"

definition newest_key :: "u64 \<Rightarrow> string list \<Rightarrow> string option" where
  "newest_key epoch keys =
     map_option snd (max_by_key fst
       (List.map_filter (\<lambda>key. case snapshot_position key of
            Some position \<Rightarrow> if fst position = epoch then Some (position, key) else None
          | None \<Rightarrow> None) keys))"

definition load :: "'e runtime \<Rightarrow> storage_key \<Rightarrow> ('e, (int \<times> ownership) option) eff" where
  "load R object =
     bindE (liftE (ownership_key (rn_crypto R) object)) (\<lambda>key.
     bindE (b_get (rn_authority R) key) (\<lambda>value.
     case value of None \<Rightarrow> retE None
     | Some v \<Rightarrow>
         bindE (liftE (ok_or (ownership_from_slice (rn_codec R) (obj_bytes v)) ''invalid JSON'')) (\<lambda>record.
         retE (Some (obj_generation v, record)))))"

definition replica_members :: "'e runtime \<Rightarrow> replica_scope \<Rightarrow> ('e, replica_target list) eff" where
  "replica_members R scope =
     bindE (b_get (rn_authority R) (session_key (rn_crypto R) (sc_host scope) (sc_session scope))) (\<lambda>object.
     case object of None \<Rightarrow> retE []
     | Some ob \<Rightarrow>
         bindE (liftE (ok_or (session_from_slice (rn_codec R) (obj_bytes ob)) ''invalid JSON'')) (\<lambda>session.
         bindE (liftE (ensure (se_id session = scope_identity (rn_crypto R) scope \<and> se_region session = sc_region scope)
           ''session identity mismatch'')) (\<lambda>_.
         retE (if se_state session = Sealed then [] else se_replicas session))))"

definition persist :: "'e runtime \<Rightarrow> string \<Rightarrow> bytes \<Rightarrow> ('e, unit) eff" where
  "persist R object bytes =
     bindE (replace (rn_authority R) object None bytes) (\<lambda>stored.
     liftE (ensure stored ''conflicting immutable snapshot''))"

fun recover_from :: "'e runtime \<Rightarrow> replica_target list \<Rightarrow> snapshot_ref \<Rightarrow> ('e, bytes) eff" where
  "recover_from R [] snapshot = failE ''acknowledged snapshot is unavailable''"
| "recover_from R (peer # peers) snapshot =
     bindE (tryE (p_read (rn_peers R) peer (sr_object snapshot))) (\<lambda>result.
     case result of
       Inl _ \<Rightarrow> recover_from R peers snapshot
     | Inr bytes \<Rightarrow>
         bindE (liftE (verify_ref (rn_crypto R) snapshot bytes)) (\<lambda>_.
         bindE (persist R (sr_object snapshot) bytes) (\<lambda>_. retE bytes)))"

definition recover_snapshot :: "'e runtime \<Rightarrow> replica_target list \<Rightarrow> snapshot_ref \<Rightarrow> ('e, bytes) eff" where
  "recover_snapshot R replicas snapshot =
     bindE (b_get (rn_authority R) (sr_object snapshot)) (\<lambda>object.
     case object of
       Some ob \<Rightarrow>
         bindE (liftE (verify_ref (rn_crypto R) snapshot (obj_bytes ob))) (\<lambda>_. retE (obj_bytes ob))
     | None \<Rightarrow> recover_from R replicas snapshot)"

fun collect_heads ::
    "replica_stream \<Rightarrow> stream_head result list \<Rightarrow> snapshot_ref option \<Rightarrow> nat \<Rightarrow> (snapshot_ref option \<times> nat) result" where
  "collect_heads stream [] candidate witnesses = Ok (candidate, witnesses)"
| "collect_heads stream (Inl _ # rs) candidate witnesses = collect_heads stream rs candidate witnesses"
| "collect_heads stream (Inr h # rs) candidate witnesses =
     bindR (ensure (sth_stream h = stream) ''replica returned another stream'') (\<lambda>_.
     bindR (advance candidate (sth_latest h)) (\<lambda>candidate.
     collect_heads stream rs candidate (Suc witnesses)))"

definition load_newest ::
    "'e runtime \<Rightarrow> string option \<Rightarrow> loaded_snapshot option \<Rightarrow> ('e, loaded_snapshot option) eff" where
  "load_newest R newest known =
     (case newest of
        None \<Rightarrow> retE known
      | Some key \<Rightarrow>
          if (case known of Some s \<Rightarrow> sr_object (ls_reference s) = key | None \<Rightarrow> False) then retE known
          else
            bindE (b_get (rn_authority R) key) (\<lambda>object.
            bindE (liftE (ok_or object ''listed snapshot disappeared'')) (\<lambda>ob.
            bindE (liftE (decode_snapshot (rn_libs R) key (obj_bytes ob))) (\<lambda>s. retE (Some s)))))"

definition latest :: "'e runtime \<Rightarrow> ownership \<Rightarrow> loaded_snapshot option \<Rightarrow> ('e, loaded_snapshot option) eff" where
  "latest R record known =
     bindE (liftE (ownership_stream (rn_crypto R) record)) (\<lambda>stream.
     bindE (b_list (rn_authority R) (rs_prefix stream)) (\<lambda>keys.
     bindE (load_newest R (newest_key (ow_epoch record) keys) known) (\<lambda>loaded.
     bindE (liftE (advance (ow_base record) (map_option ls_reference loaded))) (\<lambda>candidate.
     bindE (replica_members R (ownership_scope record)) (\<lambda>replicas.
     bindE (join_replicas R (\<lambda>target. p_head (rn_peers R) target stream) replicas) (\<lambda>heads.
     bindE (liftE (collect_heads stream heads candidate 0)) (\<lambda>(candidate, witnesses).
     bindE (liftE (ensure (replicas = [] \<or> 0 < witnesses)
       ''no complete replica witness; refusing to lose acknowledged state'')) (\<lambda>_.
     case candidate of
       Some snapshot \<Rightarrow>
         if (case loaded of None \<Rightarrow> True | Some s \<Rightarrow> ls_reference s \<noteq> snapshot) then
           bindE (recover_snapshot R replicas snapshot) (\<lambda>bytes.
           retE (Some \<lparr>ls_reference = snapshot, ls_bytes = bytes\<rparr>))
         else retE loaded
     | None \<Rightarrow> retE loaded))))))))"

definition current_placement :: "'e runtime \<Rightarrow> ownership \<Rightarrow> ('e, object_placement) eff" where
  "current_placement R record =
     bindE (latest R record None) (\<lambda>loaded.
     retE (apply_snapshot (ownership_placement record) (map_option ls_reference loaded)))"

definition fetch_snapshot :: "'e runtime \<Rightarrow> replica_grant \<Rightarrow> ('e, bytes) eff" where
  "fetch_snapshot R g =
     bindE (b_get (rn_authority R) (gr_object g)) (\<lambda>object.
     case object of Some ob \<Rightarrow> retE (obj_bytes ob)
     | None \<Rightarrow>
         bindE (liftE (actor_from_snapshot (rn_crypto R) (gr_object g))) (\<lambda>actor.
         bindE (load R (storage_key actor)) (\<lambda>loaded.
         bindE (liftE (ok_or loaded ''missing ownership'')) (\<lambda>(_, record).
         bindE (replica_members R (ownership_scope record)) (\<lambda>members.
         bindE (join_replicas R (\<lambda>peer. p_read (rn_peers R) peer (gr_object g)) members) (\<lambda>results.
         case List.find is_ok results of
           Some (Inr bytes) \<Rightarrow> retE bytes
         | _ \<Rightarrow> failE ''snapshot unavailable''))))))"

section \<open>Placements and reads\<close>

definition get_owner :: "'e runtime \<Rightarrow> storage_key \<Rightarrow> ('e, object_placement option) eff" where
  "get_owner R object =
     bindE (load R object) (\<lambda>loaded. retE (map_option (\<lambda>(_, record). ownership_placement record) loaded))"

definition get_placement :: "'e runtime \<Rightarrow> storage_key \<Rightarrow> ('e, object_placement option) eff" where
  "get_placement R object =
     bindE (load R object) (\<lambda>loaded.
     case loaded of None \<Rightarrow> retE None
     | Some (_, record) \<Rightarrow> bindE (current_placement R record) (\<lambda>p. retE (Some p)))"

definition read_snapshot :: "'e runtime \<Rightarrow> string \<Rightarrow> string \<Rightarrow> ('e, bytes) eff" where
  "read_snapshot R region object =
     bindE (grantE R ''RUNTIME_READ'' region object 60000) (\<lambda>g. fetch_snapshot R g)"

definition read_url :: "'e runtime \<Rightarrow> string \<Rightarrow> string \<Rightarrow> ('e, string) eff" where
  "read_url R region object =
     bindE (grantE R ''RUNTIME_READ'' region object 60000) (\<lambda>g.
     liftE (access_url (rn_libs R) (rn_access R) (rn_origin R) g))"

definition service_read :: "'e runtime \<Rightarrow> string option \<Rightarrow> ('e, bytes) eff" where
  "service_read R header =
     bindE (liftE (grpc_token header)) (\<lambda>token.
     bindE (tryE (rn_system_clock R)) (\<lambda>now.
     bindE (liftE (map_errR (\<lambda>_. Status PermissionDenied ''snapshot read capability rejected'')
       (access_verify (rn_libs R) (rn_access R) now token ''RUNTIME_READ''))) (\<lambda>g.
     map_errE unavailable (fetch_snapshot R g))))"

definition service_write :: "bytes \<Rightarrow> ('e, bool) eff" where
  "service_write bytes = liftE (Err (Status Unimplemented ''write snapshots directly to the bucket''))"

section \<open>Activated actors and write plans\<close>

definition remember :: "ownership \<Rightarrow> loaded_snapshot option \<Rightarrow> ('e runtime_storage, loaded_actor) eff" where
  "remember record snapshot =
     bindE (modE (\<lambda>s. s\<lparr>sto_owned := (sto_owned s)(storage_key (ow_actor record) \<mapsto> record)\<rparr>)) (\<lambda>_.
     retE \<lparr>la_placement = apply_snapshot (ownership_placement record) (map_option ls_reference snapshot),
       la_state = map_option ls_bytes snapshot\<rparr>)"

definition load_actor :: "'e runtime \<Rightarrow> ownership \<Rightarrow> ('e runtime_storage, loaded_actor) eff" where
  "load_actor R record =
     bindE (envE (latest R record None)) (\<lambda>snapshot. remember record snapshot)"

definition activate_actor ::
    "'e runtime \<Rightarrow> actor_key \<Rightarrow> host_lease \<Rightarrow> string \<Rightarrow> ('e runtime_storage, loaded_actor) eff" where
  "activate_actor R actor lease region =
     bindE (envE (load R (storage_key actor))) (\<lambda>loaded.
     bindE (liftE (ok_or loaded ''actor has no ownership'')) (\<lambda>(_, record).
     bindE (liftE (ensure (ow_actor record = actor \<and> ow_region record = region \<and>
         hl_id (ow_lease record) = hl_id lease \<and> hl_session_id (ow_lease record) = hl_session_id lease)
       ''actor ownership changed'')) (\<lambda>_.
     load_actor R record)))"

definition load_owned_actor ::
    "'e runtime \<Rightarrow> actor_key \<Rightarrow> host_lease \<Rightarrow> u64 \<Rightarrow> ('e runtime_storage, loaded_actor) eff" where
  "load_owned_actor R actor lease epoch =
     bindE (envE (load R (storage_key actor))) (\<lambda>loaded.
     bindE (liftE (ok_or loaded ''actor has no ownership'')) (\<lambda>(_, record).
     bindE (liftE (ensure (hl_id (ow_lease record) = hl_id lease \<and>
         hl_session_id (ow_lease record) = hl_session_id lease \<and> ow_epoch record = epoch)
       ''actor ownership changed'')) (\<lambda>_.
     load_actor R record)))"

definition try_from_i64 :: "u64 \<Rightarrow> int result" where
  "try_from_i64 n =
     (if uint n < 2 ^ 63 then Ok (uint n) else Err (Msg ''out of range integral type conversion attempted''))"

definition signed_target ::
    "'e runtime \<Rightarrow> replica_grant \<Rightarrow> replica_target \<Rightarrow> replica_target result" where
  "signed_target R cap peer =
     bindR (access_url (rn_libs R) (rn_access R) (rt_url peer) (cap\<lparr>gr_host_id := rt_host_id peer\<rparr>)) (\<lambda>url.
     Ok \<lparr>rt_host_id = rt_host_id peer, rt_url = url, rt_region = rt_region peer\<rparr>)"

definition make_write_plan ::
    "'e runtime \<Rightarrow> ownership \<Rightarrow> u64 \<Rightarrow> replica_target list \<Rightarrow> ('e, write_plan) eff" where
  "make_write_plan R record version replicas =
     bindE (liftE (ensure (0 < version) ''state version must be positive'')) (\<lambda>_.
     bindE (liftE (ownership_stream (rn_crypto R) record)) (\<lambda>stream.
     bindE (grantE R ''APPEND'' (ow_region record) (rs_prefix stream) 60000) (\<lambda>g.
     let cap = g\<lparr>gr_stream := Some stream\<rparr> in
     bindE (liftE (try_from_i64 (gr_expires_at_ms cap))) (\<lambda>expires_at_ms.
     bindE (liftE (all_ok (map (signed_target R cap) replicas))) (\<lambda>targets.
     retE \<lparr>wp_stream = stream, wp_state_version = version, wp_object_name = stream_object stream version,
       wp_expires_at_ms = expires_at_ms,
       wp_replication = (if targets = [] then None else Some targets)\<rparr>)))))"

definition local_replica_members :: "'e runtime \<Rightarrow> replica_scope \<Rightarrow> 'e runtime_storage \<Rightarrow> replica_target list" where
  "local_replica_members R scope s =
     (case sto_sessions s (scope_identity (rn_crypto R) scope) of Some m \<Rightarrow> m | None \<Rightarrow> [])"

definition prepare_actor_write ::
    "'e runtime \<Rightarrow> actor_key \<Rightarrow> host_lease \<Rightarrow> u64 \<Rightarrow> u64 \<Rightarrow> ('e runtime_storage, write_plan) eff" where
  "prepare_actor_write R actor lease epoch version =
     bindE (getE (\<lambda>s. sto_owned s (storage_key actor))) (\<lambda>owned.
     bindE (liftE (ok_or owned ''actor is not locally activated'')) (\<lambda>record.
     bindE (liftE (ensure (hl_id (ow_lease record) = hl_id lease \<and>
         hl_session_id (ow_lease record) = hl_session_id lease \<and> ow_epoch record = epoch)
       ''actor ownership changed'')) (\<lambda>_.
     bindE (getE (local_replica_members R (ownership_scope record))) (\<lambda>replicas.
     envE (make_write_plan R record version replicas)))))"

definition write_snapshot :: "'e runtime \<Rightarrow> write_plan \<Rightarrow> bytes \<Rightarrow> ('e, state_write) eff" where
  "write_snapshot R plan bytes =
     bindE (liftE (stream_snapshot (rn_crypto R) (rn_snapshots R) (wp_stream plan) bytes)) (\<lambda>snapshot.
     bindE (liftE (ensure (sr_object snapshot = wp_object_name plan \<and> sr_state_version snapshot = wp_state_version plan)
       ''write plan does not match snapshot'')) (\<lambda>_.
     bindE (persist R (sr_object snapshot) bytes) (\<lambda>_. retE Written)))"

section \<open>Inventory\<close>

definition instance_overview :: "ownership \<Rightarrow> u64 \<Rightarrow> actor_instance_overview" where
  "instance_overview record now =
     (if hl_expires_at_ms (ow_lease record) \<le> now then
        \<lparr>aio_actor_id = actor_id (ow_actor record), aio_status = Dormant, aio_connections = [], aio_waiting = Some []\<rparr>
      else
        \<lparr>aio_actor_id = actor_id (ow_actor record),
         aio_status = (case ai_resident (ow_inventory record) of
            Some True \<Rightarrow> Live | Some False \<Rightarrow> Dormant | None \<Rightarrow> Unknown),
         aio_connections = map (\<lambda>c. \<lparr>aci_id = asc_id c, aci_metadata = asc_metadata c\<rparr>)
            (ai_connections (ow_inventory record)),
         aio_waiting = ai_waiting (ow_inventory record)\<rparr>)"

definition count_instance :: "actor_instance_overview \<Rightarrow> actor_inventory \<Rightarrow> actor_inventory" where
  "count_instance i row =
     (let row = (case aio_status i of
          Live \<Rightarrow> row\<lparr>inv_live := inv_live row + 1\<rparr>
        | Dormant \<Rightarrow> row\<lparr>inv_dormant := inv_dormant row + 1\<rparr>
        | Unknown \<Rightarrow> row\<lparr>inv_unknown := inv_unknown row + 1\<rparr>)
      in row\<lparr>inv_instances := inv_instances row @ [i]\<rparr>)"

definition empty_row :: "string \<Rightarrow> actor_inventory" where
  "empty_row name = \<lparr>inv_actor_name = name, inv_live = 0, inv_dormant = 0, inv_unknown = 0, inv_instances = []\<rparr>"

fun inventory_rows ::
    "'e runtime \<Rightarrow> string \<Rightarrow> string list \<Rightarrow> (string \<times> actor_inventory) list \<Rightarrow> ('e, (string \<times> actor_inventory) list) eff" where
  "inventory_rows R project [] rows = retE rows"
| "inventory_rows R project (key # keys) rows =
     bindE (b_get (rn_authority R) key) (\<lambda>object.
     case object of
       None \<Rightarrow> inventory_rows R project keys rows
     | Some ob \<Rightarrow>
         bindE (liftE (ok_or (ownership_from_slice (rn_codec R) (obj_bytes ob)) ''invalid JSON'')) (\<lambda>record.
         if project_id (ow_actor record) \<noteq> project then inventory_rows R project keys rows
         else
           bindE (rn_clock R) (\<lambda>now.
           let name = actor_name (ow_actor record);
               row = (case map_of rows name of Some row \<Rightarrow> row | None \<Rightarrow> empty_row name)
           in inventory_rows R project keys
                (AList.update name (count_instance (instance_overview record now) row) rows))))"

text \<open>The rows of the \<open>BTreeMap\<close> come sorted by actor name.\<close>

definition actor_inventories :: "'e runtime \<Rightarrow> string \<Rightarrow> ('e, actor_inventory list) eff" where
  "actor_inventories R project =
     bindE (b_list (rn_authority R) (ROOT @ ''owners/'')) (\<lambda>keys.
     bindE (inventory_rows R project keys []) (\<lambda>rows.
     retE (map (\<lambda>(_, row). row\<lparr>inv_instances := sort_key aio_actor_id (inv_instances row)\<rparr>)
       (sort_key fst rows))))"

end
