(* ===== verification/Actor_Host.thy ===== *)
theory Actor_Host
  imports Mailbox_Safety Runtime_Storage
begin

text \<open>
  The dispatcher of the actor of a host, \<^verbatim>\<open>src/host/actor_host.rs\<close>, with the inventory of waiting requests,
  \<^verbatim>\<open>src/host/queues.rs\<close>. The dispatcher admits requests to the channel of the actor's task, counts the
  admitted ones, and tells the waiters of a drain when none is left.

  \<open>actor_host\<close> is the dispatcher together with the task it spawned: the mailbox of
  \<^verbatim>\<open>Actor_Mailbox\<close>, the channel of requests with the inventory handle of each, and the number of completions
  the dispatcher has taken. Instants are numbers the caller supplies, and so are the fresh identifiers.
\<close>

section \<open>Waiting requests\<close>

record actor_queue_inventory =
  aq_actor :: actor_key
  aq_waiting :: "waiting_operation list"

type_synonym actor_queues = "actor_queue_inventory list"

fun queue_push :: "actor_key \<Rightarrow> waiting_operation \<Rightarrow> actor_queues \<Rightarrow> actor_queues" where
  "queue_push actor w [] = [\<lparr>aq_actor = actor, aq_waiting = [w]\<rparr>]"
| "queue_push actor w (q # qs) =
     (if aq_actor q = actor then q\<lparr>aq_waiting := aq_waiting q @ [w]\<rparr> # qs else q # queue_push actor w qs)"

definition queue_enqueue :: "actor_key \<Rightarrow> string \<Rightarrow> string \<Rightarrow> actor_queues \<Rightarrow> actor_queues" where
  "queue_enqueue actor i operation = queue_push actor \<lparr>wo_id = i, wo_operation = operation\<rparr>"

definition queue_drop :: "string \<Rightarrow> actor_queues \<Rightarrow> actor_queues" where
  "queue_drop i queues =
     filter (\<lambda>q. aq_waiting q \<noteq> [])
       (map (\<lambda>q. q\<lparr>aq_waiting := filter (\<lambda>w. wo_id w \<noteq> i) (aq_waiting q)\<rparr>) queues)"

definition drop_waiting :: "string option \<Rightarrow> actor_queues \<Rightarrow> actor_queues" where
  "drop_waiting waiting queues = (case waiting of None \<Rightarrow> queues | Some i \<Rightarrow> queue_drop i queues)"

section \<open>State\<close>

definition MAX_ADMITTED_INVOCATIONS_PER_ACTOR :: nat where
  "MAX_ADMITTED_INVOCATIONS_PER_ACTOR = 33"

record actor_activity =
  ac_active :: nat
  ac_resident :: bool
  ac_last_active :: nat

record actor_mailbox =
  am_actor :: actor_key
  am_resident :: bool
  am_admitted :: nat

record 'e actor_host =
  ah_last_active :: nat
  ah_mailbox :: "actor_mailbox option"
  ah_identity :: "storage_key option"
  ah_accepting :: bool
  ah_activity :: actor_activity
  ah_stopped :: bool
  ah_ended :: bool
  ah_active :: nat
  ah_queues :: actor_queues
  ah_drained :: "nat list"
  ah_signalled :: "nat list"
  ah_replies :: "(nat \<times> execution_result result) list"
  ah_task :: "'e mailbox"
  ah_alive :: bool
  ah_channel :: "(string option \<times> actor_request) list"
  ah_delivered :: nat

text \<open>The task is spawned with the first request; until then its mailbox is the new one and no channel exists.\<close>

definition new_actor_host :: "nat \<Rightarrow> 'e \<Rightarrow> 'e actor_host" where
  "new_actor_host now e =
     \<lparr>ah_last_active = now, ah_mailbox = None, ah_identity = None, ah_accepting = True,
      ah_activity = \<lparr>ac_active = 0, ac_resident = False, ac_last_active = now\<rparr>, ah_stopped = False, ah_ended = False, ah_active = 0,
      ah_queues = [], ah_drained = [], ah_signalled = [], ah_replies = [],
      ah_task = new_mailbox (new_actor_runtime e), ah_alive = False, ah_channel = [], ah_delivered = 0\<rparr>"

section \<open>Operations of the dispatcher\<close>

definition host_reply :: "nat \<Rightarrow> execution_result result \<Rightarrow> 'e actor_host \<Rightarrow> 'e actor_host" where
  "host_reply reply result h = h\<lparr>ah_replies := ah_replies h @ [(reply, result)]\<rparr>"

definition publish_activity :: "'e actor_host \<Rightarrow> 'e actor_host" where
  "publish_activity h =
     (let h = h\<lparr>ah_activity := \<lparr>ac_active = ah_active h,
            ac_resident = (case ah_mailbox h of Some m \<Rightarrow> am_resident m | None \<Rightarrow> False),
            ac_last_active = ah_last_active h\<rparr>\<rparr> in
      if ah_active h = 0 then h\<lparr>ah_signalled := ah_signalled h @ ah_drained h, ah_drained := []\<rparr> else h)"

definition host_validate :: "'e actor_services \<Rightarrow> actor_request \<Rightarrow> 'e actor_host \<Rightarrow> execution_result result option" where
  "host_validate S request h =
     (if \<not> ah_accepting h \<and> \<not> op_is_disconnect (rq_operation request) then Some (Ok HostUnavailable)
      else case op_validate (rq_operation request) of
        Inl e \<Rightarrow> Some (Inl e)
      | Inr _ \<Rightarrow>
          if \<not> x_supports S (actor_name (op_actor (rq_operation request))) then
            Some (Ok (failed ''actor_error'' ''actor name is not loaded by this host''))
          else None)"

definition start_actor :: "actor_key \<Rightarrow> 'e actor_host \<Rightarrow> 'e actor_host" where
  "start_actor actor h =
     (case ah_mailbox h of
        Some _ \<Rightarrow> h
      | None \<Rightarrow> h\<lparr>ah_mailbox := Some \<lparr>am_actor = actor, am_resident = False, am_admitted = 0\<rparr>, ah_alive := True\<rparr>)"

definition try_send :: "string option \<Rightarrow> actor_request \<Rightarrow> actor_mailbox \<Rightarrow> 'e actor_host \<Rightarrow> 'e actor_host" where
  "try_send waiting request m h =
     (if ah_alive h \<and> length (ah_channel h) < MAX_ADMITTED_INVOCATIONS_PER_ACTOR then
        publish_activity (h\<lparr>ah_channel := ah_channel h @ [(waiting, request)],
          ah_mailbox := Some (m\<lparr>am_resident := True, am_admitted := am_admitted m + 1\<rparr>), ah_active := ah_active h + 1\<rparr>)
      else host_reply (rq_reply request) (Ok HostUnavailable) (h\<lparr>ah_queues := drop_waiting waiting (ah_queues h)\<rparr>))"

definition host_admit :: "'e actor_services \<Rightarrow> string \<Rightarrow> actor_request \<Rightarrow> 'e actor_host \<Rightarrow> 'e actor_host" where
  "host_admit S fresh request h =
     (case host_validate S request h of
        Some result \<Rightarrow> host_reply (rq_reply request) result h
      | None \<Rightarrow>
          let actor = op_actor (rq_operation request) in
          if ah_identity h \<noteq> None \<and> ah_identity h \<noteq> Some (storage_key actor) then
            host_reply (rq_reply request) (Ok Reroute) h
          else
            let h = start_actor actor (h\<lparr>ah_identity := Some (storage_key actor)\<rparr>) in
            (case ah_mailbox h of
               None \<Rightarrow> h
             | Some m \<Rightarrow>
                 if MAX_ADMITTED_INVOCATIONS_PER_ACTOR \<le> am_admitted m then
                   host_reply (rq_reply request) (Ok HostUnavailable) h
                 else (case rq_operation request of
                     OpActivate _ \<Rightarrow> try_send None request m h
                   | _ \<Rightarrow> try_send (Some fresh) request m (h\<lparr>ah_queues := queue_enqueue actor fresh
                       (inv_method (op_invocation (rq_operation request))) (ah_queues h)\<rparr>))))"

definition host_complete :: "nat \<Rightarrow> actor_completion \<Rightarrow> 'e actor_host \<Rightarrow> 'e actor_host" where
  "host_complete now c h =
     (case ah_mailbox h of
        None \<Rightarrow> h
      | Some m \<Rightarrow>
          let h = (if 0 < am_admitted m then
                 h\<lparr>ah_mailbox := Some (m\<lparr>am_admitted := am_admitted m - 1\<rparr>), ah_active := ah_active h - 1\<rparr> else h);
              h = (if cm_resets_idle_timer c then h\<lparr>ah_last_active := now\<rparr> else h) in
          host_reply (cm_reply c) (cm_result c) (publish_activity h))"

definition host_evict_idle :: "'e actor_services \<Rightarrow> nat \<Rightarrow> ('e actor_host, unit) eff" where
  "host_evict_idle S last_active =
     bindE (getE (\<lambda>h. h)) (\<lambda>h.
     if ah_active h \<noteq> 0 \<or> ah_last_active h \<noteq> last_active then retE ()
     else case ah_mailbox h of
       None \<Rightarrow> retE ()
     | Some m \<Rightarrow>
         if \<not> am_resident m then retE ()
         else
           bindE (zoomE (\<lambda>h. mb_runtime (ah_task h)) (\<lambda>rt h. h\<lparr>ah_task := ah_task h\<lparr>mb_runtime := rt\<rparr>\<rparr>)
             (envA (x_evict S (am_actor m)))) (\<lambda>_.
           modE (\<lambda>h. publish_activity (h\<lparr>ah_mailbox := Some (m\<lparr>am_resident := False\<rparr>)\<rparr>))))"

definition task_stopped :: "'e actor_host \<Rightarrow> 'e actor_host" where
  "task_stopped h =
     (let h = (case ah_mailbox h of
          None \<Rightarrow> h
        | Some m \<Rightarrow> h\<lparr>ah_active := ah_active h - am_admitted m, ah_mailbox := Some (m\<lparr>am_admitted := 0\<rparr>)\<rparr>) in
      publish_activity (h\<lparr>ah_stopped := True\<rparr>))"

definition host_drain :: "nat \<Rightarrow> nat list \<Rightarrow> 'e actor_host \<Rightarrow> 'e actor_host" where
  "host_drain waiter closed h =
     publish_activity (h\<lparr>ah_accepting := False, ah_drained := filter (\<lambda>w. w \<notin> set closed) (ah_drained h) @ [waiter]\<rparr>)"

definition host_ping :: "nat \<Rightarrow> 'e actor_host \<Rightarrow> 'e actor_host" where
  "host_ping now h = publish_activity (h\<lparr>ah_last_active := now\<rparr>)"

section \<open>The host and its task\<close>

text \<open>
  The events of the dispatcher's loop and of the task: a command, a completion that the task sent, the end of
  the task, a step of the mailbox, and the receipt of the next request of the channel. The end of the task
  closes the channel and drops the requests in it.
\<close>

datatype host_event =
    HInvoke string actor_request
  | HPing nat
  | HEvictIdle nat
  | HDrain nat "nat list"
  | HCompletion nat
  | HStopped
  | HTask mailbox_event
  | HReceive

definition end_task :: "'e actor_host \<Rightarrow> 'e actor_host" where
  "end_task h = h\<lparr>ah_alive := False, ah_channel := [], ah_queues := fold (\<lambda>(waiting, _). drop_waiting waiting) (ah_channel h) (ah_queues h)\<rparr>"

definition task_step :: "'e actor_services \<Rightarrow> 'e op_executor \<Rightarrow> mailbox_event \<Rightarrow> 'e actor_host \<Rightarrow> 'e actor_host" where
  "task_step S X event h =
     (case mailbox_step S X event (ah_task h) of
        (Inr True, task) \<Rightarrow> h\<lparr>ah_task := task\<rparr>
      | (_, task) \<Rightarrow> end_task (h\<lparr>ah_task := task\<rparr>))"

definition dispatcher_step :: "'e actor_services \<Rightarrow> host_event \<Rightarrow> 'e actor_host \<Rightarrow> 'e actor_host" where
  "dispatcher_step S event h =
     (case event of
        HInvoke fresh request \<Rightarrow> host_admit S fresh request h
      | HPing now \<Rightarrow> host_ping now h
      | HEvictIdle last_active \<Rightarrow> (case host_evict_idle S last_active h of
            (Inr _, h) \<Rightarrow> h
          | (Inl _, h) \<Rightarrow> h\<lparr>ah_stopped := True, ah_ended := True\<rparr>)
      | HDrain waiter closed \<Rightarrow> host_drain waiter closed h
      | HCompletion now \<Rightarrow>
          if ah_delivered h < length (mb_completed (ah_task h)) then
            host_complete now (mb_completed (ah_task h) ! ah_delivered h) (h\<lparr>ah_delivered := ah_delivered h + 1\<rparr>)
          else h
      | HStopped \<Rightarrow> if ah_mailbox h \<noteq> None \<and> \<not> ah_alive h then task_stopped h else h
      | _ \<Rightarrow> h)"

definition host_step :: "'e actor_services \<Rightarrow> 'e op_executor \<Rightarrow> host_event \<Rightarrow> 'e actor_host \<Rightarrow> 'e actor_host" where
  "host_step S X event h =
     (case event of
        HTask event \<Rightarrow> (case event of
            MRequest _ _ \<Rightarrow> h
          | _ \<Rightarrow> if ah_alive h then task_step S X event h else h)
      | HReceive \<Rightarrow> (case ah_channel h of
            [] \<Rightarrow> h
          | (waiting, request) # rest \<Rightarrow>
              if ah_alive h \<and> mb_open (ah_task h) \<and> mb_blocked_on (ah_task h) = None then
                task_step S X (MRequest request (ah_accepting h))
                  (h\<lparr>ah_channel := rest, ah_queues := drop_waiting waiting (ah_queues h)\<rparr>)
              else h)
      | _ \<Rightarrow> if ah_ended h then h else dispatcher_step S event h)"

section \<open>What the mailbox adds to its completions\<close>

lemma onM_extends: "extends mb_completed (onM m)"
  by (auto intro!: extendsI)

lemma finish_extends: "extends mb_completed (mb_finish rq v)" "extends mb_completed (mb_release i)"
  by (auto intro!: extendsI)

lemma stop_extends: "extends mb_completed (mb_stop S rq)"
  unfolding mb_stop_def by (intro extends_bind extends_simple onM_extends finish_extends)

lemmas mb_extends = extends_bind extends_simple extends_mod onM_extends finish_extends stop_extends

lemma commit_ready_extends: "extends mb_completed (commit_ready_loop n S)"
proof (induction n)
  case (Suc n)
  then show ?case
    unfolding commit_ready_loop.simps
    by (intro mb_extends) (auto intro!: mb_extends split: option.split sum.split execution_result.split prod.split)
qed (simp only: commit_ready_loop.simps extends_simple)

lemma step_extends: "extends mb_completed (mailbox_step S X e)"
proof -
  have start: "extends mb_completed (mb_start S rq p)" for rq p
    unfolding mb_start_def by (auto intro!: mb_extends simp: Let_def split: sum.split prepared_invocation.split)
  have admit: "extends mb_completed (mb_admit S rq a)" for rq a
    unfolding mb_admit_def mb_activate_def by (auto intro!: mb_extends start split: actor_operation.split)
  have executed: "extends mb_completed (mb_executed S i rq r)" for i rq r
    unfolding mb_executed_def mb_interleave_def mb_failed_def mb_serial_def mb_answer_def commit_ready_def
    by (auto intro!: mb_extends commit_ready_extends split: sum.split method_outcome.split simp del: commit_ready_loop.simps)
  show ?thesis
    unfolding mailbox_step_def by (auto intro!: mb_extends admit executed split: mailbox_event.split option.split prod.split)
qed

section \<open>The invariant of the host\<close>

definition unanswered :: "'e actor_host \<Rightarrow> nat multiset" where
  "unanswered h = mset (map (\<lambda>(_, rq). rq_reply rq) (ah_channel h)) +
     mset (map (\<lambda>(_, rq, _). rq_reply rq) (mb_running (ah_task h))) +
     mset (map (\<lambda>(_, _, rq, _). rq_reply rq) (mb_ready (ah_task h))) +
     mset (map cm_reply (drop (ah_delivered h) (mb_completed (ah_task h))))"

definition admitted :: "'e actor_host \<Rightarrow> nat" where
  "admitted h = (case ah_mailbox h of None \<Rightarrow> 0 | Some m \<Rightarrow> am_admitted m)"

definition host_inv :: "'e actor_host \<Rightarrow> bool" where
  "host_inv h \<longleftrightarrow>
     keyed (ah_task h) \<and> ah_delivered h \<le> length (mb_completed (ah_task h)) \<and>
     ah_active h = admitted h \<and> admitted h \<le> MAX_ADMITTED_INVOCATIONS_PER_ACTOR \<and>
     (ah_alive h \<longrightarrow> size (unanswered h) = admitted h) \<and>
     (ah_mailbox h = None \<longrightarrow> \<not> ah_alive h \<and> unanswered h = {#}) \<and>
     (ah_identity h = map_option (\<lambda>m. storage_key (am_actor m)) (ah_mailbox h)) \<and>
     (\<forall>(w, rq) \<in> set (ah_channel h). ah_identity h = Some (storage_key (op_actor (rq_operation rq)))) \<and>
     (ah_drained h \<noteq> [] \<longrightarrow> ah_active h \<noteq> 0 \<and> \<not> ah_accepting h)"

definition given :: "host_event \<Rightarrow> nat multiset" where
  "given e = (case e of HInvoke _ rq \<Rightarrow> {#rq_reply rq#} | _ \<Rightarrow> {#})"

definition answered_or_waiting :: "'e actor_host \<Rightarrow> nat multiset" where
  "answered_or_waiting h = mset (map fst (ah_replies h)) + unanswered h"

lemma publish_fields [simp]:
  "ah_task (publish_activity h) = ah_task h" "ah_alive (publish_activity h) = ah_alive h" "ah_channel (publish_activity h) = ah_channel h"
  "ah_delivered (publish_activity h) = ah_delivered h" "ah_mailbox (publish_activity h) = ah_mailbox h" "ah_active (publish_activity h) = ah_active h"
  "ah_identity (publish_activity h) = ah_identity h" "ah_accepting (publish_activity h) = ah_accepting h" "ah_replies (publish_activity h) = ah_replies h"
  "ah_queues (publish_activity h) = ah_queues h"
  "ah_drained (publish_activity h) = (if ah_active h = 0 then [] else ah_drained h)"
  by (simp_all add: publish_activity_def Let_def)

lemma reply_fields [simp]:
  "ah_task (host_reply k r h) = ah_task h" "ah_alive (host_reply k r h) = ah_alive h" "ah_channel (host_reply k r h) = ah_channel h"
  "ah_delivered (host_reply k r h) = ah_delivered h" "ah_mailbox (host_reply k r h) = ah_mailbox h" "ah_active (host_reply k r h) = ah_active h"
  "ah_identity (host_reply k r h) = ah_identity h" "ah_accepting (host_reply k r h) = ah_accepting h" "ah_replies (host_reply k r h) = ah_replies h @ [(k, r)]"
  "ah_drained (host_reply k r h) = ah_drained h"
  by (simp_all add: host_reply_def)


section \<open>Every step keeps the invariant\<close>

lemma unanswered_outstanding:
  assumes "ah_delivered h \<le> length (mb_completed (ah_task h))"
  shows "unanswered h + mset (map cm_reply (take (ah_delivered h) (mb_completed (ah_task h)))) =
    mset (map (\<lambda>(_, rq). rq_reply rq) (ah_channel h)) + outstanding (ah_task h)"
proof -
  have "mset (map cm_reply (mb_completed (ah_task h))) =
      mset (map cm_reply (take (ah_delivered h) (mb_completed (ah_task h)))) + mset (map cm_reply (drop (ah_delivered h) (mb_completed (ah_task h))))"
    by (metis append_take_drop_id map_append mset_append)
  then show ?thesis by (simp add: unanswered_def outstanding_def)
qed

lemma task_step_fields:
  "task_step S X e h = h' \<Longrightarrow>
     ah_mailbox h' = ah_mailbox h \<and> ah_active h' = ah_active h \<and> ah_identity h' = ah_identity h \<and> ah_accepting h' = ah_accepting h \<and>
     ah_drained h' = ah_drained h \<and> ah_replies h' = ah_replies h \<and> ah_delivered h' = ah_delivered h \<and> ah_signalled h' = ah_signalled h \<and>
     (ah_channel h' = ah_channel h \<and> ah_alive h' = ah_alive h \<or> ah_channel h' = [] \<and> \<not> ah_alive h') \<and>
     ah_task h' = snd (mailbox_step S X e (ah_task h))"
  by (auto simp: task_step_def end_task_def split: prod.splits sum.splits bool.splits)

lemma task_step_outstanding:
  assumes "keyed (ah_task h)" "task_step S X e h = h'"
  shows "outstanding (ah_task h') =
      outstanding (ah_task h) + (if mb_open (ah_task h) \<and> mb_blocked_on (ah_task h) = None then requested e else {#})"
    "keyed (ah_task h')" "\<exists>cs. mb_completed (ah_task h') = mb_completed (ah_task h) @ cs"
proof -
  obtain b task where run: "mailbox_step S X e (ah_task h) = (Inr b, task)"
    using step_returns [of S X e "ah_task h"] by (cases "mailbox_step S X e (ah_task h)") (auto dest: is_okE)
  with task_step_fields [OF assms(2)] have t: "ah_task h' = task" by simp
  from step_outstanding [OF assms(1) run] extendsD [OF step_extends run] t
  show "outstanding (ah_task h') =
      outstanding (ah_task h) + (if mb_open (ah_task h) \<and> mb_blocked_on (ah_task h) = None then requested e else {#})"
    "keyed (ah_task h')" "\<exists>cs. mb_completed (ah_task h') = mb_completed (ah_task h) @ cs" by simp_all
qed

text \<open>What a step of the task does to the requests that have no answer yet; \<open>rq\<close> is the request it received.\<close>

lemma task_step_unanswered:
  assumes h: "keyed (ah_task h)" "ah_delivered h \<le> length (mb_completed (ah_task h))" and step: "task_step S X e h = h'"
    and received: "requested e = (if mb_open (ah_task h) \<and> mb_blocked_on (ah_task h) = None then N else {#})" "\<not> (mb_open (ah_task h) \<and> mb_blocked_on (ah_task h) = None) \<longrightarrow> N = {#}"
  shows "unanswered h' \<subseteq># unanswered h + N" "ah_alive h' \<Longrightarrow> unanswered h' = unanswered h + N"
    "ah_delivered h' \<le> length (mb_completed (ah_task h'))"
proof -
  note f = task_step_fields [OF step] and o = task_step_outstanding [OF h(1) step]
  then obtain cs where cs: "mb_completed (ah_task h') = mb_completed (ah_task h) @ cs" by blast
  have d: "ah_delivered h' = ah_delivered h" using f by simp
  show le: "ah_delivered h' \<le> length (mb_completed (ah_task h'))" using h(2) d cs by simp
  have take: "take (ah_delivered h') (mb_completed (ah_task h')) = take (ah_delivered h) (mb_completed (ah_task h))" using h(2) d cs by simp
  have out: "outstanding (ah_task h') = outstanding (ah_task h) + N" using o(1) received by (auto split: if_splits)
  let ?T = "mset (map cm_reply (take (ah_delivered h) (mb_completed (ah_task h))))"
  have 1: "unanswered h' + ?T = mset (map (\<lambda>(_, rq). rq_reply rq) (ah_channel h')) + outstanding (ah_task h) + N"
    using unanswered_outstanding [OF le] take out by simp
  have 2: "unanswered h + ?T = mset (map (\<lambda>(_, rq). rq_reply rq) (ah_channel h)) + outstanding (ah_task h)"
    using unanswered_outstanding [OF h(2)] .
  show "unanswered h' = unanswered h + N" if "ah_alive h'"
  proof -
    from f that have "ah_channel h' = ah_channel h" by auto
    with 1 2 have "unanswered h' + ?T = (unanswered h + N) + ?T" by (simp add: ac_simps)
    then show ?thesis by simp
  qed
  have "mset (map (\<lambda>(_, rq). rq_reply rq) (ah_channel h')) \<subseteq># mset (map (\<lambda>(_, rq). rq_reply rq) (ah_channel h))" using f by auto
  then have "unanswered h' + ?T \<subseteq># mset (map (\<lambda>(_, rq). rq_reply rq) (ah_channel h)) + (outstanding (ah_task h) + N)"
    unfolding 1 add.assoc by (rule subset_mset.add_right_mono)
  also have "\<dots> = (unanswered h + N) + ?T" unfolding add.assoc [symmetric] 2 [symmetric] by (simp add: ac_simps)
  finally have "unanswered h' + ?T \<subseteq># (unanswered h + N) + ?T" .
  then show "unanswered h' \<subseteq># unanswered h + N" by simp
qed


definition step_ok :: "'e actor_host \<Rightarrow> nat multiset \<Rightarrow> 'e actor_host \<Rightarrow> bool" where
  "step_ok h N h' \<longleftrightarrow>
     host_inv h' \<and> answered_or_waiting h' \<subseteq># answered_or_waiting h + N \<and> (ah_signalled h' = ah_signalled h \<or> ah_active h' = 0)"

lemma step_ok_refl: "host_inv h \<Longrightarrow> step_ok h N h"
  by (simp add: step_ok_def)

lemma sub_add: "a \<subseteq># b \<Longrightarrow> r + a \<subseteq># r + b + (N :: 'x multiset)"
  by (rule subset_mset.order_trans [OF subset_mset.add_left_mono mset_subset_eq_add_left])

lemma task_step_ok:
  assumes inv: "host_inv h" and alive: "ah_alive h" and e: "requested e = {#}"
  shows "step_ok h N (task_step S X e h)"
proof -
  let ?h = "task_step S X e h"
  have k: "keyed (ah_task h)" "ah_delivered h \<le> length (mb_completed (ah_task h))" using inv by (simp_all add: host_inv_def)
  note f = task_step_fields [OF refl, of S X e h] and u = task_step_unanswered [OF k refl, of e "{#}" S X] and o = task_step_outstanding [OF k(1) refl, of S X e]
  have m: "admitted ?h = admitted h" using f by (simp add: admitted_def)
  have "host_inv ?h" using inv f u o e m alive by (auto simp: host_inv_def)
  moreover have "answered_or_waiting ?h \<subseteq># answered_or_waiting h + N"
    unfolding answered_or_waiting_def using u(1) e f by (simp add: sub_add)
  ultimately show ?thesis using f by (simp add: step_ok_def)
qed

lemma receive_ok:
  assumes inv: "host_inv h" and alive: "ah_alive h" and ch: "ah_channel h = (w, rq) # rest"
    and free: "mb_open (ah_task h)" "mb_blocked_on (ah_task h) = None"
  shows "step_ok h N (task_step S X (MRequest rq a) (h\<lparr>ah_channel := rest, ah_queues := q\<rparr>))"
proof -
  let ?h1 = "h\<lparr>ah_channel := rest, ah_queues := q\<rparr>" let ?h = "task_step S X (MRequest rq a) ?h1"
  have k: "keyed (ah_task ?h1)" "ah_delivered ?h1 \<le> length (mb_completed (ah_task ?h1))" using inv by (simp_all add: host_inv_def)
  note f = task_step_fields [OF refl, of S X "MRequest rq a" ?h1] and u = task_step_unanswered [OF k refl, of "MRequest rq a" "{#rq_reply rq#}" S X]
    and o = task_step_outstanding [OF k(1) refl, of S X "MRequest rq a"]
  have un: "unanswered h = add_mset (rq_reply rq) (unanswered ?h1)" using ch by (simp add: unanswered_def)
  have m: "admitted ?h = admitted h" using f by (simp add: admitted_def)
  have "host_inv ?h" using inv f u o m alive free un ch by (auto simp: host_inv_def)
  moreover have "answered_or_waiting ?h \<subseteq># answered_or_waiting h + N"
  proof -
    have "unanswered ?h \<subseteq># unanswered h" using u(1) un free by simp
    moreover have "ah_replies ?h = ah_replies h" using f by simp
    ultimately show ?thesis unfolding answered_or_waiting_def by (simp only: sub_add)
  qed
  ultimately show ?thesis using f by (simp add: step_ok_def)
qed

lemma publish_signalled: "ah_signalled (publish_activity h) = ah_signalled h \<or> ah_active h = 0"
  by (simp add: publish_activity_def Let_def)

lemma unanswered_cong:
  "ah_channel h' = ah_channel h \<Longrightarrow> ah_task h' = ah_task h \<Longrightarrow> ah_delivered h' = ah_delivered h \<Longrightarrow> unanswered h' = unanswered h"
  by (simp add: unanswered_def)

lemma complete_fields:
  assumes "ah_mailbox h = Some m"
  shows "ah_mailbox (host_complete now c h) = Some (m\<lparr>am_admitted := am_admitted m - 1\<rparr>)"
    "ah_active (host_complete now c h) = (if 0 < am_admitted m then ah_active h - 1 else ah_active h)"
    "ah_drained (host_complete now c h) = (if ah_active (host_complete now c h) = 0 then [] else ah_drained h)"
    "ah_task (host_complete now c h) = ah_task h" "ah_alive (host_complete now c h) = ah_alive h" "ah_channel (host_complete now c h) = ah_channel h"
    "ah_delivered (host_complete now c h) = ah_delivered h" "ah_identity (host_complete now c h) = ah_identity h"
    "ah_accepting (host_complete now c h) = ah_accepting h" "ah_replies (host_complete now c h) = ah_replies h @ [(cm_reply c, cm_result c)]"
    "ah_signalled (host_complete now c h) = ah_signalled h \<or> ah_active (host_complete now c h) = 0"
  using assms by (auto simp: host_complete_def Let_def host_reply_def publish_activity_def)

lemma complete_ok:
  assumes inv: "host_inv h" and d: "ah_delivered h < length (mb_completed (ah_task h))"
  shows "step_ok h N (host_complete now (mb_completed (ah_task h) ! ah_delivered h) (h\<lparr>ah_delivered := ah_delivered h + 1\<rparr>))"
proof -
  let ?c = "mb_completed (ah_task h) ! ah_delivered h" let ?h1 = "h\<lparr>ah_delivered := ah_delivered h + 1\<rparr>"
  let ?h = "host_complete now ?c ?h1"
  have un: "unanswered h = add_mset (cm_reply ?c) (unanswered ?h1)"
    using Cons_nth_drop_Suc [OF d] by (simp add: unanswered_def flip: Cons_nth_drop_Suc [OF d])
  then obtain m where m: "ah_mailbox h = Some m" using inv by (cases "ah_mailbox h") (auto simp: host_inv_def)
  then have "ah_mailbox ?h1 = Some m" by simp
  note f = complete_fields [OF this, of now ?c]
  have u: "unanswered ?h = unanswered ?h1" by (intro unanswered_cong) (simp_all add: f del: One_nat_def)
  have "size (unanswered ?h) = am_admitted m - 1" if "ah_alive h" using inv m un u that by (auto simp: host_inv_def admitted_def)
  then have "host_inv ?h" using inv m d f by (auto simp: host_inv_def admitted_def)
  moreover have "answered_or_waiting ?h = answered_or_waiting h"
    using un u f by (simp add: answered_or_waiting_def)
  ultimately show ?thesis using f(11) by (simp add: step_ok_def subset_mset.add_increasing2)
qed


lemma admit_sent:
  assumes inv: "host_inv h" and m: "ah_mailbox h = Some m" "am_admitted m < MAX_ADMITTED_INVOCATIONS_PER_ACTOR"
    and actor: "storage_key (am_actor m) = storage_key (op_actor (rq_operation rq))"
  shows "step_ok h {#rq_reply rq#} (try_send w rq m (h\<lparr>ah_queues := q\<rparr>))"
proof (cases "ah_alive h \<and> length (ah_channel h) < MAX_ADMITTED_INVOCATIONS_PER_ACTOR")
  case True
  let ?h1 = "h\<lparr>ah_queues := q, ah_channel := ah_channel h @ [(w, rq)],
    ah_mailbox := Some (m\<lparr>am_resident := True, am_admitted := am_admitted m + 1\<rparr>), ah_active := ah_active h + 1\<rparr>"
  have eq: "try_send w rq m (h\<lparr>ah_queues := q\<rparr>) = publish_activity ?h1" using True by (simp add: try_send_def)
  have un: "unanswered (publish_activity ?h1) = add_mset (rq_reply rq) (unanswered h)" by (simp add: unanswered_def)
  have "host_inv (publish_activity ?h1)" using inv m True actor un by (auto simp: host_inv_def admitted_def)
  moreover have "answered_or_waiting (publish_activity ?h1) = answered_or_waiting h + {#rq_reply rq#}"
    using un by (simp add: answered_or_waiting_def)
  moreover have "ah_signalled (publish_activity ?h1) = ah_signalled h" by (simp add: publish_activity_def Let_def)
  ultimately show ?thesis unfolding eq by (simp add: step_ok_def)
next
  case False
  let ?h1 = "host_reply (rq_reply rq) (Ok HostUnavailable) (h\<lparr>ah_queues := drop_waiting w q\<rparr>)"
  have eq: "try_send w rq m (h\<lparr>ah_queues := q\<rparr>) = ?h1" using False by (auto simp: try_send_def)
  have un: "unanswered ?h1 = unanswered h" by (simp add: unanswered_def)
  have "host_inv ?h1" using inv un by (auto simp: host_inv_def admitted_def)
  then show ?thesis unfolding eq using un by (simp add: step_ok_def answered_or_waiting_def host_reply_def)
qed

lemma reply_ok:
  assumes "host_inv h"
  shows "step_ok h {#k#} (host_reply k r h)"
proof -
  have un: "unanswered (host_reply k r h) = unanswered h" by (simp add: unanswered_def)
  have "host_inv (host_reply k r h)" using assms un by (auto simp: host_inv_def admitted_def)
  then show ?thesis using un by (simp add: step_ok_def answered_or_waiting_def host_reply_def)
qed


lemma host_admit_ok:
  assumes inv: "host_inv h"
  shows "step_ok h {#rq_reply rq#} (host_admit S fresh rq h)"
proof (cases "host_validate S rq h")
  case (Some r) then show ?thesis by (simp add: host_admit_def reply_ok [OF inv])
next
  case None
  let ?a = "op_actor (rq_operation rq)"
  show ?thesis
  proof (cases "ah_identity h \<noteq> None \<and> ah_identity h \<noteq> Some (storage_key ?a)")
    case True with None show ?thesis by (simp add: host_admit_def reply_ok [OF inv])
  next
    case id': False
    let ?h = "start_actor ?a (h\<lparr>ah_identity := Some (storage_key ?a)\<rparr>)"
    have mb: "\<exists>m. ah_mailbox ?h = Some m \<and> storage_key (am_actor m) = storage_key ?a"
      using inv id' by (cases "ah_mailbox h") (auto simp: start_actor_def host_inv_def)
    then obtain m where m: "ah_mailbox ?h = Some m" "storage_key (am_actor m) = storage_key ?a" by blast
    have inv': "host_inv ?h"
      using inv id' by (cases "ah_mailbox h") (auto simp: start_actor_def host_inv_def admitted_def unanswered_def)
    have same: "answered_or_waiting ?h = answered_or_waiting h" "ah_signalled ?h = ah_signalled h"
      by (auto simp: start_actor_def answered_or_waiting_def unanswered_def split: option.split)
    have "step_ok ?h {#rq_reply rq#} (host_admit S fresh rq h)"
    proof (cases "MAX_ADMITTED_INVOCATIONS_PER_ACTOR \<le> am_admitted m")
      case True
      then have "host_admit S fresh rq h = host_reply (rq_reply rq) (Ok HostUnavailable) ?h"
        unfolding host_admit_def Let_def using None id' m(1) by auto
      then show ?thesis by (simp add: reply_ok [OF inv'])
    next
      case False
      have eq: "host_admit S fresh rq h = (case rq_operation rq of OpActivate _ \<Rightarrow> try_send None rq m ?h
          | _ \<Rightarrow> try_send (Some fresh) rq m (?h\<lparr>ah_queues := queue_enqueue ?a fresh (inv_method (op_invocation (rq_operation rq))) (ah_queues ?h)\<rparr>))"
        unfolding host_admit_def Let_def using None id' m(1) False by auto
      have sent: "step_ok ?h {#rq_reply rq#} (try_send w rq m (?h\<lparr>ah_queues := q\<rparr>))" for w q
        using False by (intro admit_sent [OF inv' m(1) _ m(2)]) simp
      show ?thesis
        unfolding eq using sent [of None "ah_queues ?h"] sent [of "Some fresh"] by (cases "rq_operation rq") simp_all
    qed
    then show ?thesis using same by (simp add: step_ok_def)
  qed
qed

text \<open>The rest of the invariant holds again once the activity is published.\<close>

lemma publish_ok:
  assumes "host_inv (h'\<lparr>ah_drained := []\<rparr>)" "ah_drained h' \<noteq> [] \<Longrightarrow> \<not> ah_accepting h'"
    "answered_or_waiting h' = answered_or_waiting h" "ah_signalled h' = ah_signalled h"
  shows "step_ok h N (publish_activity h')"
proof -
  have un: "unanswered (publish_activity h') = unanswered (h'\<lparr>ah_drained := []\<rparr>)" "unanswered h' = unanswered (h'\<lparr>ah_drained := []\<rparr>)"
    by (simp_all add: unanswered_def)
  have "host_inv (publish_activity h')" using assms(1,2) un by (auto simp: host_inv_def admitted_def)
  moreover have "answered_or_waiting (publish_activity h') = answered_or_waiting h" using assms(3) un by (simp add: answered_or_waiting_def)
  moreover have "ah_signalled (publish_activity h') = ah_signalled h \<or> ah_active (publish_activity h') = 0"
    using publish_signalled [of h'] assms(4) by simp
  ultimately show ?thesis by (auto simp: step_ok_def)
qed

lemma ping_ok: "host_inv h \<Longrightarrow> step_ok h N (host_ping now h)"
  unfolding host_ping_def
  by (rule publish_ok) (auto simp: host_inv_def admitted_def unanswered_def answered_or_waiting_def)

lemma drain_ok: "host_inv h \<Longrightarrow> step_ok h N (host_drain waiter closed h)"
  unfolding host_drain_def
  by (rule publish_ok) (auto simp: host_inv_def admitted_def unanswered_def answered_or_waiting_def)

lemma task_stopped_ok: "host_inv h \<Longrightarrow> \<not> ah_alive h \<Longrightarrow> step_ok h N (task_stopped h)"
  unfolding task_stopped_def Let_def
  by (rule publish_ok) (auto simp: host_inv_def admitted_def unanswered_def answered_or_waiting_def split: option.split)

lemma evict_ok:
  assumes inv: "host_inv h" and run: "host_evict_idle S k h = (r, h')"
  shows "step_ok h N h'"
proof -
  have task: "step_ok h N (h\<lparr>ah_task := ah_task h\<lparr>mb_runtime := rt\<rparr>\<rparr>)" for rt
    using inv by (auto simp: step_ok_def host_inv_def admitted_def unanswered_def answered_or_waiting_def keyed_def)
  have evicted: "step_ok h N (publish_activity (h\<lparr>ah_task := ah_task h\<lparr>mb_runtime := rt\<rparr>, ah_mailbox := Some (m\<lparr>am_resident := False\<rparr>)\<rparr>))"
    if "ah_mailbox h = Some m" for rt m
    using inv that by (intro publish_ok) (auto simp: host_inv_def admitted_def unanswered_def answered_or_waiting_def keyed_def)
  show ?thesis
    using run inv unfolding host_evict_idle_def
    by (auto simp: run_simps intro: step_ok_refl task evicted split: if_splits option.splits)
qed

lemma host_step_ok:
  assumes inv: "host_inv h"
  shows "step_ok h (given e) (host_step S X e h)"
proof -
  have stop: "step_ok h N h' \<Longrightarrow> step_ok h N (h'\<lparr>ah_stopped := True, ah_ended := True\<rparr>)" for N h'
    by (auto simp: step_ok_def host_inv_def admitted_def unanswered_def answered_or_waiting_def)
  have none: "requested ev = {#}" if "\<And>rq a. ev \<noteq> MRequest rq a" for ev using that by (cases ev) auto
  have disp: "step_ok h (given e) (dispatcher_step S e h)" for e
    unfolding dispatcher_step_def given_def
    by (cases e) (auto intro!: host_admit_ok ping_ok drain_ok complete_ok [OF inv, unfolded Suc_eq_plus1 [symmetric]] task_stopped_ok step_ok_refl stop inv
        dest: evict_ok [OF inv] split: prod.split sum.split)
  show ?thesis
    unfolding host_step_def
    by (cases e) (auto intro!: disp step_ok_refl [OF inv] task_step_ok [OF inv] receive_ok [OF inv] none
        split: mailbox_event.split list.split)
qed


section \<open>The properties\<close>

definition host_run :: "'e actor_services \<Rightarrow> host_event list \<Rightarrow> 'e actor_host \<Rightarrow> 'e actor_host" where
  "host_run S events h = fold (host_step S (execute_operation S)) events h"

lemma new_host_inv: "host_inv (new_actor_host now e)" "answered_or_waiting (new_actor_host now e) = {#}"
  by (simp_all add: host_inv_def new_actor_host_def new_mailbox_def keyed_def admitted_def unanswered_def answered_or_waiting_def)

lemma host_step_inv: "host_inv h \<Longrightarrow> host_inv (host_step S X e h)"
  using host_step_ok [of h e S X] by (simp add: step_ok_def)

lemma host_run_inv: "host_inv h \<Longrightarrow> host_inv (host_run S events h)"
  unfolding host_run_def by (induction events arbitrary: h) (auto intro: host_step_inv)

lemma host_run_answers: "host_inv h \<Longrightarrow> answered_or_waiting (host_run S events h) \<subseteq># answered_or_waiting h + sum_list (map given events)"
  unfolding host_run_def
proof (induction events arbitrary: h)
  case (Cons e events)
  let ?h = "host_step S (execute_operation S) e h"
  from host_step_ok [OF Cons.prems] have step: "host_inv ?h" "answered_or_waiting ?h \<subseteq># answered_or_waiting h + given e"
    by (auto simp: step_ok_def)
  have "answered_or_waiting ?h + sum_list (map given events) \<subseteq># answered_or_waiting h + given e + sum_list (map given events)"
    using step(2) by (rule subset_mset.add_right_mono)
  with Cons.IH [OF step(1)] show ?case using subset_mset.order_trans by (fastforce simp: add.assoc)
qed simp



text \<open>
  C26: A host answers a request at most once: the replies it has sent are among the requests it was given, with
  their multiplicities.
\<close>

theorem host_answers_at_most_once:
  "mset (map fst (ah_replies (host_run S events (new_actor_host now e)))) \<subseteq># sum_list (map given events)"
proof -
  have "mset (map fst (ah_replies h)) \<subseteq># answered_or_waiting h" for h :: "'a actor_host" by (simp add: answered_or_waiting_def)
  with host_run_answers [OF new_host_inv(1), of S events now e] show ?thesis
    using subset_mset.order_trans by (fastforce simp: new_host_inv(2))
qed

lemma demo_drain:
  "let h = host_run demo_services [HInvoke ''w'' (demo_request 0 ''x''), HReceive, HTask (MExecuted 1), HCompletion 1] (new_actor_host 0 []);
       h' = host_step demo_services (execute_operation demo_services) (HDrain 7 []) h
   in ah_signalled h = [] \<and> ah_signalled h' = [7] \<and> ah_alive h' \<and> length (ah_replies h') = 1"
  by code_simp


lemma demo_admitted:
  "ah_alive (host_run demo_services [HInvoke ''w'' (demo_request 0 ''x'')] (new_actor_host 0 []))"
  by code_simp


end
