(* ===== verification/Runtime_Sessions.thy ===== *)
theory Runtime_Sessions
  imports Runtime_Storage
begin

text \<open>
  Changing ownership and replica sessions: \<^verbatim>\<open>src/bucket/runtime/session.rs\<close> (recovery of a session and its
  seal), \<^verbatim>\<open>activation.rs\<close> (registering, renewing and releasing an activation), \<^verbatim>\<open>repair.rs\<close> and
  \<^verbatim>\<open>startup.rs\<close> (replica membership) and \<^verbatim>\<open>history.rs\<close> (stored versions).
\<close>

section \<open>Recovery of a session\<close>

definition save_session_record ::
    "'e runtime \<Rightarrow> string \<Rightarrow> int option \<Rightarrow> session_record \<Rightarrow> ('e, bool) eff" where
  "save_session_record R key generation session =
     replace (rn_authority R) key generation (session_to_vec (rn_codec R) session)"

definition decode_session :: "'e runtime \<Rightarrow> bucket_object \<Rightarrow> session_record result" where
  "decode_session R object = ok_or (session_from_slice (rn_codec R) (obj_bytes object)) ''invalid JSON''"

text \<open>One round of the loop of \<open>start_recovery\<close>: it returns, or the loop goes on.\<close>

definition recovery_round ::
    "'e runtime \<Rightarrow> replica_scope \<Rightarrow> ('e, session_record option option) eff" where
  "recovery_round R scope =
     (let key = session_key (rn_crypto R) (sc_host scope) (sc_session scope);
          id = scope_identity (rn_crypto R) scope
      in bindE (b_get (rn_authority R) key) (\<lambda>object.
         case object of
           None \<Rightarrow>
             bindE (save_session_record R key None
               \<lparr>se_id = id, se_region = sc_region scope, se_replicas = [], se_state = Sealed\<rparr>) (\<lambda>saved.
             retE (if saved then Some None else None))
         | Some ob \<Rightarrow>
             bindE (liftE (decode_session R ob)) (\<lambda>session.
             bindE (liftE (ensure (se_id session = id \<and> se_region session = sc_region scope)
               ''session identity mismatch'')) (\<lambda>_.
             case se_state session of
               Sealed \<Rightarrow> retE (Some None)
             | Recovering \<Rightarrow> retE (Some (Some session))
             | Open \<Rightarrow>
                 let session = session\<lparr>se_state := Recovering\<rparr> in
                 bindE (save_session_record R key (Some (obj_generation ob)) session) (\<lambda>saved.
                 retE (if saved then Some (Some session) else None))))))"

fun start_recovery_loop :: "'e runtime \<Rightarrow> replica_scope \<Rightarrow> nat \<Rightarrow> ('e, session_record option) eff" where
  "start_recovery_loop R scope 0 = liftE (Err Diverged)"
| "start_recovery_loop R scope (Suc n) =
     bindE (recovery_round R scope) (\<lambda>r.
     case r of Some result \<Rightarrow> retE result | None \<Rightarrow> start_recovery_loop R scope n)"

definition start_recovery :: "'e runtime \<Rightarrow> replica_scope \<Rightarrow> ('e, session_record option) eff" where
  "start_recovery R scope = start_recovery_loop R scope (rn_rounds R)"

fun finish_recovery_loop ::
    "'e runtime \<Rightarrow> string \<Rightarrow> session_record \<Rightarrow> nat \<Rightarrow> ('e, unit) eff" where
  "finish_recovery_loop R key session 0 = liftE (Err Diverged)"
| "finish_recovery_loop R key session (Suc n) =
     bindE (b_get (rn_authority R) key) (\<lambda>object.
     bindE (liftE (ok_or object ''recovery record disappeared'')) (\<lambda>current.
     bindE (liftE (decode_session R current)) (\<lambda>record.
     if se_state record = Sealed then retE ()
     else
       bindE (save_session_record R key (Some (obj_generation current)) session) (\<lambda>saved.
       if saved then retE () else finish_recovery_loop R key session n))))"

definition finish_recovery :: "'e runtime \<Rightarrow> replica_scope \<Rightarrow> session_record \<Rightarrow> ('e, unit) eff" where
  "finish_recovery R scope session =
     finish_recovery_loop R (session_key (rn_crypto R) (sc_host scope) (sc_session scope))
       (session\<lparr>se_state := Sealed\<rparr>) (rn_rounds R)"

text \<open>The heads of one sealed replica, and the answers of all of them.\<close>

fun collect_streams ::
    "string \<Rightarrow> stream_head list \<Rightarrow> (string \<times> snapshot_ref option) list \<Rightarrow> (string \<times> snapshot_ref option) list result" where
  "collect_streams sid [] found = Ok found"
| "collect_streams sid (h # hs) found =
     bindR (ensure (rs_session (sth_stream h) = sid) ''replica returned another session's stream'') (\<lambda>_.
     case sth_latest h of
       None \<Rightarrow> collect_streams sid hs found
     | Some snapshot \<Rightarrow>
         bindR (ensure (sr_object snapshot = stream_object (sth_stream h) (sr_state_version snapshot))
           ''replica snapshot identity mismatch'') (\<lambda>_.
         let p = rs_prefix (sth_stream h);
             current = (case map_of found p of Some c \<Rightarrow> c | None \<Rightarrow> None)
         in bindR (advance current (Some snapshot)) (\<lambda>current.
            collect_streams sid hs (AList.update p current found))))"

fun collect_seals ::
    "string \<Rightarrow> session_head result list \<Rightarrow> (string \<times> snapshot_ref option) list \<Rightarrow> nat \<Rightarrow>
     ((string \<times> snapshot_ref option) list \<times> nat) result" where
  "collect_seals sid [] found witnesses = Ok (found, witnesses)"
| "collect_seals sid (Inl _ # rs) found witnesses = collect_seals sid rs found witnesses"
| "collect_seals sid (Inr h # rs) found witnesses =
     bindR (ensure (seh_session h = sid) ''replica returned another session'') (\<lambda>_.
     if \<not> seh_initialized h \<or> \<not> seh_sealed h then collect_seals sid rs found witnesses
     else
       bindR (collect_streams sid (seh_streams h) found) (\<lambda>found.
       collect_seals sid rs found (Suc witnesses)))"

definition seal_replicas :: "'e runtime \<Rightarrow> session_record \<Rightarrow> ('e, snapshot_ref list) eff" where
  "seal_replicas R session =
     bindE (join_replicas R (\<lambda>target. p_seal (rn_peers R) target (se_id session)) (se_replicas session)) (\<lambda>heads.
     bindE (liftE (collect_seals (se_id session) heads [] 0)) (\<lambda>(snapshots, witnesses).
     bindE (liftE (ensure (se_replicas session = [] \<or> 0 < witnesses)
       ''no complete replica witness; refusing to lose acknowledged state'')) (\<lambda>_.
     getE (\<lambda>e. rn_shuffle R e (List.map_filter snd snapshots)))))"

fun restore_snapshots ::
    "'e runtime \<Rightarrow> string \<Rightarrow> replica_target list \<Rightarrow> snapshot_ref list \<Rightarrow> loaded_snapshot option \<Rightarrow>
     ('e, loaded_snapshot option) eff" where
  "restore_snapshots R p replicas [] best = retE best"
| "restore_snapshots R p replicas (snapshot # rest) best =
     bindE (recover_snapshot R replicas snapshot) (\<lambda>bytes.
     restore_snapshots R p replicas rest
       (if starts_with (sr_object snapshot) p \<and>
           (case best of None \<Rightarrow> True
            | Some s \<Rightarrow> snapshot_position (sr_object (ls_reference s)) < snapshot_position (sr_object snapshot))
        then Some \<lparr>ls_reference = snapshot, ls_bytes = bytes\<rparr> else best))"

definition restore_session ::
    "'e runtime \<Rightarrow> ownership \<Rightarrow> session_record \<Rightarrow> snapshot_ref list \<Rightarrow> ('e, loaded_snapshot option) eff" where
  "restore_session R owner session found =
     bindE (liftE (snapshot_prefix (rn_crypto R) (ow_actor owner))) (\<lambda>prefix.
     restore_snapshots R prefix (se_replicas session) found None)"

definition recover_session :: "'e runtime \<Rightarrow> ownership \<Rightarrow> ('e, loaded_snapshot option) eff" where
  "recover_session R owner =
     bindE (start_recovery R (ownership_scope owner)) (\<lambda>started.
     case started of None \<Rightarrow> retE None
     | Some session \<Rightarrow>
         bindE (seal_replicas R session) (\<lambda>found.
         bindE (restore_session R owner session found) (\<lambda>recovered.
         bindE (finish_recovery R (ownership_scope owner) session) (\<lambda>_.
         retE recovered))))"

definition retire_replication :: "'e runtime \<Rightarrow> replica_scope \<Rightarrow> ('e, unit) eff" where
  "retire_replication R scope =
     bindE (get_owner R (storage_key (sc_actor scope))) (\<lambda>owner.
     bindE (case owner of
         None \<Rightarrow> retE ()
       | Some owner \<Rightarrow>
           if op_owner owner \<noteq> sc_host scope \<or> hl_session_id (op_lease owner) \<noteq> sc_session scope then retE ()
           else
             bindE (rn_clock R) (\<lambda>now.
             liftE (ensure (hl_expires_at_ms (op_lease owner) \<le> now) ''actor activation is still active''))) (\<lambda>_.
     bindE (start_recovery R scope) (\<lambda>started.
     case started of None \<Rightarrow> retE ()
     | Some session \<Rightarrow>
         bindE (seal_replicas R session) (\<lambda>snapshots.
         bindE (forE snapshots (recover_snapshot R (se_replicas session))) (\<lambda>_.
         finish_recovery R scope session)))))"

section \<open>Activations\<close>

definition new_lease :: "'e runtime \<Rightarrow> host_lease_request \<Rightarrow> ('e, host_lease) eff" where
  "new_lease R request =
     bindE (liftE (validate_duration request)) (\<lambda>_.
     bindE (liftE (ensure (hr_id request \<noteq> [] \<and> hr_session_id request \<noteq> []) ''activation identity missing'')) (\<lambda>_.
     bindE (rn_clock R) (\<lambda>now.
     bindE (liftE (ok_or (checked_add now (hr_duration_ms request)) ''lease expiration overflow'')) (\<lambda>expires.
     retE \<lparr>hl_id = hr_id request, hl_session_id = hr_session_id request, hl_route = hr_route request,
       hl_expires_at_ms = expires\<rparr>))))"

definition replace_activation :: "'e runtime \<Rightarrow> ownership \<Rightarrow> int option \<Rightarrow> ('e, ownership \<times> bool) eff" where
  "replace_activation R record generation =
     bindE (rn_uuid R) (\<lambda>mutation.
     let record = record\<lparr>ow_mutation := mutation\<rparr> in
     bindE (liftE (ownership_key (rn_crypto R) (storage_key (ow_actor record)))) (\<lambda>key.
     bindE (replace (rn_authority R) key generation (ownership_to_vec (rn_codec R) record)) (\<lambda>replaced.
     retE (record, replaced))))"

definition save_activation :: "'e runtime \<Rightarrow> ownership \<Rightarrow> int option \<Rightarrow> ('e, ownership) eff" where
  "save_activation R record generation =
     bindE (replace_activation R record generation) (\<lambda>(record, replaced).
     bindE (liftE (ensure replaced ''actor activation changed concurrently'')) (\<lambda>_. retE record))"

definition recover_previous ::
    "'e runtime \<Rightarrow> actor_key \<Rightarrow> host_lease_request \<Rightarrow> string \<Rightarrow> (int \<times> ownership) option \<Rightarrow>
     ('e, loaded_snapshot option) eff" where
  "recover_previous R actor request region current =
     (case current of
        None \<Rightarrow> retE None
      | Some (_, record) \<Rightarrow>
          bindE (liftE (ensure (ow_actor record = actor \<and> ow_region record = region)
            ''ownership scope cannot change'')) (\<lambda>_.
          bindE (liftE (ensure (hl_id (ow_lease record) \<noteq> hr_id request \<or>
              hl_session_id (ow_lease record) \<noteq> hr_session_id request)
            ''activation session cannot be reused'')) (\<lambda>_.
          bindE (rn_clock R) (\<lambda>now.
          bindE (liftE (ensure (hl_expires_at_ms (ow_lease record) \<le> now)
            ''previous owner lease is still active'')) (\<lambda>_.
          bindE (recover_session R record) (\<lambda>recovered.
          latest R record recovered))))))"

definition next_epoch :: "(int \<times> ownership) option \<Rightarrow> u64 option" where
  "next_epoch current = (case current of None \<Rightarrow> Some 1 | Some (_, record) \<Rightarrow> checked_add (ow_epoch record) 1)"

definition claim_activation ::
    "'e runtime \<Rightarrow> actor_key \<Rightarrow> host_lease_request \<Rightarrow> string \<Rightarrow> (int \<times> ownership) option \<Rightarrow>
     ('e, ownership \<times> loaded_snapshot option) eff" where
  "claim_activation R actor request region current =
     bindE (recover_previous R actor request region current) (\<lambda>recovered.
     bindE (liftE (ok_or (next_epoch current) ''owner epoch overflow'')) (\<lambda>epoch.
     bindE (new_lease R request) (\<lambda>lease.
     bindE (save_activation R \<lparr>ow_inventory = default_inventory, ow_lease = lease, ow_mutation = [],
         ow_actor = actor, ow_epoch = epoch, ow_region = region, ow_base = map_option ls_reference recovered\<rparr>
       (map_option fst current)) (\<lambda>record.
     retE (record, recovered)))))"

definition register_activation ::
    "'e runtime \<Rightarrow> actor_key \<Rightarrow> host_lease_request \<Rightarrow> string \<Rightarrow> bool \<Rightarrow> ('e runtime_storage, loaded_actor) eff" where
  "register_activation R actor request region new_actor =
     bindE (liftE (validate_actor_key actor)) (\<lambda>_.
     bindE (liftE (validate_region region)) (\<lambda>_.
     bindE (liftE (validate_duration request)) (\<lambda>_.
     bindE (if new_actor then retE None else envE (load R (storage_key actor))) (\<lambda>current.
     bindE (envE (claim_activation R actor request region current)) (\<lambda>(record, recovered).
     remember record recovered)))))"

definition renew_activation ::
    "'e runtime \<Rightarrow> actor_key \<Rightarrow> host_lease_request \<Rightarrow> activation_inventory \<Rightarrow> ('e, host_lease) eff" where
  "renew_activation R actor request inventory =
     bindE (load R (storage_key actor)) (\<lambda>loaded.
     bindE (liftE (ok_or loaded ''actor ownership missing'')) (\<lambda>(generation, record).
     bindE (liftE (ensure (ow_actor record = actor \<and> hl_id (ow_lease record) = hr_id request \<and>
         hl_session_id (ow_lease record) = hr_session_id request) ''actor ownership changed'')) (\<lambda>_.
     bindE (rn_clock R) (\<lambda>now.
     bindE (liftE (ensure (now < hl_expires_at_ms (ow_lease record)) ''expired activation cannot renew'')) (\<lambda>_.
     bindE (liftE (ensure (hl_route (ow_lease record) = hr_route request) ''activation route cannot change'')) (\<lambda>_.
     bindE (new_lease R request) (\<lambda>lease.
     bindE (save_activation R (record\<lparr>ow_lease := lease, ow_inventory := inventory\<rparr>) (Some generation)) (\<lambda>_.
     retE lease))))))))"

text \<open>Three attempts; the result of an attempt says whether the loop ends.\<close>

definition release_round :: "'e runtime \<Rightarrow> actor_key \<Rightarrow> host_id \<Rightarrow> string \<Rightarrow> ('e, bool) eff" where
  "release_round R actor host session =
     bindE (load R (storage_key actor)) (\<lambda>loaded.
     case loaded of
       None \<Rightarrow> retE True
     | Some (generation, record) \<Rightarrow>
         if hl_id (ow_lease record) \<noteq> host \<or> hl_session_id (ow_lease record) \<noteq> session \<or>
            hl_expires_at_ms (ow_lease record) = 0 then retE True
         else
           bindE (replace_activation R (record\<lparr>ow_lease := (ow_lease record)\<lparr>hl_expires_at_ms := 0\<rparr>\<rparr>)
             (Some generation)) (\<lambda>(_, replaced). retE replaced))"

fun release_rounds :: "'e runtime \<Rightarrow> actor_key \<Rightarrow> host_id \<Rightarrow> string \<Rightarrow> nat \<Rightarrow> ('e, unit) eff" where
  "release_rounds R actor host session 0 = failE ''actor activation kept changing during release''"
| "release_rounds R actor host session (Suc n) =
     bindE (release_round R actor host session) (\<lambda>stop.
     if stop then retE () else release_rounds R actor host session n)"

definition release_activation :: "'e runtime \<Rightarrow> actor_key \<Rightarrow> host_id \<Rightarrow> string \<Rightarrow> ('e, unit) eff" where
  "release_activation R actor host session = release_rounds R actor host session 3"

section \<open>Replica membership\<close>

record replica_membership =
  mb_scope :: replica_scope
  mb_replicas :: "replica_target list"

definition replication_enabled :: "'e runtime \<Rightarrow> bool" where
  "replication_enabled R \<longleftrightarrow> f_regions (rn_fleet R) \<noteq> []"

definition validate_initial_replicas :: "'e runtime \<Rightarrow> replica_target list \<Rightarrow> unit result" where
  "validate_initial_replicas R replicas =
     bindR (ensure (length replicas = length (f_regions (rn_fleet R))) ''incomplete initial replica set'') (\<lambda>_.
     validate_ticket replicas)"

definition register_initial_replicas ::
    "'e runtime \<Rightarrow> replica_scope \<Rightarrow> replica_target list \<Rightarrow> ('e, replica_membership) eff" where
  "register_initial_replicas R scope replicas =
     bindE (liftE (validate_initial_replicas R replicas)) (\<lambda>_.
     let key = session_key (rn_crypto R) (sc_host scope) (sc_session scope);
         initial = \<lparr>se_id = scope_identity (rn_crypto R) scope, se_region = sc_region scope,
           se_replicas = replicas, se_state = Open\<rparr>
     in bindE (replace (rn_authority R) key None (session_to_vec (rn_codec R) initial)) (\<lambda>stored.
        bindE (if stored then retE initial
          else
            bindE (b_get (rn_authority R) key) (\<lambda>object.
            bindE (liftE (ok_or object ''replication session disappeared'')) (\<lambda>ob.
            liftE (decode_session R ob)))) (\<lambda>persisted.
        bindE (liftE (ensure (is_open persisted \<and> se_id persisted = scope_identity (rn_crypto R) scope \<and>
            se_region persisted = sc_region scope) ''initial replication session changed or was fenced'')) (\<lambda>_.
        bindE (liftE (validate_initial_replicas R (se_replicas persisted))) (\<lambda>_.
        retE \<lparr>mb_scope = scope, mb_replicas = se_replicas persisted\<rparr>)))))"

definition owned_stream :: "'e runtime \<Rightarrow> replica_scope \<Rightarrow> ('e runtime_storage, replica_stream) eff" where
  "owned_stream R scope =
     bindE (getE (\<lambda>s. sto_owned s (storage_key (sc_actor scope)))) (\<lambda>owned.
     bindE (liftE (ok_or owned ''actor is not locally activated'')) (\<lambda>record.
     liftE (ownership_stream (rn_crypto R) record)))"

definition replacement_replicas ::
    "'e runtime \<Rightarrow> replica_scope \<Rightarrow> string list \<Rightarrow> ('e runtime_storage, replica_target list) eff" where
  "replacement_replicas R scope failed =
     bindE (envE (f_repair (rn_fleet R) scope failed)) (\<lambda>targets.
     bindE (owned_stream R scope) (\<lambda>stream.
     bindE (envE (join_replicas R (\<lambda>target.
         bindE (tryE (p_head (rn_peers R) target stream)) (\<lambda>result.
         retE (if is_ok result then None else Some (rt_host_id target)))) targets)) (\<lambda>checks.
     bindE (liftE (all_ok checks)) (\<lambda>checks.
     let unreachable = List.map_filter id checks in
     if unreachable = [] then retE targets else envE (f_repair (rn_fleet R) scope unreachable)))))"

definition current_write_plan :: "'e runtime \<Rightarrow> write_plan \<Rightarrow> ('e runtime_storage, write_plan) eff" where
  "current_write_plan R plan =
     bindE (liftE (actor_from_snapshot (rn_crypto R) (wp_object_name plan))) (\<lambda>actor.
     bindE (getE (\<lambda>s. sto_owned s (storage_key actor))) (\<lambda>owned.
     bindE (liftE (ok_or owned ''actor is not locally activated'')) (\<lambda>record.
     bindE (liftE (ownership_stream (rn_crypto R) record)) (\<lambda>stream.
     bindE (liftE (ensure (stream = wp_stream plan) ''write belongs to another activation'')) (\<lambda>_.
     bindE (getE (\<lambda>s. case sto_sessions s (rs_session (wp_stream plan)) of Some m \<Rightarrow> m | None \<Rightarrow> [])) (\<lambda>replicas.
     envE (make_write_plan R record (wp_state_version plan) replicas)))))))"

definition unhealthy_replicas :: "'e runtime \<Rightarrow> replica_scope \<Rightarrow> ('e runtime_storage, string list) eff" where
  "unhealthy_replicas R scope =
     bindE (owned_stream R scope) (\<lambda>stream.
     bindE (getE (local_replica_members R scope)) (\<lambda>targets.
     bindE (envE (join_replicas R (\<lambda>target.
         bindE (tryE (p_head (rn_peers R) target stream)) (\<lambda>result.
         retE (case result of Inr h \<Rightarrow> if sth_stream h = stream then None else Some (rt_host_id target)
               | Inl _ \<Rightarrow> Some (rt_host_id target)))) targets)) (\<lambda>checks.
     bindE (liftE (all_ok checks)) (\<lambda>checks.
     retE (List.map_filter id checks)))))"

definition suspend_replication :: "'e runtime \<Rightarrow> replica_scope \<Rightarrow> ('e runtime_storage, unit) eff" where
  "suspend_replication R scope =
     modE (\<lambda>s. s\<lparr>sto_sessions := (sto_sessions s)(scope_identity (rn_crypto R) scope := None)\<rparr>)"

definition enable_replication :: "'e runtime \<Rightarrow> replica_membership \<Rightarrow> ('e runtime_storage, unit) eff" where
  "enable_replication R membership =
     bindE (getE (\<lambda>s. sto_owned s (storage_key (sc_actor (mb_scope membership))))) (\<lambda>owned.
     bindE (liftE (ok_or owned ''actor is not locally activated'')) (\<lambda>record.
     bindE (liftE (ensure (ownership_scope record = mb_scope membership)
       ''activation changed during replica catch-up'')) (\<lambda>_.
     modE (\<lambda>s. s\<lparr>sto_sessions := (sto_sessions s)
       (scope_identity (rn_crypto R) (mb_scope membership) \<mapsto> mb_replicas membership)\<rparr>))))"

definition seed_write ::
    "'e runtime \<Rightarrow> 'e state_transport \<Rightarrow> write_plan \<Rightarrow> bytes \<Rightarrow> replica_target \<Rightarrow> ('e, unit) eff" where
  "seed_write R T plan bytes target =
     bindE (grantE R ''APPEND'' (rt_region target) (rs_prefix (wp_stream plan)) 60000) (\<lambda>g.
     bindE (liftE (access_url (rn_libs R) (rn_access R) (rt_url target)
       (g\<lparr>gr_host_id := rt_host_id target, gr_stream := Some (wp_stream plan)\<rparr>))) (\<lambda>url.
     bindE (t_write T url bytes) (\<lambda>_. retE ())))"

definition seed_replicas ::
    "'e runtime \<Rightarrow> 'e state_transport \<Rightarrow> string \<Rightarrow> replica_target list \<Rightarrow> replica_target list \<Rightarrow>
     (write_plan \<times> bytes) option \<Rightarrow> ('e, unit) eff" where
  "seed_replicas R T session replicas previous newest =
     bindE (join_replicas R (\<lambda>target. p_initialize (rn_peers R) target session)
       (filter (\<lambda>target. rt_host_id target \<notin> rt_host_id ` set previous) replicas)) (\<lambda>results.
     bindE (liftE (all_ok results)) (\<lambda>_.
     case newest of None \<Rightarrow> retE ()
     | Some (plan, bytes) \<Rightarrow>
         bindE (liftE (ensure (rs_session (wp_stream plan) = session)
           ''repair snapshot belongs to another activation'')) (\<lambda>_.
         bindE (liftE (stream_snapshot (rn_crypto R) (rn_snapshots R) (wp_stream plan) bytes)) (\<lambda>_.
         bindE (joinE (seed_write R T plan bytes) replicas) (\<lambda>writes.
         bindE (liftE (all_ok writes)) (\<lambda>_. retE ()))))))"

definition replace_replicas ::
    "'e runtime \<Rightarrow> 'e state_transport \<Rightarrow> replica_scope \<Rightarrow> replica_target list \<Rightarrow> (write_plan \<times> bytes) option \<Rightarrow>
     ('e, replica_membership) eff" where
  "replace_replicas R T scope replicas newest =
     bindE (liftE (ensure (length replicas = length (f_regions (rn_fleet R))) ''incomplete replacement replica set'')) (\<lambda>_.
     bindE (liftE (validate_ticket replicas)) (\<lambda>_.
     let id = scope_identity (rn_crypto R) scope;
         key = session_key (rn_crypto R) (sc_host scope) (sc_session scope)
     in bindE (b_get (rn_authority R) key) (\<lambda>object.
        bindE (liftE (case object of
            Some ob \<Rightarrow> decode_session R ob
          | None \<Rightarrow> Ok \<lparr>se_id = id, se_region = sc_region scope, se_replicas = [], se_state = Open\<rparr>)) (\<lambda>persisted.
        bindE (liftE (ensure (is_open persisted \<and> se_id persisted = id \<and> se_region persisted = sc_region scope)
          ''replication session changed or was fenced'')) (\<lambda>_.
        bindE (seed_replicas R T id replicas (se_replicas persisted) newest) (\<lambda>_.
        bindE (save_session_record R key (map_option obj_generation object) (persisted\<lparr>se_replicas := replicas\<rparr>)) (\<lambda>saved.
        bindE (liftE (ensure saved ''replication replacement was fenced'')) (\<lambda>_.
        retE \<lparr>mb_scope = scope, mb_replicas = replicas\<rparr>))))))))"

section \<open>History\<close>

record inspected_state =
  is_record :: state_record
  is_state :: string

record state_history_page =
  hp_records :: "state_record list"
  hp_next_before :: "u64 option"

definition inspected :: "state_snapshot \<Rightarrow> inspected_state" where
  "inspected s = \<lparr>is_record = \<lparr>sre_state_version = ss_state_version s, sre_owner_epoch = ss_owner_epoch s,
     sre_request_id = ss_request_id s, sre_attribution = ss_attribution s\<rparr>, is_state = ss_state s\<rparr>"

text \<open>\<open>retain(|v| seen.insert(v))\<close> keeps the first entry of every version.\<close>

fun retain_new :: "u64 set \<Rightarrow> ((u64 \<times> u64) \<times> string) list \<Rightarrow> ((u64 \<times> u64) \<times> string) list" where
  "retain_new seen [] = []"
| "retain_new seen (v # vs) =
     (if snd (fst v) \<in> seen then retain_new seen vs else v # retain_new (insert (snd (fst v)) seen) vs)"

text \<open>The unstable sort by position, newest first: positions that are equal keep an arbitrary order.\<close>

definition sort_versions :: "((u64 \<times> u64) \<times> string) list \<Rightarrow> ((u64 \<times> u64) \<times> string) list" where
  "sort_versions vs = rev (sort_key fst vs)"

definition stored_versions :: "'e runtime \<Rightarrow> actor_key \<Rightarrow> ('e, ((u64 \<times> u64) \<times> string) list) eff" where
  "stored_versions R actor =
     bindE (liftE (snapshots (rn_crypto R) actor)) (\<lambda>prefix.
     bindE (b_list (rn_authority R) prefix) (\<lambda>keys.
     retE (retain_new {} (sort_versions
       (List.map_filter (\<lambda>key. case snapshot_position key of
            Some position \<Rightarrow>
              if is_ok (validate_snapshot_object_name (rn_crypto R) actor (snd position) key)
              then Some (position, key) else None
          | None \<Rightarrow> None) keys)))))"

definition read_stored_state :: "'e runtime \<Rightarrow> string \<Rightarrow> ('e, inspected_state option) eff" where
  "read_stored_state R key =
     bindE (b_get (rn_authority R) key) (\<lambda>object.
     case object of None \<Rightarrow> retE None
     | Some ob \<Rightarrow>
         bindE (liftE (decode_snapshot (rn_libs R) key (obj_bytes ob))) (\<lambda>loaded.
         bindE (liftE (decode (rn_snapshots R) (ls_bytes loaded))) (\<lambda>snapshot.
         retE (Some (inspected snapshot)))))"

definition cache_history_record :: "'e runtime \<Rightarrow> string \<Rightarrow> state_record \<Rightarrow> ('e, unit) eff" where
  "cache_history_record R key record =
     bindE (replace (rn_authority R) key None (record_to_vec (rn_codec R) record)) (\<lambda>_. retE ())"

definition history_record :: "'e runtime \<Rightarrow> string \<Rightarrow> ('e, state_record option) eff" where
  "history_record R snapshot_key =
     (let key = snapshot_key @ ''.metadata'' in
      bindE (b_get (rn_authority R) key) (\<lambda>cached.
      case cached of
        Some ob \<Rightarrow>
          bindE (liftE (ok_or (record_from_slice (rn_codec R) (obj_bytes ob)) ''invalid JSON'')) (\<lambda>record.
          retE (Some record))
      | None \<Rightarrow>
          bindE (read_stored_state R snapshot_key) (\<lambda>state.
          case state of None \<Rightarrow> retE None
          | Some st \<Rightarrow>
              bindE (tryE (cache_history_record R key (is_record st))) (\<lambda>_.
              retE (Some (is_record st))))))"

definition inspect_state :: "'e runtime \<Rightarrow> actor_key \<Rightarrow> u64 option \<Rightarrow> ('e, inspected_state option) eff" where
  "inspect_state R actor version =
     bindE (stored_versions R actor) (\<lambda>versions.
     case List.find (\<lambda>v. version = None \<or> version = Some (snd (fst v))) versions of
       None \<Rightarrow> retE None
     | Some (_, key) \<Rightarrow> read_stored_state R key)"

definition history_page ::
    "u64 option \<Rightarrow> nat \<Rightarrow> ((u64 \<times> u64) \<times> string) list \<Rightarrow> ((u64 \<times> u64) \<times> string) list \<times> bool" where
  "history_page before limit versions =
     (let versions = filter (\<lambda>v. case before of None \<Rightarrow> True | Some b \<Rightarrow> snd (fst v) < b) versions
      in (take limit versions, limit < length versions))"

definition state_history ::
    "'e runtime \<Rightarrow> actor_key \<Rightarrow> u64 option \<Rightarrow> nat \<Rightarrow> ('e, state_history_page) eff" where
  "state_history R actor before limit =
     bindE (stored_versions R actor) (\<lambda>versions.
     case history_page before limit versions of (versions, has_more) \<Rightarrow>
     bindE (forE versions (\<lambda>v. history_record R (snd v))) (\<lambda>records.
     let records = List.map_filter id records in
     retE \<lparr>hp_records = records,
       hp_next_before = (if has_more \<and> records \<noteq> [] then Some (sre_state_version (last records)) else None)\<rparr>))"

end
