(* ===== verification/Runtime_Frame.thy ===== *)
theory Runtime_Frame
  imports Runtime_Sessions
begin

text \<open>
  What an assertion on the environment has to survive so that it holds after every operation of the
  runtime storage: the locale \<open>runtime_frame\<close> asks it of the clocks, the bucket, the provisioner and the
  replicas, and shows it of the operations built from them.
\<close>

definition keeps :: "('w \<Rightarrow> bool) \<Rightarrow> ('w, 'a) eff \<Rightarrow> bool" where
  "keeps I m \<longleftrightarrow> triple I m (\<lambda>_. I) I"

named_theorems keeps_rules \<open>assertions that an operation keeps\<close>

lemma keepsI: "(\<And>w r w'. I w \<Longrightarrow> m w = (r, w') \<Longrightarrow> I w') \<Longrightarrow> keeps I m"
  unfolding keeps_def by (rule tripleI) auto

lemma keepsD: "keeps I m \<Longrightarrow> I w \<Longrightarrow> m w = (r, w') \<Longrightarrow> I w'"
  unfolding keeps_def by (rule tripleD)

lemma keeps_bind [keeps_rules]: "keeps I m \<Longrightarrow> (\<And>x. keeps I (f x)) \<Longrightarrow> keeps I (bindE m f)"
  unfolding keeps_def by (rule triple_bind)

lemma keeps_ret [keeps_rules]: "keeps I (retE x)"
  unfolding keeps_def by (rule triple_ret)

lemma keeps_lift [keeps_rules]: "keeps I (liftE r)"
  unfolding keeps_def by (rule triple_lift)

lemma keeps_fail [keeps_rules]: "keeps I (failE m)"
  unfolding keeps_def by (rule triple_fail)

lemma keeps_get [keeps_rules]: "keeps I (getE f)"
  unfolding keeps_def by (rule triple_get)

lemma keeps_try [keeps_rules]: "keeps I m \<Longrightarrow> keeps I (tryE m)"
  unfolding keeps_def by (rule triple_try)

lemma keeps_for [keeps_rules]: "(\<And>x. keeps I (f x)) \<Longrightarrow> keeps I (forE xs f)"
  unfolding keeps_def by (rule triple_for)

lemma keeps_join [keeps_rules]: "(\<And>x. keeps I (f x)) \<Longrightarrow> keeps I (joinE f xs)"
  unfolding joinE_def by (intro keeps_rules)

lemma keeps_if [keeps_rules]: "(c \<Longrightarrow> keeps I m) \<Longrightarrow> (\<not> c \<Longrightarrow> keeps I n) \<Longrightarrow> keeps I (if c then m else n)"
  by simp

lemma keeps_option [keeps_rules]: "keeps I m \<Longrightarrow> (\<And>x. keeps I (f x)) \<Longrightarrow> keeps I (case v of None \<Rightarrow> m | Some x \<Rightarrow> f x)"
  by (cases v) simp_all

lemma keeps_result [keeps_rules]: "(\<And>e. keeps I (f e)) \<Longrightarrow> (\<And>x. keeps I (g x)) \<Longrightarrow> keeps I (case v of Inl e \<Rightarrow> f e | Inr x \<Rightarrow> g x)"
  by (cases v) simp_all

lemma keeps_prod [keeps_rules]: "(\<And>x y. keeps I (f x y)) \<Longrightarrow> keeps I (case p of (x, y) \<Rightarrow> f x y)"
  by (cases p) simp

lemma keeps_let [keeps_rules]: "(\<And>x. keeps I (f x)) \<Longrightarrow> keeps I (let x = v in f x)"
  by simp

lemma keeps_state [keeps_rules]:
  "keeps I a \<Longrightarrow> keeps I b \<Longrightarrow> keeps I c \<Longrightarrow> keeps I (case v of Open \<Rightarrow> a | Recovering \<Rightarrow> b | Sealed \<Rightarrow> c)"
  by (cases v) simp_all

section \<open>The operations\<close>

locale runtime_frame =
  fixes R :: "'e runtime" and I :: "'e \<Rightarrow> bool"
  assumes clock: "keeps I (rn_clock R)"
    and system_clock: "keeps I (rn_system_clock R)"
    and uuid: "keeps I (rn_uuid R)"
    and get: "keeps I (b_get (rn_authority R) k)"
    and cas: "keeps I (b_cas (rn_authority R) k g b)"
    and enum: "keeps I (b_list (rn_authority R) p)"
    and repair: "keeps I (f_repair (rn_fleet R) scope failed)"
    and head: "keeps I (p_head (rn_peers R) peer stream)"
    and seal: "keeps I (p_seal (rn_peers R) peer sid)"
    and read: "keeps I (p_read (rn_peers R) peer object)"
begin

lemmas primitive = clock system_clock uuid get cas enum repair head seal read

lemmas rules = keeps_rules primitive

lemma frame_replace: "keeps I (replace (rn_authority R) k g b)"
  unfolding replace_def by (intro rules)

lemma frame_load: "keeps I (load R object)"
  unfolding load_def by (intro rules)

lemma frame_join: "(\<And>t. keeps I (f t)) \<Longrightarrow> keeps I (join_replicas R f ts)"
  unfolding join_replicas_def by (intro rules)

lemma frame_members: "keeps I (replica_members R scope)"
  unfolding replica_members_def by (intro rules)

lemma frame_persist: "keeps I (persist R object bytes)"
  unfolding persist_def by (intro rules frame_replace)

lemma frame_recover_from: "keeps I (recover_from R ps r)"
  by (induction ps) (unfold recover_from.simps, (intro rules frame_persist; assumption)+)

lemma frame_recover_snapshot: "keeps I (recover_snapshot R ps r)"
  unfolding recover_snapshot_def by (intro rules frame_recover_from)

lemma frame_load_newest: "keeps I (load_newest R newest known)"
  unfolding load_newest_def by (intro rules)

lemma frame_latest: "keeps I (latest R record known)"
  unfolding latest_def by (intro rules frame_load_newest frame_members frame_join frame_recover_snapshot)

lemma frame_save_session: "keeps I (save_session_record R key generation session)"
  unfolding save_session_record_def by (rule frame_replace)

lemma frame_recovery_round: "keeps I (recovery_round R scope)"
  unfolding recovery_round_def by (intro rules frame_save_session)

lemma frame_start_recovery: "keeps I (start_recovery R scope)"
proof -
  have "keeps I (start_recovery_loop R scope n)" for n
    by (induction n) (unfold start_recovery_loop.simps, (intro rules frame_recovery_round; assumption)+)
  then show ?thesis by (simp add: start_recovery_def)
qed

lemma frame_finish_recovery: "keeps I (finish_recovery R scope session)"
proof -
  have "keeps I (finish_recovery_loop R key s n)" for key s n
    by (induction n) (unfold finish_recovery_loop.simps, (intro rules frame_save_session; assumption)+)
  then show ?thesis by (simp add: finish_recovery_def)
qed

lemma frame_seal_replicas: "keeps I (seal_replicas R session)"
  unfolding seal_replicas_def by (intro rules frame_join)

lemma frame_restore_session: "keeps I (restore_session R owner session found)"
proof -
  have "keeps I (restore_snapshots R p ts refs best)" for p ts refs best
    by (induction refs arbitrary: best) (unfold restore_snapshots.simps, (intro rules frame_recover_snapshot; assumption)+)
  then show ?thesis unfolding restore_session_def by (intro rules)
qed

lemma frame_recover_session: "keeps I (recover_session R owner)"
  unfolding recover_session_def
  by (intro rules frame_start_recovery frame_seal_replicas frame_restore_session frame_finish_recovery)

lemma frame_new_lease: "keeps I (new_lease R request)"
  unfolding new_lease_def by (intro rules)

lemma frame_replace_activation: "keeps I (replace_activation R record generation)"
  unfolding replace_activation_def by (intro rules frame_replace)

lemma frame_save_activation: "keeps I (save_activation R record generation)"
  unfolding save_activation_def by (intro rules frame_replace_activation)

lemma frame_recover_previous: "keeps I (recover_previous R actor request region current)"
  unfolding recover_previous_def by (intro rules frame_recover_session frame_latest)

lemma frame_release_activation: "keeps I (release_activation R actor host session)"
proof -
  have round: "keeps I (release_round R actor host session)"
    unfolding release_round_def by (intro rules frame_load frame_replace_activation)
  have "keeps I (release_rounds R actor host session n)" for n
    by (induction n) (unfold release_rounds.simps, (intro rules round; assumption)+)
  then show ?thesis by (simp add: release_activation_def)
qed

lemma frame_grant: "keeps I (grantE R operation region object d)"
  unfolding grantE_def by (intro rules)

lemma frame_make_write_plan: "keeps I (make_write_plan R record version replicas)"
  unfolding make_write_plan_def by (intro rules frame_grant)

end

section \<open>The memory\<close>

text \<open>An assertion on the environment as one on the storage around it.\<close>

definition on_env :: "('e \<Rightarrow> bool) \<Rightarrow> 'e runtime_storage \<Rightarrow> bool" where
  "on_env I s = I (sto_env s)"

lemma keeps_env [keeps_rules]: "keeps I m \<Longrightarrow> keeps (on_env I) (envE m)"
  unfolding envE_def on_env_def
  by (rule keepsI) (auto simp: zoomE_def split: prod.splits dest: keepsD)

lemma keeps_remember [keeps_rules]: "keeps (on_env I) (remember record snapshot)"
  unfolding remember_def by (intro keeps_rules) (rule keepsI, auto simp: on_env_def)

context runtime_frame
begin

lemma frame_activate_actor: "keeps (on_env I) (activate_actor R actor lease region)"
  unfolding activate_actor_def load_actor_def by (intro rules keeps_env keeps_remember frame_load frame_latest)

lemma frame_load_owned_actor: "keeps (on_env I) (load_owned_actor R actor lease epoch)"
  unfolding load_owned_actor_def load_actor_def by (intro rules keeps_env keeps_remember frame_load frame_latest)

lemma frame_prepare_actor_write: "keeps (on_env I) (prepare_actor_write R actor lease epoch version)"
  unfolding prepare_actor_write_def by (intro rules keeps_env keeps_remember frame_make_write_plan)

end

end
