(* ===== verification/Host_Storage.thy ===== *)
theory Host_Storage
  imports Actor_Host Runtime_Frame
begin

text \<open>
  The storage of a host process (\<^verbatim>\<open>src/host/storage.rs\<close>): it registers and renews the lease of its activation,
  and answers the actor runtime only inside the window the fence of \<^verbatim>\<open>src/control_plane/client.rs\<close> leaves
  it. The lease maintainer of \<^verbatim>\<open>src/host/lease_maintenance.rs\<close> renews the lease in time or reports it lost.

  Instants are nanoseconds of the monotonic clock of the process, and the system clock of
  \<^verbatim>\<open>src/clock.rs\<close> is that clock added to one reading of the wall clock. \<open>hn_instant\<close> stands for
  \<open>Instant::now\<close>, the runtime storage is that of \<^verbatim>\<open>Runtime_Storage\<close> on any environment, and a lock that
  is poisoned by a panic is not modelled.
\<close>

section \<open>Clocks\<close>

type_synonym instant = nat

definition nanos :: "nat \<Rightarrow> nat" where
  "nanos ms = ms * 1000000"

text \<open>\<open>ANCHOR\<close>: the wall clock in nanoseconds since the epoch, and the instant of that reading.\<close>

type_synonym anchor = "int \<times> instant"

definition system_now_ms :: "anchor \<Rightarrow> instant \<Rightarrow> u64 result" where
  "system_now_ms a t =
     (let now = fst a + int (t - snd a) in
      if now < 0 then Err (Msg ''second time provided was later than self'')
      else if nat now div 1000000 < 2 ^ 64 then Ok (of_nat (nat now div 1000000))
      else Err (Msg ''out of range integral type conversion attempted''))"

section \<open>The fence\<close>

record lease_fence =
  lf_deadline :: "instant option"
  lf_fenced :: bool

definition default_fence :: lease_fence where
  "default_fence = \<lparr>lf_deadline = None, lf_fenced = False\<rparr>"

definition fence_past :: "instant \<Rightarrow> instant \<Rightarrow> (lease_fence, unit) eff" where
  "fence_past deadline now = modE (\<lambda>f. if deadline \<le> now then f\<lparr>lf_fenced := True\<rparr> else f)"

definition fence_check :: "instant \<Rightarrow> (lease_fence, unit) eff" where
  "fence_check now =
     bindE (getE lf_deadline) (\<lambda>deadline.
     bindE (liftE (ok_or deadline ''host lease is not confirmed yet'')) (\<lambda>deadline.
     bindE (fence_past deadline now) (\<lambda>_.
     bindE (getE lf_fenced) (\<lambda>fenced.
     liftE (ensure (\<not> fenced) ''host session has no confirmed live lease'')))))"

definition fence_begin :: "instant \<Rightarrow> (lease_fence, unit) eff" where
  "fence_begin now =
     bindE (getE lf_deadline) (\<lambda>deadline.
     bindE (if deadline \<noteq> None then fence_check now else retE ()) (\<lambda>_.
     bindE (getE lf_fenced) (\<lambda>fenced.
     liftE (ensure (\<not> fenced) ''host session is permanently fenced''))))"

definition fence_confirm :: "instant \<Rightarrow> u64 \<Rightarrow> instant \<Rightarrow> (lease_fence, unit) eff" where
  "fence_confirm begun duration_ms now =
     bindE (fence_begin now) (\<lambda>_.
     let window = nanos (unat duration_ms) - nanos 5000;
         deadline = begun + window in
     bindE (fence_past deadline now) (\<lambda>_.
     bindE (getE lf_fenced) (\<lambda>fenced.
     bindE (liftE (ensure (\<not> fenced) ''host lease response arrived after the safe lease window'')) (\<lambda>_.
     modE (\<lambda>f. f\<lparr>lf_deadline := Some deadline\<rparr>)))))"

section \<open>The storage of a host\<close>

record 'e host_node =
  hn_runtime :: "'e runtime"
  hn_instant :: "'e \<Rightarrow> instant \<times> 'e"
  hn_anchor :: anchor

record 'e host_storage =
  hs_runtime :: "'e runtime_storage"
  hs_host :: host_id
  hs_session :: string
  hs_region :: string
  hs_actor :: "actor_key option"
  hs_new_actor :: bool
  hs_activation :: "actor_activation option"
  hs_fence :: lease_fence
  hs_lease :: "host_lease option"
  hs_notified :: nat

definition new_host_storage ::
    "'e host_node \<Rightarrow> host_id \<Rightarrow> string \<Rightarrow> string \<Rightarrow> 'e \<Rightarrow> 'e host_storage result" where
  "new_host_storage H host session region e =
     bindR (new_runtime_storage (hn_runtime H) e) (\<lambda>runtime.
     Ok \<lparr>hs_runtime = runtime, hs_host = host, hs_session = session, hs_region = region, hs_actor = None,
       hs_new_actor = False, hs_activation = None, hs_fence = default_fence, hs_lease = None, hs_notified = 0\<rparr>)"

definition with_actor :: "actor_key option \<Rightarrow> bool \<Rightarrow> 'e host_storage \<Rightarrow> 'e host_storage" where
  "with_actor actor new_actor s = s\<lparr>hs_actor := actor, hs_new_actor := new_actor\<rparr>"

definition storageE :: "('e runtime_storage, 'a) eff \<Rightarrow> ('e host_storage, 'a) eff" where
  "storageE m = zoomE hs_runtime (\<lambda>r s. s\<lparr>hs_runtime := r\<rparr>) m"

definition fenceE :: "(lease_fence, 'a) eff \<Rightarrow> ('e host_storage, 'a) eff" where
  "fenceE m = zoomE hs_fence (\<lambda>f s. s\<lparr>hs_fence := f\<rparr>) m"

definition instantE :: "'e host_node \<Rightarrow> ('e, instant) eff" where
  "instantE H e = (case hn_instant H e of (t, e') \<Rightarrow> (Ok t, e'))"

text \<open>The call to the observer runs in a task of its own, and its outcome is ignored.\<close>

definition notify_observer :: "('e host_storage, unit) eff" where
  "notify_observer = modE (\<lambda>s. s\<lparr>hs_notified := Suc (hs_notified s)\<rparr>)"

definition hs_ensure_authority :: "'e host_node \<Rightarrow> ('e host_storage, unit) eff" where
  "hs_ensure_authority H =
     bindE (storageE (envE (instantE H))) (\<lambda>now. fenceE (fence_check now))"

definition hs_current_lease :: "'e host_node \<Rightarrow> ('e host_storage, host_lease) eff" where
  "hs_current_lease H =
     bindE (hs_ensure_authority H) (\<lambda>_.
     bindE (getE hs_lease) (\<lambda>lease. liftE (ok_or lease ''activation lease missing'')))"

definition hs_authorize :: "'e host_node \<Rightarrow> actor_key \<Rightarrow> host_id \<Rightarrow> ('e host_storage, unit) eff" where
  "hs_authorize H actor host =
     bindE (liftE (validate_actor_key actor)) (\<lambda>_.
     bindE (getE (\<lambda>s. case hs_actor s of None \<Rightarrow> True | Some bound \<Rightarrow> bound = actor)) (\<lambda>bound.
     bindE (liftE (ensure bound ''actor identity mismatch'')) (\<lambda>_.
     bindE (getE (\<lambda>s. host = hs_host s)) (\<lambda>same.
     bindE (liftE (ensure same ''host storage scope mismatch'')) (\<lambda>_.
     hs_ensure_authority H)))))"

definition actor_activation_of :: "loaded_actor \<Rightarrow> actor_activation" where
  "actor_activation_of a = \<lparr>act_owner_epoch = op_owner_epoch (la_placement a),
     act_state_version = op_state_version (la_placement a), act_state = la_state a\<rparr>"

definition hs_held_lease :: "('e host_storage, host_lease) eff" where
  "hs_held_lease = bindE (getE hs_lease) (\<lambda>lease. liftE (ok_or lease ''host lease missing''))"

definition take_activation :: "('e host_storage, actor_activation option) eff" where
  "take_activation s = (Ok (hs_activation s), s\<lparr>hs_activation := None\<rparr>)"

definition hs_acquire_actor :: "'e host_node \<Rightarrow> actor_key \<Rightarrow> host_id \<Rightarrow> ('e host_storage, actor_activation) eff" where
  "hs_acquire_actor H actor host =
     bindE (hs_authorize H actor host) (\<lambda>_.
     bindE take_activation (\<lambda>activation.
     case activation of
       Some activation \<Rightarrow> retE activation
     | None \<Rightarrow>
         bindE hs_held_lease (\<lambda>lease.
         bindE (getE hs_region) (\<lambda>region.
         bindE (storageE (activate_actor (hn_runtime H) actor lease region)) (\<lambda>loaded.
         bindE (hs_ensure_authority H) (\<lambda>_.
         retE (actor_activation_of loaded)))))))"

definition hs_load_actor_state ::
    "'e host_node \<Rightarrow> actor_key \<Rightarrow> host_id \<Rightarrow> u64 \<Rightarrow> ('e host_storage, u64 \<times> bytes) eff" where
  "hs_load_actor_state H actor host epoch =
     bindE (hs_authorize H actor host) (\<lambda>_.
     bindE hs_held_lease (\<lambda>lease.
     bindE (storageE (load_owned_actor (hn_runtime H) actor lease epoch)) (\<lambda>loaded.
     bindE (hs_ensure_authority H) (\<lambda>_.
     retE (op_state_version (la_placement loaded), case la_state loaded of None \<Rightarrow> [] | Some b \<Rightarrow> b)))))"

definition hs_prepare_state_write ::
    "'e host_node \<Rightarrow> actor_key \<Rightarrow> host_id \<Rightarrow> u64 \<Rightarrow> u64 \<Rightarrow> ('e host_storage, write_plan) eff" where
  "hs_prepare_state_write H actor host epoch version =
     bindE (hs_authorize H actor host) (\<lambda>_.
     bindE hs_held_lease (\<lambda>lease.
     bindE (liftE (ok_or (checked_add version 1) ''state version overflow'')) (\<lambda>next_version.
     bindE (storageE (prepare_actor_write (hn_runtime H) actor lease epoch next_version)) (\<lambda>ticket.
     bindE (hs_ensure_authority H) (\<lambda>_.
     retE ticket)))))"

text \<open>What the maintainer reports of the host: residents, sockets and queues.\<close>

type_synonym host_report = "actor_key list option \<times> actor_socket_inventory list \<times> actor_queue_inventory list option"

definition check_report :: "actor_key \<Rightarrow> host_report \<Rightarrow> unit result" where
  "check_report actor report =
     (case report of (residents, sockets, queues) \<Rightarrow>
      bindR (ensure (case residents of None \<Rightarrow> True
          | Some actors \<Rightarrow> length actors \<le> 1 \<and> list_all (\<lambda>candidate. candidate = actor) actors)
        ''resident actor scope mismatch'') (\<lambda>_.
      ensure (list_all (\<lambda>entry. asi_actor entry = actor) sockets \<and>
          (case queues of None \<Rightarrow> True | Some entries \<Rightarrow> list_all (\<lambda>entry. aq_actor entry = actor) entries))
        ''inventory actor scope mismatch''))"

definition report_inventory :: "actor_key \<Rightarrow> host_report \<Rightarrow> activation_inventory" where
  "report_inventory actor report =
     (case report of (residents, sockets, queues) \<Rightarrow>
      \<lparr>ai_resident = map_option (\<lambda>actors. actor \<in> set actors) residents,
       ai_connections = concat (map asi_connections sockets),
       ai_waiting = map_option (\<lambda>entries. concat (map aq_waiting entries)) queues\<rparr>)"

text \<open>The first registration claims the activation, every later one renews it.\<close>

definition register_first ::
    "'e host_node \<Rightarrow> actor_key \<Rightarrow> host_lease_request \<Rightarrow> ('e host_storage, host_lease) eff" where
  "register_first H actor request =
     bindE (getE (\<lambda>s. (hs_region s, hs_new_actor s))) (\<lambda>(region, new_actor).
     bindE (storageE (register_activation (hn_runtime H) actor request region new_actor)) (\<lambda>loaded.
     bindE (modE (\<lambda>s. s\<lparr>hs_activation := Some (actor_activation_of loaded)\<rparr>)) (\<lambda>_.
     retE (op_lease (la_placement loaded)))))"

definition hs_register ::
    "'e host_node \<Rightarrow> host_lease_request \<Rightarrow> host_report \<Rightarrow> ('e host_storage, host_lease) eff" where
  "hs_register H request report =
     bindE (getE (\<lambda>s. hr_id request = hs_host s \<and> hr_session_id request = hs_session s)) (\<lambda>scope.
     bindE (liftE (ensure scope ''host lease scope mismatch'')) (\<lambda>_.
     bindE (storageE (envE (instantE H))) (\<lambda>begun.
     bindE (fenceE (fence_begin begun)) (\<lambda>_.
     bindE (getE hs_actor) (\<lambda>actor.
     bindE (liftE (ok_or actor ''host actor identity missing'')) (\<lambda>actor.
     bindE (liftE (check_report actor report)) (\<lambda>_.
     bindE (getE hs_lease) (\<lambda>held.
     bindE (if held = None then register_first H actor request
       else storageE (envE (renew_activation (hn_runtime H) actor request (report_inventory actor report)))) (\<lambda>lease.
     bindE (storageE (envE (instantE H))) (\<lambda>now.
     bindE (fenceE (fence_confirm begun (hr_duration_ms request) now)) (\<lambda>_.
     bindE (modE (\<lambda>s. s\<lparr>hs_lease := Some lease\<rparr>)) (\<lambda>_.
     bindE notify_observer (\<lambda>_.
     retE lease)))))))))))))"

definition hs_unregister :: "'e host_node \<Rightarrow> host_id \<Rightarrow> string \<Rightarrow> ('e host_storage, unit) eff" where
  "hs_unregister H host session =
     bindE (getE (\<lambda>s. host = hs_host s \<and> session = hs_session s)) (\<lambda>scope.
     bindE (liftE (ensure scope ''host lease scope mismatch'')) (\<lambda>_.
     bindE (fenceE (modE (\<lambda>f. f\<lparr>lf_fenced := True\<rparr>))) (\<lambda>_.
     bindE (getE hs_actor) (\<lambda>actor.
     bindE (liftE (ok_or actor ''host actor identity missing'')) (\<lambda>actor.
     bindE (storageE (envE (release_activation (hn_runtime H) actor host session))) (\<lambda>_.
     notify_observer))))))"

section \<open>The lease maintainer\<close>

record lease_maintainer =
  lm_host :: host_id
  lm_route :: string
  lm_session_id :: string
  lm_lease_duration_ms :: u64
  lm_renew_every :: nat

definition new_maintainer :: "host_id \<Rightarrow> string \<Rightarrow> string \<Rightarrow> nat \<Rightarrow> nat \<Rightarrow> lease_maintainer result" where
  "new_maintainer host route session_id lease_duration renew_every =
     bindR (ensure (lease_duration div 1000000 < 2 ^ 64) ''out of range integral type conversion attempted'') (\<lambda>_.
     let lease_duration_ms = of_nat (lease_duration div 1000000) in
     bindR (ensure (0 < lease_duration_ms) ''host lease duration must be positive'') (\<lambda>_.
     bindR (ensure (renew_every \<noteq> 0) ''host lease renewal interval must be positive'') (\<lambda>_.
     bindR (ensure (renew_every < lease_duration) ''host lease renewal interval must be shorter than its duration'') (\<lambda>_.
     bindR (ensure (session_id \<noteq> []) ''host session ID must not be empty'') (\<lambda>_.
     Ok \<lparr>lm_host = host, lm_route = route, lm_session_id = session_id,
       lm_lease_duration_ms = lease_duration_ms, lm_renew_every = renew_every\<rparr>)))))"

definition clockE :: "'e host_node \<Rightarrow> ('e host_storage, u64) eff" where
  "clockE H = bindE (storageE (envE (instantE H))) (\<lambda>t. liftE (system_now_ms (hn_anchor H) t))"

definition renew_once_with_deadline ::
    "'e host_node \<Rightarrow> lease_maintainer \<Rightarrow> host_report \<Rightarrow> ('e host_storage, host_lease \<times> instant) eff" where
  "renew_once_with_deadline H M report =
     bindE (clockE H) (\<lambda>local_now.
     bindE (liftE (ok_or (checked_add local_now (lm_lease_duration_ms M)) ''host lease expiration overflow'')) (\<lambda>valid_until.
     bindE (hs_register H \<lparr>hr_id = lm_host M, hr_session_id = lm_session_id M, hr_route = lm_route M,
       hr_duration_ms = lm_lease_duration_ms M\<rparr> report) (\<lambda>lease.
     bindE (storageE (envE (instantE H))) (\<lambda>deadline_anchor.
     bindE (clockE H) (\<lambda>now.
     let remaining = unat valid_until - unat now in
     bindE (liftE (ensure (0 < remaining) ''host lease expired before its registration response arrived'')) (\<lambda>_.
     retE (lease, deadline_anchor + nanos remaining)))))))"

text \<open>
  The task of the maintainer wakes when it is shut down, when another observation is set, when its timer
  fires or the inventory changes, or when the local deadline passes. A renewal that is still pending at the deadline
  is dropped: it is a renewal that failed.
\<close>

record wakeup =
  wk_shutdown :: bool
  wk_observed :: bool
  wk_report :: host_report

datatype renewal_state = Renewing instant | Stopped | Lost

definition wait_until_renewal :: "'e host_node \<Rightarrow> instant \<Rightarrow> wakeup \<Rightarrow> ('e host_storage, renewal_state) eff" where
  "wait_until_renewal H deadline w =
     bindE (storageE (envE (instantE H))) (\<lambda>now.
     retE (if wk_shutdown w then Stopped
       else if wk_observed w then Renewing deadline
       else if deadline \<le> now then Lost
       else Renewing deadline))"

definition renew_before_deadline ::
    "'e host_node \<Rightarrow> lease_maintainer \<Rightarrow> instant \<Rightarrow> wakeup \<Rightarrow> ('e host_storage, renewal_state) eff" where
  "renew_before_deadline H M deadline w =
     bindE (tryE (renew_once_with_deadline H M (wk_report w))) (\<lambda>result.
     case result of
       Inr (_, local_deadline) \<Rightarrow> retE (Renewing local_deadline)
     | Inl _ \<Rightarrow>
         bindE (storageE (envE (instantE H))) (\<lambda>now.
         retE (if deadline \<le> now then Lost else Renewing deadline)))"

fun renew_until_stopped ::
    "'e host_node \<Rightarrow> lease_maintainer \<Rightarrow> instant \<Rightarrow> wakeup list \<Rightarrow> ('e host_storage, renewal_state) eff" where
  "renew_until_stopped H M deadline [] = retE (Renewing deadline)"
| "renew_until_stopped H M deadline (w # ws) =
     bindE (wait_until_renewal H deadline w) (\<lambda>waited.
     case waited of
       Renewing _ \<Rightarrow>
         bindE (renew_before_deadline H M deadline w) (\<lambda>renewed.
         case renewed of
           Renewing local_deadline \<Rightarrow> renew_until_stopped H M local_deadline ws
         | _ \<Rightarrow> retE renewed)
     | _ \<Rightarrow> retE waited)"

definition start_maintainer ::
    "'e host_node \<Rightarrow> lease_maintainer \<Rightarrow> host_report \<Rightarrow> wakeup list \<Rightarrow> ('e host_storage, renewal_state) eff" where
  "start_maintainer H M report ws =
     bindE (renew_once_with_deadline H M report) (\<lambda>(_, local_deadline).
     renew_until_stopped H M local_deadline ws)"

definition maintainer_unregister :: "'e host_node \<Rightarrow> lease_maintainer \<Rightarrow> ('e host_storage, unit) eff" where
  "maintainer_unregister H M = hs_unregister H (lm_host M) (lm_session_id M)"

section \<open>Calls\<close>

text \<open>The storage as a service of the actor runtime; executor, publisher and writer work on the environment.\<close>

definition host_services :: "'e host_node \<Rightarrow> 'e actor_services \<Rightarrow> 'e host_storage actor_services" where
  "host_services H S =
     \<lparr>sv_host = sv_host S, sv_snapshots = sv_snapshots S, sv_sockets = sv_sockets S,
      sv_unix_millis = storageE (envE (sv_unix_millis S)), x_supports = x_supports S,
      x_hydrate = (\<lambda>a j. storageE (envE (x_hydrate S a j))), x_invoke = (\<lambda>i j. storageE (envE (x_invoke S i j))),
      x_handle_socket = (\<lambda>i j. storageE (envE (x_handle_socket S i j))), x_evict = (\<lambda>a. storageE (envE (x_evict S a))),
      s_acquire = hs_acquire_actor H, s_load_state = hs_load_actor_state H,
      s_ensure_authority = hs_ensure_authority H, s_prepare_write = hs_prepare_state_write H,
      s_write_snapshot = (\<lambda>p b. storageE (envE (s_write_snapshot S p b))),
      s_publish = (\<lambda>a fs. storageE (envE (s_publish S a fs)))\<rparr>"

text \<open>The actor runtime on that storage: calls of the maintainer and of the actor task in any order.\<close>

datatype node_call =
    CallRegister host_lease_request host_report
  | CallUnregister host_id string
  | CallLease
  | CallActivate actor_key
  | CallInvoke actor_invocation u64
  | CallSocket socket_invocation u64

type_synonym 'e node = "'e host_storage actor_runtime"

fun node_step :: "'e host_node \<Rightarrow> 'e actor_services \<Rightarrow> node_call \<Rightarrow> 'e node \<Rightarrow> 'e node" where
  "node_step H S (CallRegister request report) n = snd (envA (hs_register H request report) n)"
| "node_step H S (CallUnregister host session) n = snd (envA (hs_unregister H host session) n)"
| "node_step H S CallLease n = snd (envA (hs_current_lease H) n)"
| "node_step H S (CallActivate actor) n = snd (rt_activate_actor (host_services H S) actor n)"
| "node_step H S (CallInvoke i epoch) n = snd (invoke_actor (host_services H S) i epoch n)"
| "node_step H S (CallSocket i epoch) n = snd (handle_socket_event (host_services H S) i epoch n)"

definition node_run :: "'e host_node \<Rightarrow> 'e actor_services \<Rightarrow> node_call list \<Rightarrow> 'e node \<Rightarrow> 'e node" where
  "node_run H S calls n = fold (node_step H S) calls n"

end
