(* ===== verification/State_Replication.thy ===== *)
theory State_Replication
  imports Host_Storage
begin

text \<open>
  Replicated writes: \<^verbatim>\<open>src/replication/transport.rs\<close>, which races an upload to the bucket against appends to every
  replica, and \<^verbatim>\<open>src/host/replication.rs\<close> with its module \<open>startup\<close>, which gives each write its current replicas,
  waits for the first replica set, and repairs the set while writes go on.

  A task that is spawned runs until it completes, even when nobody waits for it any more, so a write is a race
  (\<open>write_race\<close>) that takes one event at a time: the completion of the upload or of one append. Whatever is left
  of a finished race goes on in the background. The supervisor and the writes of a host interleave between any two of the steps of
  \<open>replication_step\<close>; the lock \<open>writing\<close> is the presence of a race, and what happens under the lock \<open>latest\<close> is one step.
  A task that runs out of time is a call that returns an error. Context added to an error and log lines are left out.
\<close>

section \<open>The race of a write\<close>

text \<open>The other side of the race: none, waiting for the first replica set, or the appends that are still to complete.\<close>

datatype replica_side =
    Unreplicated
  | AwaitingPlan
  | Appending "replica_target list" "error option"
  | Settled "state_write result"

record write_race =
  wr_plan :: write_plan
  wr_bytes :: bytes
  wr_upload :: "state_write result option"
  wr_replicas :: replica_side
  wr_outcome :: "state_write result option"
  wr_failures :: "string list"

definition new_race :: "write_plan \<Rightarrow> bytes \<Rightarrow> replica_side \<Rightarrow> write_race" where
  "new_race plan bytes side = \<lparr>wr_plan = plan, wr_bytes = bytes, wr_upload = None, wr_replicas = side,
     wr_outcome = None, wr_failures = []\<rparr>"

definition start_write :: "write_plan \<Rightarrow> bytes \<Rightarrow> write_race result" where
  "start_write plan bytes =
     (case wp_replication plan of
        None \<Rightarrow> Ok (new_race plan bytes Unreplicated)
      | Some replication \<Rightarrow>
          bindR (validate_ticket replication) (\<lambda>_. Ok (new_race plan bytes (Appending replication None))))"

definition start_when_ready :: "write_plan \<Rightarrow> bytes \<Rightarrow> write_race" where
  "start_when_ready plan bytes = new_race plan bytes AwaitingPlan"

text \<open>The select: the first side that succeeds decides; when both have failed, the later error is reported.\<close>

definition settle_upload :: "state_write result \<Rightarrow> write_race \<Rightarrow> write_race" where
  "settle_upload result r =
     (let r = r\<lparr>wr_upload := Some result\<rparr> in
      if wr_outcome r \<noteq> None then r
      else case result of
        Inr _ \<Rightarrow> r\<lparr>wr_outcome := Some result\<rparr>
      | Inl _ \<Rightarrow>
          (case wr_replicas r of
             Unreplicated \<Rightarrow> r\<lparr>wr_outcome := Some result\<rparr>
           | Settled _ \<Rightarrow> r\<lparr>wr_outcome := Some result\<rparr>
           | _ \<Rightarrow> r))"

definition settle_replicas :: "state_write result \<Rightarrow> write_race \<Rightarrow> write_race" where
  "settle_replicas result r =
     (let r = r\<lparr>wr_replicas := Settled result\<rparr> in
      if wr_outcome r \<noteq> None then r
      else if is_ok result \<or> wr_upload r \<noteq> None then r\<lparr>wr_outcome := Some result\<rparr>
      else r)"

text \<open>The end of one append: the last one ends the replication, with the last failure if there was one.\<close>

definition append_done :: "replica_target \<Rightarrow> replica_target list \<Rightarrow> error option \<Rightarrow> state_write result \<Rightarrow> write_race \<Rightarrow> write_race" where
  "append_done target others failure result r =
     (let failure = (case result of Inl e \<Rightarrow> Some e | Inr _ \<Rightarrow> failure);
          r = r\<lparr>wr_failures := (if is_ok result then wr_failures r else wr_failures r @ [rt_host_id target])\<rparr>
      in if others = [] then settle_replicas (case failure of Some e \<Rightarrow> Err e | None \<Rightarrow> Ok Replicated) r
         else r\<lparr>wr_replicas := Appending others failure\<rparr>)"

text \<open>The replica set of a first write arrives; the future that waits for it is dropped with the race.\<close>

definition ready_replicas :: "write_plan \<Rightarrow> write_plan result \<Rightarrow> replica_target list result" where
  "ready_replicas ticket ready =
     bindR ready (\<lambda>plan.
     bindR (ensure (wp_stream plan = wp_stream ticket \<and> wp_object_name plan = wp_object_name ticket \<and>
         wp_state_version plan = wp_state_version ticket) ''initial replication changed the write'') (\<lambda>_.
     bindR (ok_or (wp_replication plan) ''initial replicas unavailable'') (\<lambda>replication.
     bindR (validate_ticket replication) (\<lambda>_. Ok replication))))"

definition plan_ready :: "write_plan result \<Rightarrow> write_race \<Rightarrow> write_race" where
  "plan_ready ready r =
     (if wr_replicas r = AwaitingPlan \<and> wr_outcome r = None then
        (case ready_replicas (wr_plan r) ready of
           Inl e \<Rightarrow> settle_replicas (Err e) r
         | Inr replication \<Rightarrow> r\<lparr>wr_replicas := Appending replication None\<rparr>)
      else r)"

datatype write_event = Uploaded | Appended nat

definition race_turn :: "'e runtime \<Rightarrow> 'e state_transport \<Rightarrow> write_event \<Rightarrow> write_race \<Rightarrow> ('e, write_race) eff" where
  "race_turn R T ev r =
     (case ev of
        Uploaded \<Rightarrow>
          if wr_upload r \<noteq> None then retE r
          else bindE (tryE (write_snapshot R (wr_plan r) (wr_bytes r))) (\<lambda>result. retE (settle_upload result r))
      | Appended i \<Rightarrow>
          (case wr_replicas r of
             Appending targets failure \<Rightarrow>
               if i < length targets then
                 bindE (tryE (t_write T (rt_url (targets ! i)) (wr_bytes r))) (\<lambda>result.
                 retE (append_done (targets ! i) (take i targets @ drop (Suc i) targets) failure result r))
               else retE r
           | _ \<Rightarrow> retE r))"

text \<open>What still runs.\<close>

definition race_running :: "write_race \<Rightarrow> bool" where
  "race_running r \<longleftrightarrow> wr_upload r = None \<or> (case wr_replicas r of Appending _ _ \<Rightarrow> True | _ \<Rightarrow> False)"

section \<open>The replication of an actor\<close>

datatype supervisor = Preparing | Maintaining | Ended

text \<open>A repair: replacements found, replication suspended, new replicas seeded with a snapshot, or seeded with an outdated one.\<close>

datatype repair =
    Resting
  | Replacing "replica_target list"
  | Suspended "replica_target list" "(write_plan \<times> bytes) option"
  | Seeded "replica_target list" replica_membership "(write_plan \<times> bytes) option"
  | Outdated "replica_target list" replica_membership "(write_plan \<times> bytes) option"

record 'e actor_replication =
  rp_storage :: "'e host_storage"
  rp_scope :: replica_scope
  rp_write :: "write_race option"
  rp_background :: "write_race list"
  rp_latest :: "(write_plan \<times> bytes) option"
  rp_initial_ready :: bool
  rp_supervisor :: supervisor
  rp_repair :: repair
  rp_first_seen :: "(string \<times> instant) list"
  rp_failures :: "string list"
  rp_replies :: "((write_plan \<times> bytes) \<times> state_write result) list"

definition start_replication :: "'e host_node \<Rightarrow> replica_scope \<Rightarrow> 'e host_storage \<Rightarrow> 'e actor_replication" where
  "start_replication H scope s =
     \<lparr>rp_storage = s, rp_scope = scope, rp_write = None, rp_background = [], rp_latest = None, rp_initial_ready = False,
      rp_supervisor = (if replication_enabled (hn_runtime H) then Preparing else Ended), rp_repair = Resting,
      rp_first_seen = [], rp_failures = [], rp_replies = []\<rparr>"

definition hostE :: "('e host_storage, 'a) eff \<Rightarrow> ('e actor_replication, 'a) eff" where
  "hostE m = zoomE rp_storage (\<lambda>s p. p\<lparr>rp_storage := s\<rparr>) m"

definition memoryE :: "('e runtime_storage, 'a) eff \<Rightarrow> ('e actor_replication, 'a) eff" where
  "memoryE m = hostE (storageE m)"

definition outsideE :: "('e, 'a) eff \<Rightarrow> ('e actor_replication, 'a) eff" where
  "outsideE m = memoryE (envE m)"

definition authorityE :: "'e host_node \<Rightarrow> ('e actor_replication, unit) eff" where
  "authorityE H = hostE (hs_ensure_authority H)"

section \<open>Writes\<close>

definition choose_race :: "'e host_node \<Rightarrow> write_plan \<Rightarrow> bytes \<Rightarrow> ('e actor_replication, write_race) eff" where
  "choose_race H plan bytes =
     bindE (authorityE H) (\<lambda>_.
     bindE (getE (\<lambda>p. \<not> rp_initial_ready p)) (\<lambda>initializing.
     bindE (memoryE (current_write_plan (hn_runtime H) plan)) (\<lambda>plan.
     if wp_replication plan = None \<and> replication_enabled (hn_runtime H) \<and> initializing
     then retE (start_when_ready plan bytes)
     else liftE (start_write plan bytes))))"

text \<open>A write that gets the lock; one that finds it taken waits, so the event does nothing then.\<close>

definition begin_write :: "'e host_node \<Rightarrow> write_plan \<Rightarrow> bytes \<Rightarrow> ('e actor_replication, unit) eff" where
  "begin_write H plan bytes =
     bindE (getE rp_write) (\<lambda>holder.
     if holder \<noteq> None then retE ()
     else
       bindE (tryE (choose_race H plan bytes)) (\<lambda>race.
       case race of
         Inl e \<Rightarrow> modE (\<lambda>p. p\<lparr>rp_replies := rp_replies p @ [((plan, bytes), Err e)]\<rparr>)
       | Inr r \<Rightarrow> modE (\<lambda>p. p\<lparr>rp_write := Some r\<rparr>)))"

text \<open>A race with an outcome: the caller is answered, and what still runs goes to the background.\<close>

definition finish_write :: "write_race \<Rightarrow> 'e actor_replication \<Rightarrow> 'e actor_replication" where
  "finish_write r p =
     (case wr_outcome r of
        None \<Rightarrow> p\<lparr>rp_write := Some r\<rparr>
      | Some outcome \<Rightarrow>
          p\<lparr>rp_write := None, rp_background := (if race_running r then rp_background p @ [r] else rp_background p),
            rp_latest := (if is_ok outcome then Some (wr_plan r, wr_bytes r) else rp_latest p),
            rp_replies := rp_replies p @ [((wr_plan r, wr_bytes r), outcome)]\<rparr>)"

definition collect_failures :: "write_race \<Rightarrow> 'e actor_replication \<Rightarrow> write_race \<times> 'e actor_replication" where
  "collect_failures r p = (r\<lparr>wr_failures := []\<rparr>, p\<lparr>rp_failures := rp_failures p @ wr_failures r\<rparr>)"

definition writer_turn :: "'e host_node \<Rightarrow> 'e state_transport \<Rightarrow> write_event \<Rightarrow> ('e actor_replication, unit) eff" where
  "writer_turn H T ev =
     bindE (getE rp_write) (\<lambda>holder.
     case holder of None \<Rightarrow> retE ()
     | Some r \<Rightarrow>
         bindE (outsideE (race_turn (hn_runtime H) T ev r)) (\<lambda>r.
         modE (\<lambda>p. case collect_failures r p of (r, p) \<Rightarrow> finish_write r p)))"

definition background_turn ::
    "'e host_node \<Rightarrow> 'e state_transport \<Rightarrow> nat \<Rightarrow> write_event \<Rightarrow> ('e actor_replication, unit) eff" where
  "background_turn H T i ev =
     bindE (getE rp_background) (\<lambda>races.
     if length races \<le> i then retE ()
     else
       bindE (outsideE (race_turn (hn_runtime H) T ev (races ! i))) (\<lambda>r.
       modE (\<lambda>p. case collect_failures r p of (r, p) \<Rightarrow> p\<lparr>rp_background := (rp_background p)[i := r]\<rparr>)))"

definition initial_write_plan :: "'e host_node \<Rightarrow> write_plan \<Rightarrow> ('e actor_replication, write_plan) eff" where
  "initial_write_plan H plan =
     bindE (getE rp_initial_ready) (\<lambda>ready.
     bindE (liftE (ensure ready ''initial replication stopped'')) (\<lambda>_.
     bindE (authorityE H) (\<lambda>_.
     memoryE (current_write_plan (hn_runtime H) plan))))"

text \<open>The wait of a first write ends: the first replica set is there, or the supervisor that prepares it has stopped.\<close>

definition ready_turn :: "'e host_node \<Rightarrow> ('e actor_replication, unit) eff" where
  "ready_turn H =
     bindE (getE (\<lambda>p. (rp_write p, rp_initial_ready p \<or> rp_supervisor p = Ended))) (\<lambda>(holder, woken).
     case holder of
       Some r \<Rightarrow>
         if woken \<and> wr_replicas r = AwaitingPlan then
           bindE (tryE (initial_write_plan H (wr_plan r))) (\<lambda>ready.
           modE (finish_write (plan_ready ready r)))
         else retE ()
     | None \<Rightarrow> retE ())"

section \<open>The supervisor\<close>

text \<open>\<open>InitialReplication\<close>: the preparation is repeated until it succeeds.\<close>

fun initial_membership :: "replica_membership result list \<Rightarrow> replica_membership option" where
  "initial_membership [] = None"
| "initial_membership (Inr membership # _) = Some membership"
| "initial_membership (Inl _ # answers) = initial_membership answers"

definition initialize_turn :: "'e host_node \<Rightarrow> replica_membership result list \<Rightarrow> ('e actor_replication, unit) eff" where
  "initialize_turn H answers =
     bindE (getE rp_supervisor) (\<lambda>phase.
     case (phase, initial_membership answers) of
       (Preparing, Some membership) \<Rightarrow>
         bindE (tryE (bindE (authorityE H) (\<lambda>_. memoryE (enable_replication (hn_runtime H) membership)))) (\<lambda>enabled.
         modE (\<lambda>p. if is_ok enabled then p\<lparr>rp_initial_ready := True, rp_supervisor := Maintaining\<rparr>
                   else p\<lparr>rp_supervisor := Ended\<rparr>))
     | _ \<Rightarrow> retE ())"

definition instant_now :: "'e host_node \<Rightarrow> ('e actor_replication, instant) eff" where
  "instant_now H = outsideE (instantE H)"

text \<open>Replicas that have served for 22 hours count as failed.\<close>

definition replica_lifetime :: nat where
  "replica_lifetime = nanos (22 * 3600 * 1000)"

fun outlived_replicas :: "'e host_node \<Rightarrow> replica_target list \<Rightarrow> ('e actor_replication, string list) eff" where
  "outlived_replicas H [] = retE []"
| "outlived_replicas H (member # members) =
     bindE (getE (\<lambda>p. map_of (rp_first_seen p) (rt_host_id member))) (\<lambda>seen.
     bindE (case seen of Some t \<Rightarrow> retE t
       | None \<Rightarrow>
           bindE (instant_now H) (\<lambda>t.
           bindE (modE (\<lambda>p. p\<lparr>rp_first_seen := (rt_host_id member, t) # rp_first_seen p\<rparr>)) (\<lambda>_. retE t))) (\<lambda>t.
     bindE (instant_now H) (\<lambda>now.
     bindE (outlived_replicas H members) (\<lambda>others.
     retE (if replica_lifetime \<le> now - t then rt_host_id member # others else others)))))"

text \<open>\<open>repair_if_needed\<close> up to the replacement: the hosts to replace, or none when the set is complete and healthy.\<close>

definition failed_replicas :: "'e host_node \<Rightarrow> string list \<Rightarrow> ('e actor_replication, string list option) eff" where
  "failed_replicas H reports =
     bindE (getE (\<lambda>p. (rp_scope p, local_replica_members (hn_runtime H) (rp_scope p) (hs_runtime (rp_storage p))))) (\<lambda>(scope, members).
     let known = rt_host_id ` set members in
     bindE (memoryE (unhealthy_replicas (hn_runtime H) scope)) (\<lambda>unhealthy.
     bindE (modE (\<lambda>p. p\<lparr>rp_first_seen := filter (\<lambda>(host, _). host \<in> known) (rp_first_seen p)\<rparr>)) (\<lambda>_.
     bindE (outlived_replicas H members) (\<lambda>outlived.
     let failed = sort (remdups (filter (\<lambda>host. host \<in> known) reports @ unhealthy @ outlived)) in
     retE (if failed = [] \<and> members \<noteq> [] then None else Some failed)))))"

text \<open>A round of \<open>maintain\<close>: the reports so far are drained, and a replacement is sought.\<close>

definition seek_replicas :: "'e host_node \<Rightarrow> string list \<Rightarrow> ('e actor_replication, unit) eff" where
  "seek_replicas H reports =
     bindE (failed_replicas H reports) (\<lambda>needed.
     case needed of None \<Rightarrow> retE ()
     | Some hosts \<Rightarrow>
         bindE (getE rp_scope) (\<lambda>scope.
         bindE (memoryE (replacement_replicas (hn_runtime H) scope hosts)) (\<lambda>targets.
         modE (\<lambda>p. p\<lparr>rp_repair := Replacing targets\<rparr>))))"

definition maintain_turn :: "'e host_node \<Rightarrow> ('e actor_replication, unit) eff" where
  "maintain_turn H =
     bindE (getE (\<lambda>p. (rp_supervisor p, rp_repair p, rp_failures p))) (\<lambda>(phase, repair, reports).
     if phase \<noteq> Maintaining \<or> repair \<noteq> Resting then retE ()
     else
       bindE (modE (\<lambda>p. p\<lparr>rp_failures := []\<rparr>)) (\<lambda>_.
       bindE (tryE (authorityE H)) (\<lambda>authority.
       if is_ok authority then bindE (tryE (seek_replicas H reports)) (\<lambda>_. retE ())
       else modE (\<lambda>p. p\<lparr>rp_supervisor := Ended\<rparr>))))"

text \<open>
  The steps of \<open>repair\<close>: under \<open>writing\<close> the replication is suspended and the last acknowledged write taken; the
  replacements are seeded and recorded; under \<open>latest\<close> the new set is enabled when that write is still the last one, and
  else seeded with the one that is. A failure ends the repair.
\<close>

definition lock_and_suspend :: "'e host_node \<Rightarrow> replica_target list \<Rightarrow> ('e actor_replication, unit) eff" where
  "lock_and_suspend H targets =
     bindE (authorityE H) (\<lambda>_.
     bindE (getE rp_scope) (\<lambda>scope.
     bindE (memoryE (suspend_replication (hn_runtime H) scope)) (\<lambda>_.
     modE (\<lambda>p. p\<lparr>rp_repair := Suspended targets (rp_latest p)\<rparr>))))"

definition replace_and_seed ::
    "'e host_node \<Rightarrow> 'e state_transport \<Rightarrow> replica_target list \<Rightarrow> (write_plan \<times> bytes) option \<Rightarrow> ('e actor_replication, unit) eff" where
  "replace_and_seed H T targets seeded =
     bindE (getE rp_scope) (\<lambda>scope.
     bindE (outsideE (replace_replicas (hn_runtime H) T scope targets seeded)) (\<lambda>membership.
     modE (\<lambda>p. p\<lparr>rp_repair := Seeded targets membership seeded\<rparr>)))"

definition compare_latest ::
    "'e host_node \<Rightarrow> replica_target list \<Rightarrow> replica_membership \<Rightarrow> (write_plan \<times> bytes) option \<Rightarrow> ('e actor_replication, unit) eff" where
  "compare_latest H targets membership seeded =
     bindE (authorityE H) (\<lambda>_.
     bindE (getE rp_latest) (\<lambda>latest.
     if map_option (wp_state_version \<circ> fst) latest = map_option (wp_state_version \<circ> fst) seeded then
       bindE (memoryE (enable_replication (hn_runtime H) membership)) (\<lambda>_.
       modE (\<lambda>p. p\<lparr>rp_repair := Resting\<rparr>))
     else modE (\<lambda>p. p\<lparr>rp_repair := Outdated targets membership latest\<rparr>)))"

definition seed_again ::
    "'e host_node \<Rightarrow> 'e state_transport \<Rightarrow> replica_target list \<Rightarrow> replica_membership \<Rightarrow> (write_plan \<times> bytes) option \<Rightarrow>
     ('e actor_replication, unit) eff" where
  "seed_again H T targets membership seeded =
     bindE (getE rp_scope) (\<lambda>scope.
     bindE (outsideE (seed_replicas (hn_runtime H) T (scope_identity (rn_crypto (hn_runtime H)) scope) targets targets seeded)) (\<lambda>_.
     modE (\<lambda>p. p\<lparr>rp_repair := Seeded targets membership seeded\<rparr>)))"

definition repair_step :: "'e host_node \<Rightarrow> 'e state_transport \<Rightarrow> ('e actor_replication, unit) eff" where
  "repair_step H T =
     bindE (getE (\<lambda>p. (rp_repair p, rp_write p))) (\<lambda>(repair, holder).
     case repair of
       Resting \<Rightarrow> retE ()
     | Replacing targets \<Rightarrow> if holder = None then lock_and_suspend H targets else retE ()
     | Suspended targets seeded \<Rightarrow> replace_and_seed H T targets seeded
     | Seeded targets membership seeded \<Rightarrow> compare_latest H targets membership seeded
     | Outdated targets membership seeded \<Rightarrow> seed_again H T targets membership seeded)"

definition repair_turn :: "'e host_node \<Rightarrow> 'e state_transport \<Rightarrow> ('e actor_replication, unit) eff" where
  "repair_turn H T =
     bindE (tryE (repair_step H T)) (\<lambda>result.
     modE (\<lambda>p. if is_ok result then p else p\<lparr>rp_repair := Resting\<rparr>))"

section \<open>Steps\<close>

datatype 'e replication_event =
    Write write_plan bytes
  | Turn write_event
  | Ready
  | Background nat write_event
  | Prepared "replica_membership result list"
  | Maintain
  | Repair
  | Stop
  | Elsewhere "'e \<Rightarrow> 'e"

fun replication_step :: "'e host_node \<Rightarrow> 'e state_transport \<Rightarrow> 'e replication_event \<Rightarrow> 'e actor_replication \<Rightarrow> 'e actor_replication" where
  "replication_step H T (Write plan bytes) p = snd (begin_write H plan bytes p)"
| "replication_step H T (Turn ev) p = snd (writer_turn H T ev p)"
| "replication_step H T Ready p = snd (ready_turn H p)"
| "replication_step H T (Background i ev) p = snd (background_turn H T i ev p)"
| "replication_step H T (Prepared answers) p = snd (initialize_turn H answers p)"
| "replication_step H T Maintain p = snd (maintain_turn H p)"
| "replication_step H T Repair p = snd (repair_turn H T p)"
| "replication_step H T Stop p = p\<lparr>rp_supervisor := Ended, rp_repair := Resting\<rparr>"
| "replication_step H T (Elsewhere f) p = snd (outsideE (\<lambda>e. (Ok (), f e)) p)"

definition replication_run ::
    "'e host_node \<Rightarrow> 'e state_transport \<Rightarrow> 'e replication_event list \<Rightarrow> 'e actor_replication \<Rightarrow> 'e actor_replication" where
  "replication_run H T evs p = fold (replication_step H T) evs p"

end
