(* ===== verification/Host_Lease.thy ===== *)
theory Host_Lease
  imports Host_Storage
begin

text \<open>
  What the fence, the storage of a host and its lease maintainer guarantee: a host acts only while the
  lease in the bucket outlives its own clock, and a fenced host never acts again.
\<close>

section \<open>The fence\<close>

datatype fence_call = FenceBegin instant | FenceConfirm instant u64 instant | FenceCheck instant

fun fence_step :: "fence_call \<Rightarrow> (lease_fence, unit) eff" where
  "fence_step (FenceBegin now) = fence_begin now"
| "fence_step (FenceConfirm begun duration now) = fence_confirm begun duration now"
| "fence_step (FenceCheck now) = fence_check now"

definition fence_run :: "fence_call list \<Rightarrow> lease_fence \<Rightarrow> lease_fence" where
  "fence_run calls f = fold (\<lambda>c f. snd (fence_step c f)) calls f"

lemmas fence_defs = fence_check_def fence_begin_def fence_confirm_def fence_past_def

lemma fence_check_Ok:
  "fence_check now f = (Inr u, f') \<longleftrightarrow> (\<exists>d. lf_deadline f = Some d \<and> now < d \<and> \<not> lf_fenced f \<and> f' = f)"
  by (cases "lf_deadline f") (auto simp: fence_check_def fence_past_def eff_simps result_simps)

lemma fence_begin_Ok:
  "fence_begin now f = (Inr u, f') \<longleftrightarrow> \<not> lf_fenced f \<and> (\<forall>d. lf_deadline f = Some d \<longrightarrow> now < d) \<and> f' = f"
  by (cases "lf_deadline f") (auto simp: fence_begin_def eff_simps result_simps fence_check_Ok)

lemma fence_confirm_Ok:
  "fence_confirm begun duration now f = (Inr u, f') \<longleftrightarrow>
     \<not> lf_fenced f \<and> (\<forall>d. lf_deadline f = Some d \<longrightarrow> now < d) \<and>
     now < begun + (nanos (unat duration) - nanos 5000) \<and>
     f' = f\<lparr>lf_deadline := Some (begun + (nanos (unat duration) - nanos 5000))\<rparr>"
  by (auto simp: fence_confirm_def fence_past_def eff_simps result_simps fence_begin_Ok Let_def)

lemma fence_check_deadline: "lf_deadline (snd (fence_check now f)) = lf_deadline f"
  by (cases "lf_deadline f") (auto simp: fence_check_def fence_past_def ensure_def bindE_def ok_or_def)

lemma fence_begin_deadline: "lf_deadline (snd (fence_begin now f)) = lf_deadline f"
  using fence_check_deadline [of now f]
  by (auto simp: fence_begin_def ensure_def bindE_def split: prod.splits sum.splits)

lemma fence_confirm_Err:
  "fence_confirm begun duration now f = (Inl e, f') \<Longrightarrow> lf_deadline f' = lf_deadline f"
  using fence_begin_deadline [of now f]
  by (auto simp: fence_confirm_def fence_past_def eff_simps result_simps fence_begin_Ok Let_def)

lemma fence_step_fenced: "lf_fenced f \<Longrightarrow> lf_fenced (snd (fence_step c f)) \<and> (\<forall>u. fst (fence_step c f) \<noteq> Inr u)"
  by (cases c; cases "lf_deadline f")
    (auto simp: fence_defs ensure_def bindE_def ok_or_def Let_def split: prod.splits sum.splits if_splits)

lemma fence_run_fenced: "lf_fenced f \<Longrightarrow> lf_fenced (fence_run calls f)"
  unfolding fence_run_def by (induction calls arbitrary: f) (simp_all add: fence_step_fenced)

text \<open>
  C31: A fence never opens again: once a session is fenced, every later check, renewal and confirmation fails,
  whatever calls come in between and whatever the clock reads.
\<close>

theorem fenced_forever:
  assumes "lf_fenced f"
  shows "\<exists>e f'. fence_step c (fence_run calls f) = (Inl e, f') \<and> lf_fenced f'"
proof -
  obtain r f' where r: "fence_step c (fence_run calls f) = (r, f')" by fastforce
  with fence_step_fenced [OF fence_run_fenced [OF assms], of c calls] show ?thesis by (cases r) auto
qed

theorem fenced_forever_witness:
  "\<exists>e f'. fence_step (FenceCheck 1) (fence_run [FenceBegin 2] (snd (fence_check 9 \<lparr>lf_deadline = Some 9, lf_fenced = False\<rparr>))) = (Inl e, f')
     \<and> lf_fenced f'"
  by (rule fenced_forever) code_simp

section \<open>Time\<close>

text \<open>A lease outlasts an instant: its expiry was stamped no earlier than that instant.\<close>

definition lasting :: "anchor \<Rightarrow> instant \<Rightarrow> u64 \<Rightarrow> host_lease \<Rightarrow> bool" where
  "lasting a t0 duration lease \<longleftrightarrow>
     (\<exists>t c. t0 \<le> t \<and> system_now_ms a t = Inr c \<and> unat (hl_expires_at_ms lease) = unat c + unat duration)"

text \<open>Whatever the clock reads before a deadline, the lease expires at least a margin later.\<close>

definition covers :: "anchor \<Rightarrow> nat \<Rightarrow> instant \<Rightarrow> host_lease \<Rightarrow> bool" where
  "covers a margin deadline lease \<longleftrightarrow>
     (\<forall>t c. t < deadline \<longrightarrow> system_now_ms a t = Inr c \<longrightarrow> unat c + margin \<le> unat (hl_expires_at_ms lease))"

lemma system_now_ms_Ok:
  "system_now_ms a t = Inr c \<longleftrightarrow>
     0 \<le> fst a + int (t - snd a) \<and> nat (fst a + int (t - snd a)) div 1000000 < 2 ^ 64 \<and>
     c = of_nat (nat (fst a + int (t - snd a)) div 1000000)"
  by (auto simp: system_now_ms_def Let_def)

lemma system_now_ms_unat:
  "system_now_ms a t = Inr c \<Longrightarrow> 0 \<le> fst a + int (t - snd a) \<and> unat c = nat (fst a + int (t - snd a)) div 1000000"
  by (auto simp: system_now_ms_Ok unat_of_nat)

lemma clock_window:
  assumes "system_now_ms a t = Inr c" "system_now_ms a t' = Inr c'" "t < t' + k * 1000000"
  shows "unat c \<le> unat c' + k"
proof -
  define x y where "x = nat (fst a + int (t - snd a))" and "y = nat (fst a + int (t' - snd a))"
  have c: "unat c = x div 1000000" "unat c' = y div 1000000"
    and pos: "0 \<le> fst a + int (t - snd a)" "0 \<le> fst a + int (t' - snd a)"
    using assms(1,2) by (auto simp: x_def y_def dest: system_now_ms_unat)
  have "x \<le> y + k * 1000000" unfolding x_def y_def using assms(3) pos by linarith
  then have "x div 1000000 \<le> (y + k * 1000000) div 1000000" by (rule div_le_mono)
  then show ?thesis by (simp add: c)
qed

lemma clock_mono:
  assumes "system_now_ms a t = Inr c" "system_now_ms a t' = Inr c'" "t \<le> t'"
  shows "unat c \<le> unat c'"
proof -
  have "nat (fst a + int (t - snd a)) \<le> nat (fst a + int (t' - snd a))" using assms(3) by (intro nat_mono) simp
  then show ?thesis using assms(1,2) by (auto dest!: system_now_ms_unat intro: div_le_mono)
qed

lemma lasting_covers:
  assumes "lasting a t0 duration lease" "nanos 5000 < nanos (unat duration)"
  shows "covers a 5000 (t0 + (nanos (unat duration) - nanos 5000)) lease"
  unfolding covers_def
proof (intro allI impI)
  fix t c assume t: "t < t0 + (nanos (unat duration) - nanos 5000)" and c: "system_now_ms a t = Inr c"
  obtain t' c' where t': "t0 \<le> t'" "system_now_ms a t' = Inr c'"
    and e: "unat (hl_expires_at_ms lease) = unat c' + unat duration" using assms(1) by (auto simp: lasting_def)
  have d: "5000 < unat duration" using assms(2) by (simp add: nanos_def)
  have "t < t' + (unat duration - 5000) * 1000000" using t t'(1) by (simp add: nanos_def diff_mult_distrib)
  from clock_window [OF c t'(2) this] d e show "unat c + 5000 \<le> unat (hl_expires_at_ms lease)" by simp
qed

section \<open>The calls of the storage\<close>

text \<open>
  The environment of a host: time never goes back, \<open>Instant::now\<close> reads it, and the clock of the runtime
  storage is the system clock of the process.
\<close>

locale host_time =
  fixes H :: "'e host_node" and now :: "'e \<Rightarrow> instant"
  assumes frame: "runtime_frame (hn_runtime H) (\<lambda>e. t \<le> now e)"
    and instant: "hn_instant H e = (t, e') \<Longrightarrow> now e \<le> t \<and> t \<le> now e'"
    and clock: "rn_clock (hn_runtime H) e = (r, e') \<Longrightarrow>
      \<exists>t. now e \<le> t \<and> t \<le> now e' \<and> r = system_now_ms (hn_anchor H) t"
begin

definition later :: "instant \<Rightarrow> ('e, 'a) eff \<Rightarrow> ('a \<Rightarrow> bool) \<Rightarrow> bool" where
  "later t m Q \<longleftrightarrow> triple (\<lambda>e. t \<le> now e) m (\<lambda>x e. t \<le> now e \<and> Q x) (\<lambda>e. t \<le> now e)"

lemma later_bind: "later t m P \<Longrightarrow> (\<And>x. P x \<Longrightarrow> later t (f x) Q) \<Longrightarrow> later t (bindE m f) Q"
  unfolding later_def by (erule triple_bind) (rule triple_assume)

lemma later_lift: "(\<And>x. r = Inr x \<Longrightarrow> later t (f x) Q) \<Longrightarrow> later t (bindE (liftE r) f) Q"
  unfolding later_def by (rule triple_bind_lift)

lemma later_ret: "Q x \<Longrightarrow> later t (retE x) Q"
  unfolding later_def by (rule triple_ret) simp

lemma later_keeps: "keeps (\<lambda>e. t \<le> now e) m \<Longrightarrow> later t m (\<lambda>_. True)"
  unfolding later_def keeps_def by simp

lemmas later_frame [THEN later_keeps] =
  runtime_frame.frame_load [OF frame] runtime_frame.frame_recover_previous [OF frame] runtime_frame.clock [OF frame]
  runtime_frame.frame_replace_activation [OF frame]

lemma later_new_lease: "later t (new_lease (hn_runtime H) request) (lasting (hn_anchor H) t (hr_duration_ms request))"
proof -
  have "later t (rn_clock (hn_runtime H)) (\<lambda>c. \<exists>t'. t \<le> t' \<and> system_now_ms (hn_anchor H) t' = Inr c)"
    unfolding later_def by (rule tripleI) (auto dest!: clock intro: order_trans)
  note read = later_bind [OF this]
  show ?thesis unfolding new_lease_def
    by (intro later_lift read) (auto intro!: later_lift later_ret
      simp: lasting_def result_simps checked_add_def unat_word_ariths split: if_splits, blast)
qed

lemma later_save_activation:
  "lasting a t d (ow_lease record) \<Longrightarrow> later t (save_activation (hn_runtime H) record g) (\<lambda>r. lasting a t d (ow_lease r))"
proof -
  assume l: "lasting a t d (ow_lease record)"
  have "later t (replace_activation (hn_runtime H) record g) (\<lambda>p. lasting a t d (ow_lease (fst p)))"
    unfolding later_def
  proof (rule tripleI)
    fix w x w' assume w: "t \<le> now w" and run: "replace_activation (hn_runtime H) record g w = (Inr x, w')"
    then have "t \<le> now w'" using keepsD [OF runtime_frame.frame_replace_activation [OF frame]] by blast
    with run l show "t \<le> now w' \<and> lasting a t d (ow_lease (fst x))"
      by (auto simp: replace_activation_def eff_simps Let_def)
  next
    fix w e w' assume "t \<le> now w" "replace_activation (hn_runtime H) record g w = (Inl e, w')"
    then show "t \<le> now w'" using keepsD [OF runtime_frame.frame_replace_activation [OF frame]] by blast
  qed
  then show ?thesis unfolding save_activation_def
    by (rule later_bind) (auto split: prod.split intro!: later_lift later_ret)
qed

lemma later_claim:
  "later t (claim_activation (hn_runtime H) actor request region current)
     (\<lambda>p. lasting (hn_anchor H) t (hr_duration_ms request) (ow_lease (fst p)))"
  unfolding claim_activation_def
  by (intro later_bind [OF later_frame(2)] later_lift later_bind [OF later_new_lease] later_bind [OF later_save_activation]
    later_ret) auto

lemma later_renew:
  "later t (renew_activation (hn_runtime H) actor request inventory) (lasting (hn_anchor H) t (hr_duration_ms request))"
  unfolding renew_activation_def
  by (rule later_bind [OF later_frame(1)], rule later_lift)
    (auto intro!: later_lift later_bind [OF later_frame(3)] later_bind [OF later_new_lease]
      later_bind [OF later_save_activation] later_ret)


definition later_in :: "instant \<Rightarrow> ('e runtime_storage, 'a) eff \<Rightarrow> ('a \<Rightarrow> bool) \<Rightarrow> bool" where
  "later_in t m Q \<longleftrightarrow> triple (\<lambda>s. t \<le> now (sto_env s)) m (\<lambda>x s. t \<le> now (sto_env s) \<and> Q x) (\<lambda>s. t \<le> now (sto_env s))"

lemma later_env: "later t m Q \<Longrightarrow> later_in t (envE m) Q"
  unfolding later_def later_in_def triple_def envE_def zoomE_def by (simp split: prod.splits)

lemma later_register:
  "later_in t (register_activation (hn_runtime H) actor request region new_actor)
     (\<lambda>a. lasting (hn_anchor H) t (hr_duration_ms request) (op_lease (la_placement a)))"
proof -
  let ?Q = "\<lambda>p. lasting (hn_anchor H) t (hr_duration_ms request) (ow_lease (fst p))"
  have remember: "triple (\<lambda>s. t \<le> now (sto_env s) \<and> ?Q (owner, recovered)) (remember owner recovered)
      (\<lambda>a s. t \<le> now (sto_env s) \<and> lasting (hn_anchor H) t (hr_duration_ms request) (op_lease (la_placement a)))
      (\<lambda>s. t \<le> now (sto_env s))" for owner recovered
    by (rule tripleI) (auto simp: remember_def eff_simps ownership_placement_def apply_snapshot_def split: option.splits)
  have load: "triple (\<lambda>s. t \<le> now (sto_env s)) (if new_actor then retE None else envE (load (hn_runtime H) key))
      (\<lambda>_ s. t \<le> now (sto_env s)) (\<lambda>s. t \<le> now (sto_env s))" for key
    using keeps_env [OF runtime_frame.frame_load [OF frame]]
    by (cases new_actor) (auto simp: keeps_def on_env_def [abs_def] intro: triple_ret)
  show ?thesis unfolding later_in_def register_activation_def
    by (intro triple_bind_lift triple_bind [OF load] triple_bind [OF later_env [OF later_claim, unfolded later_in_def]])
      (auto split: prod.split intro: triple_weaken [OF remember])
qed

end

section \<open>The invariant of the storage\<close>

definition covered :: "anchor \<Rightarrow> 'e host_storage \<Rightarrow> bool" where
  "covered a s \<longleftrightarrow> (\<forall>d. lf_deadline (hs_fence s) = Some d \<longrightarrow> (\<exists>lease. hs_lease s = Some lease \<and> covers a 5000 d lease))"

lemma covered_storage [keeps_rules]: "keeps (covered a) (storageE m)"
  by (rule keepsI) (auto simp: storageE_def eff_simps covered_def)

lemma covered_fence:
  "(\<And>f. lf_deadline (snd (m f)) = lf_deadline f) \<Longrightarrow> keeps (covered a) (fenceE m)"
  by (rule keepsI) (auto simp: fenceE_def eff_simps covered_def, metis snd_conv)

lemma covered_fences [keeps_rules]:
  "keeps (covered a) (fenceE (fence_check t))" "keeps (covered a) (fenceE (fence_begin t))"
  by (rule covered_fence, rule fence_check_deadline, rule covered_fence, rule fence_begin_deadline)

lemma fence_runtime: "fenceE m s = (r, s') \<Longrightarrow> hs_runtime s' = hs_runtime s"
  by (auto simp: fenceE_def eff_simps)

lemma covered_take [keeps_rules]: "keeps (covered a) take_activation"
  by (rule keepsI) (auto simp: take_activation_def covered_def)

lemma covered_notify [keeps_rules]: "keeps (covered a) notify_observer"
  unfolding notify_observer_def by (rule keepsI) (auto simp: covered_def)

lemma covered_authority [keeps_rules]: "keeps (covered a) (hs_ensure_authority H)"
  unfolding hs_ensure_authority_def by (intro keeps_rules)

lemma covered_held [keeps_rules]: "keeps (covered a) hs_held_lease"
  unfolding hs_held_lease_def by (intro keeps_rules)

lemma covered_authorize [keeps_rules]: "keeps (covered a) (hs_authorize H actor host)"
  unfolding hs_authorize_def by (intro keeps_rules)

lemma covered_calls [keeps_rules]:
  "keeps (covered a) (hs_current_lease H)"
  "keeps (covered a) (hs_acquire_actor H actor host)"
  "keeps (covered a) (hs_load_actor_state H actor host epoch)"
  "keeps (covered a) (hs_prepare_state_write H actor host epoch version)"
  unfolding hs_current_lease_def hs_acquire_actor_def hs_load_actor_state_def hs_prepare_state_write_def
  by (intro keeps_rules)+

lemma covered_unregister [keeps_rules]: "keeps (covered a) (hs_unregister H host session)"
  unfolding hs_unregister_def by (intro keeps_rules covered_fence) simp

context host_time
begin

abbreviation host_now :: "'e host_storage \<Rightarrow> instant" where
  "host_now s \<equiv> now (sto_env (hs_runtime s))"

abbreviation instant_of :: "('e host_storage, instant) eff" where
  "instant_of \<equiv> storageE (envE (instantE H))"

lemma instant_run: "instant_of s = (r, s') \<Longrightarrow> \<exists>t. r = Inr t \<and> host_now s \<le> t \<and> t \<le> host_now s' \<and> (\<forall>a. covered a s' = covered a s)"
  by (auto simp: storageE_def envE_def instantE_def eff_simps covered_def split: prod.splits dest!: instant)

lemma instant_begin: "triple (covered a) instant_of (\<lambda>t s. covered a s \<and> t \<le> host_now s) (covered a)"
  by (rule tripleI) (auto dest!: instant_run)

lemma instant_end: "triple (\<lambda>s. covered a s \<and> t \<le> host_now s \<and> L) instant_of (\<lambda>n s. covered a s \<and> t \<le> n \<and> L) (covered a)"
  by (rule tripleI) (auto dest!: instant_run)

lemma later_storage:
  "later_in t m Q \<Longrightarrow> triple (\<lambda>s. covered a s \<and> t \<le> host_now s) (storageE m) (\<lambda>x s. covered a s \<and> t \<le> host_now s \<and> Q x) (covered a)"
  unfolding later_in_def
  by (rule tripleI) (auto simp: storageE_def eff_simps covered_def dest: tripleD_Ok)

lemma register_lease:
  "triple (\<lambda>s. covered a s \<and> t \<le> host_now s)
     (if held = None then register_first H actor request
      else storageE (envE (renew_activation (hn_runtime H) actor request inventory)))
     (\<lambda>lease s. covered a s \<and> t \<le> host_now s \<and> lasting (hn_anchor H) t (hr_duration_ms request) lease) (covered a)"
proof (cases "held = None")
  case True
  have reg: "triple (\<lambda>s. covered a s \<and> t \<le> host_now s)
      (storageE (register_activation (hn_runtime H) actor request region new_actor))
      (\<lambda>x s. covered a s \<and> t \<le> host_now s \<and> lasting (hn_anchor H) t (hr_duration_ms request) (op_lease (la_placement x))) (covered a)"
    for region new_actor by (rule later_storage [OF later_register])
  have keep: "triple (\<lambda>s. covered a s \<and> t \<le> host_now s \<and> L) (modE (\<lambda>s. s\<lparr>hs_activation := act\<rparr>))
      (\<lambda>_ s. covered a s \<and> t \<le> host_now s \<and> L) (covered a)" for L act
    by (rule triple_mod) (auto simp: covered_def)
  show ?thesis unfolding if_P [OF True] register_first_def
    by (rule triple_bind [OF triple_get [where Q = "\<lambda>_ s. covered a s \<and> t \<le> host_now s"]], assumption)
      (auto split: prod.split intro!: triple_bind [OF reg] triple_bind [OF keep] triple_ret)
next
  case False
  show ?thesis unfolding if_not_P [OF False] by (rule later_storage [OF later_env [OF later_renew]])
qed

lemma confirm_covers:
  "triple (\<lambda>s. covered a s \<and> begun \<le> n \<and> lasting a begun duration lease) (fenceE (fence_confirm begun duration n))
     (\<lambda>_ s. \<forall>d. lf_deadline (hs_fence s) = Some d \<longrightarrow> covers a 5000 d lease) (covered a)"
proof (rule tripleI)
  fix s u s' assume s: "covered a s \<and> begun \<le> n \<and> lasting a begun duration lease"
    and run: "fenceE (fence_confirm begun duration n) s = (Inr u, s')"
  then have *: "n < begun + (nanos (unat duration) - nanos 5000)"
    "lf_deadline (hs_fence s') = Some (begun + (nanos (unat duration) - nanos 5000))"
    by (auto simp: fenceE_def eff_simps fence_confirm_Ok)
  with s have "nanos 5000 < nanos (unat duration)" by linarith
  with s have "covers a 5000 (begun + (nanos (unat duration) - nanos 5000)) lease" using lasting_covers by blast
  with *(2) show "\<forall>d. lf_deadline (hs_fence s') = Some d \<longrightarrow> covers a 5000 d lease" by auto
next
  fix s e s' assume "covered a s \<and> begun \<le> n \<and> lasting a begun duration lease"
    and "fenceE (fence_confirm begun duration n) s = (Inl e, s')"
  then show "covered a s'" by (auto simp: fenceE_def eff_simps covered_def dest: fence_confirm_Err)
qed

lemma covered_register [keeps_rules]: "keeps (covered (hn_anchor H)) (hs_register H request report)"
proof -
  let ?I = "covered (hn_anchor H) :: 'e host_storage \<Rightarrow> bool"
  have store: "triple (\<lambda>s. \<forall>d. lf_deadline (hs_fence s) = Some d \<longrightarrow> covers (hn_anchor H) 5000 d lease)
      (bindE (modE (\<lambda>s. s\<lparr>hs_lease := Some lease\<rparr>)) (\<lambda>_. bindE notify_observer (\<lambda>_. retE lease))) (\<lambda>_. ?I) ?I" for lease
    by (rule tripleI) (auto simp: eff_simps notify_observer_def covered_def)
  have start: "triple (\<lambda>s. ?I s \<and> t \<le> host_now s) (fenceE (fence_begin t)) (\<lambda>_ s. ?I s \<and> t \<le> host_now s) ?I" for t
    by (rule tripleI) (auto dest: keepsD [OF covered_fences(2)] simp: fence_runtime)
  have get: "triple (\<lambda>s. ?I s \<and> t \<le> host_now s) (getE f) (\<lambda>_ s. ?I s \<and> t \<le> host_now s) ?I" for t and f :: "'e host_storage \<Rightarrow> 'x"
    by (rule triple_get)
  show ?thesis unfolding keeps_def hs_register_def
    by (rule triple_bind [OF triple_get [where Q = "\<lambda>_. ?I"]], assumption, rule triple_bind_lift,
        rule triple_bind [OF instant_begin], rule triple_bind [OF start], rule triple_bind [OF get], rule triple_bind_lift,
        rule triple_bind_lift, rule triple_bind [OF get], rule triple_bind [OF register_lease],
        rule triple_bind [OF instant_end], rule triple_seq [OF confirm_covers], rule store)
      auto
qed

end

end
