(* ===== verification/Ownership.thy ===== *)
theory Ownership
  imports Runtime_Sessions
begin

text \<open>
  Who may change an ownership record, and how. \<open>legal\<close> is one change of one object: an ownership record
  is created with epoch one, taken over by another session under the next epoch, or rewritten by the
  session that holds it; every other object is free. The locale \<open>runtime_env\<close> assumes a bucket that
  others change only in legal ways and services that do the same, and shows that every operation of
  the runtime storage changes the bucket only in legal ways, whatever happens between its calls and
  on every error. So epochs only grow, and an epoch belongs to one activation.
\<close>

section \<open>Legal changes\<close>

definition snapshot_name :: "string \<Rightarrow> bool" where
  "snapshot_name object \<longleftrightarrow> starts_with object (ROOT @ ''snapshots/'')"

definition owner_name :: "string \<Rightarrow> bool" where
  "owner_name key \<longleftrightarrow> starts_with key (ROOT @ ''owners/'')"

definition base_ok :: "ownership \<Rightarrow> bool" where
  "base_ok r \<longleftrightarrow> (\<forall>b. ow_base r = Some b \<longrightarrow> snapshot_name (sr_object b))"

definition same_activation :: "ownership \<Rightarrow> ownership \<Rightarrow> bool" where
  "same_activation old new \<longleftrightarrow>
     ow_actor new = ow_actor old \<and> ow_region new = ow_region old \<and> ow_epoch new = ow_epoch old \<and>
     ow_base new = ow_base old \<and> hl_id (ow_lease new) = hl_id (ow_lease old) \<and>
     hl_session_id (ow_lease new) = hl_session_id (ow_lease old)"

definition takes_over :: "ownership \<Rightarrow> ownership \<Rightarrow> bool" where
  "takes_over old new \<longleftrightarrow>
     ow_actor new = ow_actor old \<and> ow_region new = ow_region old \<and>
     checked_add (ow_epoch old) 1 = Some (ow_epoch new) \<and>
     (hl_id (ow_lease new) \<noteq> hl_id (ow_lease old) \<or> hl_session_id (ow_lease new) \<noteq> hl_session_id (ow_lease old))"

definition owner_change :: "runtime_codec \<Rightarrow> crypto \<Rightarrow> string \<Rightarrow> objects \<Rightarrow> ownership \<Rightarrow> bool" where
  "owner_change K C k m new \<longleftrightarrow>
     owner_path C (storage_key (ow_actor new)) = Ok k \<and> base_ok new \<and>
     (case m k of
        None \<Rightarrow> ow_epoch new = 1
      | Some ob \<Rightarrow> (\<exists>old. ownership_from_slice K (obj_bytes ob) = Some old \<and>
          (same_activation old new \<or> takes_over old new)))"

definition legal :: "runtime_codec \<Rightarrow> crypto \<Rightarrow> objects \<Rightarrow> objects \<Rightarrow> bool" where
  "legal K C m m' \<longleftrightarrow>
     (\<exists>k g b. swaps k g b m m' \<and>
        (owner_name k \<longrightarrow> (\<exists>new. ownership_from_slice K b = Some new \<and> owner_change K C k m new)))"

abbreviation moves :: "runtime_codec \<Rightarrow> crypto \<Rightarrow> objects \<Rightarrow> objects \<Rightarrow> bool" where
  "moves K C \<equiv> (legal K C)\<^sup>*\<^sup>*"

definition owners_ok :: "runtime_codec \<Rightarrow> crypto \<Rightarrow> objects \<Rightarrow> bool" where
  "owners_ok K C m \<longleftrightarrow>
     (\<forall>k ob. owner_name k \<longrightarrow> m k = Some ob \<longrightarrow>
        (\<exists>r. ownership_from_slice K (obj_bytes ob) = Some r \<and>
             owner_path C (storage_key (ow_actor r)) = Ok k \<and> base_ok r))"

definition owner_at :: "runtime_codec \<Rightarrow> objects \<Rightarrow> string \<Rightarrow> ownership \<Rightarrow> bool" where
  "owner_at K m k r \<longleftrightarrow> (\<exists>ob. m k = Some ob \<and> ownership_from_slice K (obj_bytes ob) = Some r)"

lemma legal_owner:
  "swaps k g b m m' \<Longrightarrow> ownership_from_slice K b = Some new \<Longrightarrow> owner_change K C k m new \<Longrightarrow> legal K C m m'"
  unfolding legal_def by blast

lemma legal_evolves: "legal K C m m' \<Longrightarrow> evolves m m'"
  unfolding legal_def using swaps_evolves by blast

lemma moves_evolves: "moves K C m m' \<Longrightarrow> evolves m m'"
  by (induction rule: rtranclp_induct) (auto intro: evolves_trans legal_evolves)

lemma legal_owners_ok:
  assumes "legal K C m m'" "owners_ok K C m" shows "owners_ok K C m'"
proof -
  obtain k g b g' where m': "m' = m(k \<mapsto> \<lparr>obj_generation = g', obj_bytes = b\<rparr>)"
    and new: "owner_name k \<longrightarrow> (\<exists>new. ownership_from_slice K b = Some new \<and> owner_change K C k m new)"
    using assms(1) unfolding legal_def swaps_def by blast
  then show ?thesis using assms(2) unfolding owners_ok_def by (auto simp: owner_change_def)
qed

lemma moves_owners_ok: "moves K C m m' \<Longrightarrow> owners_ok K C m \<Longrightarrow> owners_ok K C m'"
  by (induction rule: rtranclp_induct) (auto intro: legal_owners_ok)

text \<open>Later in a history of legal changes an epoch has grown or is still held by the same activation.\<close>

definition later :: "ownership \<Rightarrow> ownership \<Rightarrow> bool" where
  "later r r' \<longleftrightarrow>
     ow_actor r' = ow_actor r \<and> ow_region r' = ow_region r \<and> (ow_epoch r < ow_epoch r' \<or> same_activation r r')"

lemma later_refl [simp]: "later r r"
  by (simp add: later_def same_activation_def)

lemma later_trans: "later r s \<Longrightarrow> later s t \<Longrightarrow> later r t"
  by (auto simp: later_def same_activation_def)

lemma legal_later:
  assumes "legal K C m m'" "owner_name k" "owner_at K m k r"
  shows "\<exists>r'. owner_at K m' k r' \<and> later r r'"
proof -
  obtain k1 g b g' where m': "m' = m(k1 \<mapsto> \<lparr>obj_generation = g', obj_bytes = b\<rparr>)"
    and new: "owner_name k1 \<longrightarrow> (\<exists>new. ownership_from_slice K b = Some new \<and> owner_change K C k1 m new)"
    using assms(1) unfolding legal_def swaps_def by blast
  show ?thesis
  proof (cases "k1 = k")
    case True
    with new assms(2,3) obtain r' where "ownership_from_slice K b = Some r'" "same_activation r r' \<or> takes_over r r'"
      by (auto simp: owner_change_def owner_at_def)
    moreover from this have "later r r'"
      by (auto simp: later_def same_activation_def takes_over_def dest: checked_add_one_gt)
    ultimately show ?thesis using True m' by (auto simp: owner_at_def)
  next
    case False
    with m' assms(3) show ?thesis by (intro exI [of _ r]) (simp add: owner_at_def)
  qed
qed

lemma moves_later:
  assumes "moves K C m m'" "owner_name k" "owner_at K m k r"
  shows "\<exists>r'. owner_at K m' k r' \<and> later r r'"
  using assms(1)
proof (induction rule: rtranclp_induct)
  case base show ?case using assms(3) later_refl by blast
next
  case (step y z)
  then obtain r' where "owner_at K y k r'" "later r r'" by blast
  with legal_later [OF step.hyps(2) assms(2)] show ?case using later_trans by blast
qed

section \<open>Keys\<close>

lemma ROOT_not_nil [simp]: "ROOT \<noteq> []" by (simp add: ROOT_def)

lemma starts_with_same [simp]: "starts_with (p @ s) (p @ q) \<longleftrightarrow> starts_with s q"
  by (simp add: starts_with_def)

lemma owner_path_name: "owner_path C k = Inr p \<Longrightarrow> owner_name p"
  by (auto simp: owner_path_def result_simps owner_name_def)

lemma session_key_not_owner: "\<not> owner_name (session_key C h s)"
  by (simp add: owner_name_def session_key_def session_path_def host_path_def)

lemma snapshot_not_owner: "snapshot_name k \<Longrightarrow> \<not> owner_name k"
  by (auto simp: snapshot_name_def owner_name_def starts_with_def prefix_def ROOT_def)

lemma ownership_stream_prefix:
  assumes "ownership_stream C r = Inr st"
  shows "rs_prefix st = ROOT @ ''snapshots/'' @ actor_path C (ow_actor r) @ ''/'' @
      show_hex_padded 32 (unat (ow_epoch r)) @ ''/''"
    "validate_actor_key (ow_actor r) = Inr ()" "rs_owner_epoch st = ow_epoch r"
proof -
  obtain name where n: "snapshot_object_name C (ow_actor r) 1 (show_hex_padded 32 (unat (ow_epoch r))) = Inr name"
    and st: "rs_prefix st = take (length name - 6) name" "rs_owner_epoch st = ow_epoch r"
    using assms by (auto simp: ownership_stream_def result_simps)
  from n have name: "name = (ROOT @ ''snapshots/'' @ actor_path C (ow_actor r) @ ''/'' @
      show_hex_padded 32 (unat (ow_epoch r)) @ ''/'') @ ''1.json''"
    and v: "validate_actor_key (ow_actor r) = Inr ()"
  proof -
    have "show_u64 1 = ''1''" by code_simp
    with n show "name = (ROOT @ ''snapshots/'' @ actor_path C (ow_actor r) @ ''/'' @
      show_hex_padded 32 (unat (ow_epoch r)) @ ''/'') @ ''1.json''"
      by (simp add: snapshot_object_name_Ok)
  qed (use n in \<open>simp add: snapshot_object_name_Ok\<close>)
  have cut: "take (length (p @ ''1.json'') - 6) (p @ ''1.json'') = p" for p :: string by simp
  show "validate_actor_key (ow_actor r) = Inr ()" "rs_owner_epoch st = ow_epoch r" by (fact v, fact st(2))
  show "rs_prefix st = ROOT @ ''snapshots/'' @ actor_path C (ow_actor r) @ ''/'' @
      show_hex_padded 32 (unat (ow_epoch r)) @ ''/''"
    unfolding st(1) name by (rule cut)
qed

lemma ownership_stream_object: "ownership_stream C r = Inr st \<Longrightarrow> snapshot_name (stream_object st v)"
  by (simp add: snapshot_name_def stream_object_def ownership_stream_prefix)

lemma snapshot_name_prefix: "snapshot_name p \<Longrightarrow> starts_with k p \<Longrightarrow> snapshot_name k"
  by (auto simp: snapshot_name_def starts_with_def intro: prefix_order.trans)

lemma snapshots_name: "snapshots C actor = Inr p \<Longrightarrow> snapshot_name p"
  by (auto simp: snapshots_Ok snapshot_name_def)

lemma stream_snapshot_name:
  assumes "stream_snapshot C J st b = Inr r" "snapshot_name (rs_prefix st)" shows "snapshot_name (sr_object r)"
  using snapshot_name_prefix [OF assms(2) stream_object_prefix] stream_snapshot_facts(1) [OF assms(1)] by metis

lemma ownership_stream_name: "ownership_stream C r = Inr st \<Longrightarrow> snapshot_name (rs_prefix st)"
  by (simp add: snapshot_name_def ownership_stream_prefix)

section \<open>Safe computations\<close>

text \<open>
  From any state that satisfies \<open>A\<close>, a computation moves the bucket legally and its results satisfy \<open>P\<close>.
  A predicate is stable when legal changes keep it.
\<close>

definition safely ::
    "('e \<Rightarrow> objects) \<Rightarrow> ('e \<Rightarrow> bool) \<Rightarrow> runtime_codec \<Rightarrow> crypto \<Rightarrow> (objects \<Rightarrow> bool) \<Rightarrow> ('e, 'a) eff \<Rightarrow>
     ('a \<Rightarrow> objects \<Rightarrow> bool) \<Rightarrow> bool" where
  "safely objs W K C A m P \<longleftrightarrow>
     (\<forall>w r w'. W w \<longrightarrow> owners_ok K C (objs w) \<longrightarrow> A (objs w) \<longrightarrow> m w = (r, w') \<longrightarrow>
        W w' \<and> moves K C (objs w) (objs w') \<and> (\<forall>x. r = Inr x \<longrightarrow> P x (objs w')))"

definition stable_in :: "runtime_codec \<Rightarrow> crypto \<Rightarrow> (objects \<Rightarrow> bool) \<Rightarrow> bool" where
  "stable_in K C A \<longleftrightarrow> (\<forall>m m'. A m \<longrightarrow> moves K C m m' \<longrightarrow> A m')"

named_theorems safe_rules \<open>rules for safe computations\<close>

lemma safelyD:
  "safely objs W K C A m P \<Longrightarrow> W w \<Longrightarrow> owners_ok K C (objs w) \<Longrightarrow> A (objs w) \<Longrightarrow> m w = (r, w') \<Longrightarrow>
   W w' \<and> moves K C (objs w) (objs w') \<and> owners_ok K C (objs w') \<and> (\<forall>x. r = Inr x \<longrightarrow> P x (objs w'))"
  unfolding safely_def using moves_owners_ok by blast

lemma safelyI:
  "(\<And>w r w'. W w \<Longrightarrow> owners_ok K C (objs w) \<Longrightarrow> A (objs w) \<Longrightarrow> m w = (r, w') \<Longrightarrow>
     W w' \<and> moves K C (objs w) (objs w') \<and> (\<forall>x. r = Inr x \<longrightarrow> P x (objs w'))) \<Longrightarrow>
   safely objs W K C A m P"
  unfolding safely_def by blast

lemma safe_bind:
  assumes "safely objs W K C A m P" "\<And>x. safely objs W K C (P x) (f x) Q"
  shows "safely objs W K C A (bindE m f) Q"
proof (rule safelyI)
  fix w r w' assume w: "W w" "owners_ok K C (objs w)" "A (objs w)" "bindE m f w = (r, w')"
  obtain r1 w1 where m: "m w = (r1, w1)" by fastforce
  note 1 = safelyD [OF assms(1) w(1-3) m]
  show "W w' \<and> moves K C (objs w) (objs w') \<and> (\<forall>x. r = Inr x \<longrightarrow> Q x (objs w'))"
  proof (cases r1)
    case (Inl e) with m w(4) 1 show ?thesis by auto
  next
    case (Inr x)
    with m w(4) have "f x w1 = (r, w')" by simp
    with 1 Inr safelyD [OF assms(2), of w1 x r w'] show ?thesis
      by (auto intro: rtranclp_trans)
  qed
qed

lemma safe_weaken:
  "safely objs W K C A m P \<Longrightarrow> (\<And>s. A' s \<Longrightarrow> A s) \<Longrightarrow> (\<And>x s. P x s \<Longrightarrow> P' x s) \<Longrightarrow> safely objs W K C A' m P'"
  unfolding safely_def by blast

lemma safe_frame:
  assumes "safely objs W K C A m P" "stable_in K C A"
  shows "safely objs W K C A m (\<lambda>x s. P x s \<and> A s)"
  using assms unfolding safely_def stable_in_def by blast

lemma safe_ret [safe_rules]: "(\<And>s. A s \<Longrightarrow> P x s) \<Longrightarrow> safely objs W K C A (retE x) P"
  by (auto simp: safely_def)

lemma safe_lift [safe_rules]: "(\<And>x s. r = Inr x \<Longrightarrow> A s \<Longrightarrow> P x s) \<Longrightarrow> safely objs W K C A (liftE r) P"
  by (auto simp: safely_def)

lemma safe_fail [safe_rules]: "safely objs W K C A (failE m) P"
  by (auto simp: safely_def)

lemma safe_get [safe_rules]: "(\<And>x s. A s \<Longrightarrow> P x s) \<Longrightarrow> safely objs W K C A (getE f) P"
  by (auto simp: safely_def)

lemma safe_try:
  assumes "safely objs W K C A m (\<lambda>x. P (Inr x))" "\<And>e s. P (Inl e) s"
  shows "safely objs W K C A (tryE m) P"
proof (rule safelyI)
  fix w r w' assume w: "W w" "owners_ok K C (objs w)" "A (objs w)" "tryE m w = (r, w')"
  then obtain r0 where r0: "m w = (r0, w')" "r = Inr r0" by (auto simp: eff_simps)
  from safelyD [OF assms(1) w(1-3) r0(1)] r0(2) assms(2)
  show "W w' \<and> moves K C (objs w) (objs w') \<and> (\<forall>x. r = Inr x \<longrightarrow> P x (objs w'))"
    by (cases r0) auto
qed

lemma safe_bind_lift:
  "(\<And>x. r = Inr x \<Longrightarrow> safely objs W K C A (f x) P) \<Longrightarrow> safely objs W K C A (bindE (liftE r) f) P"
  by (cases r) (auto simp: safely_def)

lemma safe_assume: "(B \<Longrightarrow> safely objs W K C A m P) \<Longrightarrow> safely objs W K C (\<lambda>s. B \<and> A s) m P"
  unfolding safely_def by blast

lemma safe_for:
  assumes "\<And>x. x \<in> set xs \<Longrightarrow> safely objs W K C A (f x) (\<lambda>y s. P y \<and> A s)"
  shows "safely objs W K C A (forE xs f) (\<lambda>ys s. list_all P ys \<and> A s)"
  using assms
proof (induction xs)
  case Nil show ?case unfolding forE.simps by (rule safe_ret) simp
next
  case (Cons x xs)
  have "safely objs W K C (\<lambda>s. P y \<and> A s) (bindE (forE xs f) (\<lambda>ys. retE (y # ys)))
      (\<lambda>ys s. list_all P ys \<and> A s)" for y
    by (rule safe_assume, rule safe_bind, rule Cons.IH) (auto intro: Cons.prems safe_ret)
  then show ?case by (auto intro!: safe_bind [OF Cons.prems])
qed

text \<open>The common case: no condition on the bucket, and results that satisfy a pure predicate.\<close>

definition soundly ::
    "('e \<Rightarrow> objects) \<Rightarrow> ('e \<Rightarrow> bool) \<Rightarrow> runtime_codec \<Rightarrow> crypto \<Rightarrow> ('e, 'a) eff \<Rightarrow> ('a \<Rightarrow> bool) \<Rightarrow> bool" where
  "soundly objs W K C m P \<longleftrightarrow> safely objs W K C (\<lambda>_. True) m (\<lambda>x _. P x)"

lemma soundly_safely:
  assumes "soundly objs W K C m P" "stable_in K C A"
  shows "safely objs W K C A m (\<lambda>x s. P x \<and> A s)"
  using assms unfolding soundly_def safely_def stable_in_def by blast

lemma sound_bind:
  assumes "soundly objs W K C m P" "\<And>x. P x \<Longrightarrow> soundly objs W K C (f x) Q"
  shows "soundly objs W K C (bindE m f) Q"
  unfolding soundly_def
proof (rule safe_bind)
  show "safely objs W K C (\<lambda>_. True) m (\<lambda>x s. P x \<and> True)" using assms(1) by (simp add: soundly_def)
  show "safely objs W K C (\<lambda>_. P x \<and> True) (f x) (\<lambda>x _. Q x)" for x
    using assms(2) [of x] by (intro safe_assume) (simp add: soundly_def)
qed

lemma sound_weaken: "soundly objs W K C m P \<Longrightarrow> (\<And>x. P x \<Longrightarrow> Q x) \<Longrightarrow> soundly objs W K C m Q"
  unfolding soundly_def by (erule safe_weaken) auto

lemma sound_seq:
  assumes "soundly objs W K C m P" "\<And>x. soundly objs W K C (f x) Q"
  shows "soundly objs W K C (bindE m f) Q"
  using assms by (rule sound_bind)

lemma sound_ret: "P x \<Longrightarrow> soundly objs W K C (retE x) P"
  by (simp add: soundly_def safe_ret)

lemma sound_lift: "(\<And>x. r = Inr x \<Longrightarrow> P x) \<Longrightarrow> soundly objs W K C (liftE r) P"
  by (simp add: soundly_def safe_lift)

lemma sound_fail: "soundly objs W K C (failE m) P"
  by (simp add: soundly_def safe_fail)

lemma sound_get: "(\<And>e. P (f e)) \<Longrightarrow> soundly objs W K C (getE f) P"
  by (auto simp: soundly_def safely_def)

lemma sound_try: "soundly objs W K C m P \<Longrightarrow> soundly objs W K C (tryE m) (\<lambda>r. \<forall>x. r = Inr x \<longrightarrow> P x)"
  unfolding soundly_def by (rule safe_try) (auto elim: safe_weaken)

lemma sound_bind_lift:
  "(\<And>x. r = Inr x \<Longrightarrow> soundly objs W K C (f x) P) \<Longrightarrow> soundly objs W K C (bindE (liftE r) f) P"
  unfolding soundly_def by (rule safe_bind_lift)

lemma sound_if:
  "(b \<Longrightarrow> soundly objs W K C m P) \<Longrightarrow> (\<not> b \<Longrightarrow> soundly objs W K C n P) \<Longrightarrow> soundly objs W K C (if b then m else n) P"
  by simp

lemma sound_option:
  "(x = None \<Longrightarrow> soundly objs W K C m P) \<Longrightarrow> (\<And>y. x = Some y \<Longrightarrow> soundly objs W K C (f y) P) \<Longrightarrow>
   soundly objs W K C (case x of None \<Rightarrow> m | Some y \<Rightarrow> f y) P"
  by (cases x) simp_all

lemma sound_prod:
  "(\<And>a b. x = (a, b) \<Longrightarrow> soundly objs W K C (f a b) P) \<Longrightarrow> soundly objs W K C (case x of (a, b) \<Rightarrow> f a b) P"
  by (cases x) simp

lemma sound_for:
  assumes "\<And>x. x \<in> set xs \<Longrightarrow> soundly objs W K C (f x) P"
  shows "soundly objs W K C (forE xs f) (list_all P)"
  using safe_for [of xs objs W K C "\<lambda>_. True" f P] assms by (simp add: soundly_def)

lemma sound_join:
  assumes "\<And>x. x \<in> set xs \<Longrightarrow> soundly objs W K C (f x) P"
  shows "soundly objs W K C (joinE f xs) (list_all (\<lambda>r. \<forall>y. r = Inr y \<longrightarrow> P y))"
  unfolding joinE_def using assms by (intro sound_for sound_try)

lemmas sound_steps = sound_bind_lift sound_if sound_option sound_prod sound_fail

definition legal_op :: "('e \<Rightarrow> objects) \<Rightarrow> ('e \<Rightarrow> bool) \<Rightarrow> runtime_codec \<Rightarrow> crypto \<Rightarrow> ('e, 'a) eff \<Rightarrow> bool" where
  "legal_op objs W K C m \<longleftrightarrow> (\<forall>w r w'. W w \<longrightarrow> m w = (r, w') \<longrightarrow> W w' \<and> moves K C (objs w) (objs w'))"

lemma sound_op: "legal_op objs W K C m \<Longrightarrow> soundly objs W K C m (\<lambda>_. True)"
  unfolding legal_op_def soundly_def safely_def by blast

section \<open>The operations are safe\<close>

text \<open>The generation and the record that were read from an owner key.\<close>

definition seen :: "runtime_codec \<Rightarrow> string \<Rightarrow> int \<Rightarrow> ownership \<Rightarrow> objects \<Rightarrow> bool" where
  "seen K k g r s \<longleftrightarrow>
     (\<exists>m ob. evolves m s \<and> m k = Some ob \<and> obj_generation ob = g \<and> ownership_from_slice K (obj_bytes ob) = Some r)"

lemma seen_stable: "stable_in K C (seen K k g r)"
  unfolding stable_in_def seen_def using moves_evolves evolves_trans by blast

lemma seen_now: "seen K k g r s \<Longrightarrow> map_option obj_generation (s k) = Some g \<Longrightarrow> owner_at K s k r"
  unfolding seen_def owner_at_def using evolves_same_generation by blast

definition loaded_ok :: "runtime_codec \<Rightarrow> crypto \<Rightarrow> storage_key \<Rightarrow> (int \<times> ownership) option \<Rightarrow> objects \<Rightarrow> bool" where
  "loaded_ok K C key x s \<longleftrightarrow>
     (\<forall>g r. x = Some (g, r) \<longrightarrow> base_ok r \<and>
        (\<exists>k. owner_path C key = Ok k \<and> owner_path C (storage_key (ow_actor r)) = Ok k \<and> seen K k g r s))"

lemma loaded_ok_stable: "stable_in K C (loaded_ok K C key x)"
  using seen_stable unfolding stable_in_def loaded_ok_def by blast

definition snapshot_ok :: "loaded_snapshot option \<Rightarrow> bool" where
  "snapshot_ok x \<longleftrightarrow> (\<forall>l. x = Some l \<longrightarrow> snapshot_name (sr_object (ls_reference l)))"

definition ref_ok :: "snapshot_ref option \<Rightarrow> bool" where
  "ref_ok x \<longleftrightarrow> (\<forall>r. x = Some r \<longrightarrow> snapshot_name (sr_object r))"

lemma ref_ok_advance: "advance a b = Inr c \<Longrightarrow> ref_ok a \<Longrightarrow> ref_ok b \<Longrightarrow> ref_ok c"
  by (auto simp: advance_def ref_ok_def result_simps split: option.splits if_splits)

lemma ref_ok_collect_heads:
  "collect_heads st hs c n = Inr (c', n') \<Longrightarrow> ref_ok c \<Longrightarrow>
   list_all (\<lambda>r. \<forall>h. r = Inr h \<longrightarrow> sth_stream h = st \<longrightarrow> ref_ok (sth_latest h)) hs \<Longrightarrow> ref_ok c'"
proof (induction st hs c n rule: collect_heads.induct)
  case (3 st h rs c n)
  then obtain c1 where "sth_stream h = st" "advance c (sth_latest h) = Inr c1" "collect_heads st rs c1 (Suc n) = Inr (c', n')"
    by (auto simp: result_simps)
  with 3 show ?case using ref_ok_advance by simp
qed auto

definition all_refs_ok :: "(string \<times> snapshot_ref option) list \<Rightarrow> bool" where
  "all_refs_ok found \<longleftrightarrow> (\<forall>p c. map_of found p = Some c \<longrightarrow> ref_ok c) \<and> distinct (map fst found)"

lemma all_refs_ok_streams:
  "collect_streams sid hs found = Inr found' \<Longrightarrow> all_refs_ok found \<Longrightarrow>
   list_all (\<lambda>h. snapshot_name (rs_prefix (sth_stream h))) hs \<Longrightarrow> all_refs_ok found'"
proof (induction sid hs found rule: collect_streams.induct)
  case (2 sid h hs found)
  show ?case
  proof (cases "sth_latest h")
    case None
    with 2 show ?thesis by (simp add: result_simps)
  next
    case (Some r)
    let ?p = "rs_prefix (sth_stream h)"
    let ?c = "case map_of found ?p of Some c \<Rightarrow> c | None \<Rightarrow> None"
    from 2(3) Some obtain c1 where c1: "rs_session (sth_stream h) = sid" "sr_object r = stream_object (sth_stream h) (sr_state_version r)"
      "advance ?c (Some r) = Inr c1" "collect_streams sid hs (AList.update ?p c1 found) = Inr found'"
      by (auto simp: result_simps Let_def)
    have "snapshot_name (sr_object r)"
      using 2(5) c1(2) by (auto simp: snapshot_name_def stream_object_def starts_with_def)
    moreover have "ref_ok ?c"
      using 2(4) by (auto simp: all_refs_ok_def ref_ok_def split: option.splits)
    ultimately have "ref_ok c1" using ref_ok_advance [OF c1(3)] by (auto simp: ref_ok_def)
    with 2(4) have "all_refs_ok (AList.update ?p c1 found)"
      by (auto simp: all_refs_ok_def update_conv' distinct_update split: if_splits)
    with 2(2,5) Some c1 show ?thesis by (auto simp: Let_def result_simps)
  qed
qed auto

lemma all_refs_ok_seals:
  "collect_seals sid rs found n = Inr (found', n') \<Longrightarrow> all_refs_ok found \<Longrightarrow>
   list_all (\<lambda>r. \<forall>h. r = Inr h \<longrightarrow> list_all (\<lambda>h. snapshot_name (rs_prefix (sth_stream h))) (seh_streams h)) rs \<Longrightarrow>
   all_refs_ok found'"
proof (induction sid rs found n rule: collect_seals.induct)
  case (3 sid h rs found n)
  then show ?case
    by (auto simp: result_simps split: if_splits dest: all_refs_ok_streams)
qed auto

lemma all_refs_ok_values: "all_refs_ok found \<Longrightarrow> r \<in> set (List.map_filter snd found) \<Longrightarrow> snapshot_name (sr_object r)"
  by (auto simp: all_refs_ok_def ref_ok_def map_filter_def)

end
