(* ===== verification/Runtime_Safety.thy ===== *)
theory Runtime_Safety
  imports Ownership
begin

text \<open>
  The interface of the runtime storage to its environment and its guarantee: under the locale
  \<open>runtime_env\<close> every operation of \<open>Runtime_Storage\<close> and \<open>Runtime_Sessions\<close> moves the bucket legally.
\<close>

section \<open>What the storage relies on\<close>

text \<open>
  The bucket keeps its contract and others change it legally; clocks, the provisioner, replicas and the
  transport may take any time, in which others act; the codec reads back ownership records; the hash
  map order and the completion order only permute; and a replica names objects of the streams it
  was asked for and keeps only streams of snapshots.
\<close>

locale runtime_env = bucket "rn_authority R" objs wf env
  for R :: "'e runtime" and objs :: "'e \<Rightarrow> objects" and wf :: "'e \<Rightarrow> bool" and env +
  fixes T :: "'e state_transport"
  assumes env_legal: "env m m' \<Longrightarrow> moves (rn_codec R) (rn_crypto R) m m'"
    and codec: "ownership_from_slice (rn_codec R) (ownership_to_vec (rn_codec R) record) = Some record"
    and clock: "legal_op objs wf (rn_codec R) (rn_crypto R) (rn_clock R)"
    and system_clock: "legal_op objs wf (rn_codec R) (rn_crypto R) (rn_system_clock R)"
    and uuid: "legal_op objs wf (rn_codec R) (rn_crypto R) (rn_uuid R)"
    and repair: "legal_op objs wf (rn_codec R) (rn_crypto R) (f_repair (rn_fleet R) scope failed)"
    and transport: "legal_op objs wf (rn_codec R) (rn_crypto R) (t_write T url bytes)"
    and initialize: "legal_op objs wf (rn_codec R) (rn_crypto R) (p_initialize (rn_peers R) peer sid)"
    and peer_read: "legal_op objs wf (rn_codec R) (rn_crypto R) (p_read (rn_peers R) peer object)"
    and head: "soundly objs wf (rn_codec R) (rn_crypto R) (p_head (rn_peers R) peer stream)
      (\<lambda>h. \<forall>r. sth_latest h = Some r \<longrightarrow> sr_object r = stream_object (sth_stream h) (sr_state_version r))"
    and seal: "soundly objs wf (rn_codec R) (rn_crypto R) (p_seal (rn_peers R) peer sid)
      (\<lambda>h. list_all (\<lambda>h. snapshot_name (rs_prefix (sth_stream h))) (seh_streams h))"
    and order: "set (rn_order R e targets) = set targets"
    and shuffle: "set (rn_shuffle R e refs) = set refs"
begin

abbreviation sound :: "('e, 'a) eff \<Rightarrow> ('a \<Rightarrow> bool) \<Rightarrow> bool" where
  "sound \<equiv> soundly objs wf (rn_codec R) (rn_crypto R)"

abbreviation safe :: "(objects \<Rightarrow> bool) \<Rightarrow> ('e, 'a) eff \<Rightarrow> ('a \<Rightarrow> objects \<Rightarrow> bool) \<Rightarrow> bool" where
  "safe \<equiv> safely objs wf (rn_codec R) (rn_crypto R)"

abbreviation stable :: "(objects \<Rightarrow> bool) \<Rightarrow> bool" where
  "stable \<equiv> stable_in (rn_codec R) (rn_crypto R)"

lemmas ops = clock [THEN sound_op] system_clock [THEN sound_op] uuid [THEN sound_op] repair [THEN sound_op]
  transport [THEN sound_op] initialize [THEN sound_op] peer_read [THEN sound_op]

lemma safe_b_get: "stable A \<Longrightarrow> safe A (b_get (rn_authority R) k) (\<lambda>x s. x = s k \<and> A s)"
  unfolding safely_def stable_in_def using get_wf get_value env_legal by blast

lemma sound_b_get: "sound (b_get (rn_authority R) k) (\<lambda>_. True)"
  unfolding soundly_def safely_def using get_wf env_legal by blast

lemma sound_b_list: "sound (b_list (rn_authority R) p) (\<lambda>ks. \<forall>k \<in> set ks. starts_with k p)"
  unfolding soundly_def safely_def using list_wf list_value env_legal by blast

lemma safe_b_cas:
  assumes "stable A" "\<And>s s'. A s \<Longrightarrow> owners_ok (rn_codec R) (rn_crypto R) s \<Longrightarrow> swaps k g b s s' \<Longrightarrow> legal (rn_codec R) (rn_crypto R) s s'"
  shows "safe A (b_cas (rn_authority R) k g b) (\<lambda>_. A)"
proof (rule safelyI)
  fix w r w' assume w: "wf w" "owners_ok (rn_codec R) (rn_crypto R) (objs w)" "A (objs w)" "b_cas (rn_authority R) k g b w = (r, w')"
  then obtain m where m: "wf w'" "env (objs w) m" "objs w' = m \<or> swaps k g b m (objs w')" using cas_wf by blast
  have 1: "moves (rn_codec R) (rn_crypto R) (objs w) m" using m(2) by (rule env_legal)
  then have "A m" "owners_ok (rn_codec R) (rn_crypto R) m"
    using w(2,3) assms(1) moves_owners_ok by (auto simp: stable_in_def)
  with m(3) assms(2) have "moves (rn_codec R) (rn_crypto R) m (objs w')" by blast
  with 1 have "moves (rn_codec R) (rn_crypto R) (objs w) (objs w')" by (rule rtranclp_trans)
  with m(1) w(3) assms(1) show "wf w' \<and> moves (rn_codec R) (rn_crypto R) (objs w) (objs w') \<and> (\<forall>x. r = Inr x \<longrightarrow> A (objs w'))"
    by (auto simp: stable_in_def)
qed

lemma safe_replace:
  assumes "stable A" "\<And>s s'. A s \<Longrightarrow> owners_ok (rn_codec R) (rn_crypto R) s \<Longrightarrow> swaps k g b s s' \<Longrightarrow> legal (rn_codec R) (rn_crypto R) s s'"
  shows "safe A (replace (rn_authority R) k g b) (\<lambda>_. A)"
proof -
  have "safe A (replace (rn_authority R) k g b) (\<lambda>_ _. True)"
    unfolding replace_def
  proof (rule safe_bind)
    show "safe A (tryE (b_cas (rn_authority R) k g b)) (\<lambda>_ _. True)"
      by (rule safe_try [OF safe_weaken [OF safe_b_cas [OF assms]]]) auto
    have "sound (if result = Ok True then retE True else bindE (b_get (rn_authority R) k)
        (\<lambda>object. if case object of None \<Rightarrow> False | Some ob \<Rightarrow> obj_bytes ob = b then retE True else liftE result)) (\<lambda>_. True)" for result
      by (intro sound_if sound_seq [OF sound_b_get] sound_ret sound_lift) auto
    then show "safe (\<lambda>_. True) (if result = Ok True then retE True else bindE (b_get (rn_authority R) k)
        (\<lambda>object. if case object of None \<Rightarrow> False | Some ob \<Rightarrow> obj_bytes ob = b then retE True else liftE result)) (\<lambda>_ _. True)" for result
      by (simp add: soundly_def)
  qed
  from safe_frame [OF this assms(1)] show ?thesis by (rule safe_weaken) auto
qed

lemma sound_replace: "\<not> owner_name k \<Longrightarrow> sound (replace (rn_authority R) k g b) (\<lambda>_. True)"
  unfolding soundly_def by (rule safe_replace) (auto simp: stable_in_def legal_def)

section \<open>Reading\<close>

lemma safe_load:
  "safe (\<lambda>_. True) (load R key) (loaded_ok (rn_codec R) (rn_crypto R) key)"
  unfolding load_def
proof (rule safe_bind_lift)
  fix k assume k: "ownership_key (rn_crypto R) key = Inr k"
  then have o: "owner_name k" "owner_path (rn_crypto R) key = Inr k"
    by (auto simp: ownership_key_def dest: owner_path_name)
  show "safe (\<lambda>_. True) (bindE (b_get (rn_authority R) k) (\<lambda>value. case value of None \<Rightarrow> retE None
     | Some v \<Rightarrow> bindE (liftE (ok_or (ownership_from_slice (rn_codec R) (obj_bytes v)) ''invalid JSON''))
         (\<lambda>record. retE (Some (obj_generation v, record))))) (loaded_ok (rn_codec R) (rn_crypto R) key)"
  proof (rule safelyI)
    fix w r w' assume w: "wf w" "owners_ok (rn_codec R) (rn_crypto R) (objs w)" and
      run: "bindE (b_get (rn_authority R) k) (\<lambda>value. case value of None \<Rightarrow> retE None
        | Some v \<Rightarrow> bindE (liftE (ok_or (ownership_from_slice (rn_codec R) (obj_bytes v)) ''invalid JSON''))
         (\<lambda>record. retE (Some (obj_generation v, record)))) w = (r, w')"
    obtain x w1 where get: "b_get (rn_authority R) k w = (x, w1)" by fastforce
    have "w' = w1" using run get
      by (auto simp: bindE_def split: sum.splits option.splits)
    note m = get_wf [OF w(1) get, THEN conjunct2, THEN env_legal]
    have ok: "owners_ok (rn_codec R) (rn_crypto R) (objs w1)" using moves_owners_ok [OF m w(2)] .
    have "loaded_ok (rn_codec R) (rn_crypto R) key y (objs w')" if "r = Inr y" for y
    proof (unfold loaded_ok_def, intro allI impI)
      fix g rec assume y: "y = Some (g, rec)"
      with that run get obtain v where v: "x = Inr (Some v)" "g = obj_generation v"
        "ownership_from_slice (rn_codec R) (obj_bytes v) = Some rec"
        by (auto simp: eff_simps result_simps split: option.splits)
      with get_value [OF w(1)] get have at: "objs w1 k = Some v" by metis
      with ok o(1) v(3) have "owner_path (rn_crypto R) (storage_key (ow_actor rec)) = Ok k" "base_ok rec"
        by (auto simp: owners_ok_def)
      moreover have "seen (rn_codec R) k g rec (objs w1)"
        unfolding seen_def using at v by (auto intro!: exI [of _ "objs w1"] exI [of _ v])
      ultimately show "base_ok rec \<and> (\<exists>k. owner_path (rn_crypto R) key = Ok k \<and>
          owner_path (rn_crypto R) (storage_key (ow_actor rec)) = Ok k \<and> seen (rn_codec R) k g rec (objs w'))"
        using o(2) \<open>w' = w1\<close> by blast
    qed
    with m get_wf [OF w(1) get] \<open>w' = w1\<close>
    show "wf w' \<and> moves (rn_codec R) (rn_crypto R) (objs w) (objs w') \<and>
        (\<forall>x. r = Inr x \<longrightarrow> loaded_ok (rn_codec R) (rn_crypto R) key x (objs w'))" by blast
  qed
qed

lemma sound_load: "sound (load R key) (\<lambda>x. \<forall>g r. x = Some (g, r) \<longrightarrow> base_ok r)"
  unfolding soundly_def using safe_load by (rule safe_weaken) (auto simp: loaded_ok_def)

lemma sound_replica_members: "sound (replica_members R scope) (\<lambda>_. True)"
  unfolding replica_members_def by (intro sound_seq [OF sound_b_get] sound_steps sound_ret) simp_all

lemma sound_persist: "snapshot_name k \<Longrightarrow> sound (persist R k b) (\<lambda>_. True)"
  unfolding persist_def by (intro sound_seq [OF sound_replace] sound_lift) (auto dest: snapshot_not_owner)

lemma sound_recover_from: "snapshot_name (sr_object r) \<Longrightarrow> sound (recover_from R ps r) (\<lambda>_. True)"
proof (induction ps)
  case (Cons p ps)
  have "sound (case result of Inl _ \<Rightarrow> recover_from R ps r
      | Inr bytes \<Rightarrow> bindE (liftE (verify_ref (rn_crypto R) r bytes)) (\<lambda>_. bindE (persist R (sr_object r) bytes) (\<lambda>_. retE bytes)))
      (\<lambda>_. True)" for result
    using Cons by (cases result) (auto intro!: sound_bind_lift sound_seq [OF sound_persist] sound_ret)
  then show ?case unfolding recover_from.simps by (rule sound_seq [OF sound_try [OF ops(7)]])
qed (simp add: sound_fail)

lemma sound_recover_snapshot: "snapshot_name (sr_object r) \<Longrightarrow> sound (recover_snapshot R ps r) (\<lambda>_. True)"
  unfolding recover_snapshot_def
  by (intro sound_seq [OF sound_b_get] sound_option sound_bind_lift sound_ret sound_recover_from) auto

lemma sound_join_replicas:
  assumes "\<And>t. t \<in> set ts \<Longrightarrow> sound (f t) P"
  shows "sound (join_replicas R f ts) (list_all (\<lambda>r. \<forall>y. r = Inr y \<longrightarrow> P y))"
  unfolding join_replicas_def
  by (rule sound_bind [OF sound_get [of "\<lambda>xs. set xs = set ts"]])
    (use assms order in \<open>auto intro: sound_join\<close>)

lemma newest_key_in: "newest_key epoch ks = Some k \<Longrightarrow> k \<in> set ks"
proof -
  have "max_by_key f xs = Some x \<Longrightarrow> x \<in> set xs" for f :: "_ \<Rightarrow> u64 \<times> u64" and xs and x :: "(u64 \<times> u64) \<times> string"
    by (induction xs arbitrary: x) (auto split: option.splits if_splits)
  then show "newest_key epoch ks = Some k \<Longrightarrow> k \<in> set ks"
    unfolding newest_key_def by (fastforce simp: map_filter_def split: option.splits if_splits)
qed

lemma sound_load_newest:
  assumes "\<And>k. newest = Some k \<Longrightarrow> snapshot_name k" "snapshot_ok known"
  shows "sound (load_newest R newest known) snapshot_ok"
  unfolding load_newest_def
  by (intro sound_option sound_if sound_ret sound_seq [OF sound_b_get] sound_bind_lift)
    (use assms in \<open>auto simp: snapshot_ok_def decode_snapshot_def result_simps new_snapshot_ref_def\<close>)

lemma sound_latest:
  assumes "base_ok r" "snapshot_ok known"
  shows "sound (latest R r known) snapshot_ok"
  unfolding latest_def
proof (intro sound_bind_lift)
  fix st assume st: "ownership_stream (rn_crypto R) r = Inr st"
  have names: "snapshot_name k" if "starts_with k (rs_prefix st)" for k
    using ownership_stream_name [OF st] that by (rule snapshot_name_prefix)
  let ?heads = "\<lambda>loaded candidate replicas. bindE (join_replicas R (\<lambda>target. p_head (rn_peers R) target st) replicas) (\<lambda>heads.
     bindE (liftE (collect_heads st heads candidate 0)) (\<lambda>(candidate, witnesses).
     bindE (liftE (ensure (replicas = [] \<or> 0 < witnesses)
       ''no complete replica witness; refusing to lose acknowledged state'')) (\<lambda>_.
     case candidate of
       Some snapshot \<Rightarrow>
         if (case loaded of None \<Rightarrow> True | Some s \<Rightarrow> ls_reference s \<noteq> snapshot) then
           bindE (recover_snapshot R replicas snapshot) (\<lambda>bytes.
           retE (Some \<lparr>ls_reference = snapshot, ls_bytes = bytes\<rparr>))
         else retE loaded
     | None \<Rightarrow> retE loaded)))"
  have heads: "sound (?heads loaded candidate replicas) snapshot_ok"
    if loaded: "snapshot_ok loaded" and cand: "ref_ok candidate" for loaded candidate replicas
  proof (rule sound_bind [OF sound_join_replicas [OF head]], rule sound_bind_lift, rule sound_prod, rule sound_bind_lift)
    fix heads x candidate' n u
    assume h: "list_all (\<lambda>r. \<forall>y. r = Ok y \<longrightarrow> (\<forall>r. sth_latest y = Some r \<longrightarrow> sr_object r = stream_object (sth_stream y) (sr_state_version r))) heads"
      and x: "collect_heads st heads candidate 0 = Inr x" "x = (candidate', n)"
    have "list_all (\<lambda>r. \<forall>h. r = Inr h \<longrightarrow> sth_stream h = st \<longrightarrow> ref_ok (sth_latest h)) heads"
      using h ownership_stream_object [OF st] by (auto simp: list_all_iff ref_ok_def)
    with x cand have "ref_ok candidate'" using ref_ok_collect_heads by blast
    with loaded show "sound (case candidate' of
       Some snapshot \<Rightarrow>
         if (case loaded of None \<Rightarrow> True | Some s \<Rightarrow> ls_reference s \<noteq> snapshot) then
           bindE (recover_snapshot R replicas snapshot) (\<lambda>bytes.
           retE (Some \<lparr>ls_reference = snapshot, ls_bytes = bytes\<rparr>))
         else retE loaded
     | None \<Rightarrow> retE loaded) snapshot_ok"
      by (intro sound_option sound_if sound_seq [OF sound_recover_snapshot] sound_ret)
        (auto simp: ref_ok_def snapshot_ok_def)
  qed
  have adv: "ref_ok candidate" if "snapshot_ok loaded" "advance (ow_base r) (map_option ls_reference loaded) = Inr candidate" for loaded candidate
    by (rule ref_ok_advance [OF that(2)]) (use that(1) assms(1) in \<open>auto simp: ref_ok_def base_ok_def snapshot_ok_def\<close>)
  show "sound (bindE (b_list (rn_authority R) (rs_prefix st)) (\<lambda>keys.
      bindE (load_newest R (newest_key (ow_epoch r) keys) known) (\<lambda>loaded.
      bindE (liftE (advance (ow_base r) (map_option ls_reference loaded))) (\<lambda>candidate.
      bindE (replica_members R (ownership_scope r)) (?heads loaded candidate))))) snapshot_ok"
    by (rule sound_bind [OF sound_b_list], rule sound_bind [OF sound_load_newest], use names newest_key_in in blast,
        rule assms(2), rule sound_bind_lift, rule sound_seq [OF sound_replica_members], rule heads, assumption, rule adv)
qed

lemma sound_fetch_snapshot: "sound (fetch_snapshot R g) (\<lambda>_. True)"
  unfolding fetch_snapshot_def
  by (intro sound_seq [OF sound_b_get] sound_option sound_ret sound_bind_lift sound_seq [OF sound_load] sound_prod
      sound_seq [OF sound_replica_members] sound_seq [OF sound_join_replicas [OF ops(7)]])
    (auto split: option.splits sum.splits intro: sound_ret sound_fail)

lemma sound_get_owner: "sound (get_owner R k) (\<lambda>_. True)"
  unfolding get_owner_def by (intro sound_seq [OF sound_load] sound_ret) simp

lemma sound_current_placement: "base_ok r \<Longrightarrow> sound (current_placement R r) (\<lambda>_. True)"
  unfolding current_placement_def by (intro sound_seq [OF sound_latest] sound_ret) (simp_all add: snapshot_ok_def)

lemma sound_get_placement: "sound (get_placement R k) (\<lambda>_. True)"
  unfolding get_placement_def
  by (rule sound_bind [OF sound_load], intro sound_option sound_prod sound_ret)
    (auto intro!: sound_seq [OF sound_current_placement] sound_ret)

lemma sound_write_snapshot:
  assumes "snapshot_name (rs_prefix (wp_stream plan))"
  shows "sound (write_snapshot R plan b) (\<lambda>_. True)"
  unfolding write_snapshot_def
  by (intro sound_bind_lift sound_seq [OF sound_persist] sound_ret)
    (use assms stream_snapshot_name in auto)

section \<open>Recovery\<close>

lemma sound_save_session: "sound (save_session_record R (session_key C h s) g se) (\<lambda>_. True)"
  unfolding save_session_record_def by (rule sound_replace) (rule session_key_not_owner)

lemma sound_recovery_round: "sound (recovery_round R scope) (\<lambda>_. True)"
  unfolding recovery_round_def Let_def
  by (rule sound_seq [OF sound_b_get], rule sound_option, rule sound_seq [OF sound_save_session], rule sound_ret, simp,
      rule sound_bind_lift, rule sound_bind_lift)
    (auto split: recovery_state.split intro!: sound_ret sound_seq [OF sound_save_session])

lemma sound_start_recovery: "sound (start_recovery R scope) (\<lambda>_. True)"
proof -
  have "sound (start_recovery_loop R scope n) (\<lambda>_. True)" for n
  proof (induction n)
    case 0 show ?case unfolding start_recovery_loop.simps by (rule sound_lift) simp
  next
    case (Suc n) then show ?case by (auto intro!: sound_seq [OF sound_recovery_round] sound_ret split: option.split)
  qed
  then show ?thesis by (simp add: start_recovery_def)
qed

lemma sound_finish_recovery: "sound (finish_recovery R scope session) (\<lambda>_. True)"
proof -
  let ?k = "session_key (rn_crypto R) (sc_host scope) (sc_session scope)"
  have "sound (finish_recovery_loop R ?k se n) (\<lambda>_. True)" for se n
  proof (induction n)
    case 0 show ?case unfolding finish_recovery_loop.simps by (rule sound_lift) simp
  next
    case (Suc n)
    show ?case
      unfolding finish_recovery_loop.simps
      by (intro sound_seq [OF sound_b_get] sound_bind_lift sound_if sound_ret sound_seq [OF sound_save_session] Suc) simp_all
  qed
  then show ?thesis by (simp add: finish_recovery_def)
qed

lemma sound_seal_replicas: "sound (seal_replicas R session) (list_all (\<lambda>r. snapshot_name (sr_object r)))"
  unfolding seal_replicas_def
proof (rule sound_bind [OF sound_join_replicas [OF seal]], rule sound_bind_lift, rule sound_prod, rule sound_bind_lift, rule sound_get)
  fix heads x found n u e
  assume "list_all (\<lambda>r. \<forall>y. r = Ok y \<longrightarrow> list_all (\<lambda>h. snapshot_name (rs_prefix (sth_stream h))) (seh_streams y)) heads"
    and x: "collect_seals (se_id session) heads [] 0 = Inr x" "x = (found, n)"
  then have "all_refs_ok found"
    using all_refs_ok_seals [of "se_id session" heads "[]" 0 found n] by (simp add: all_refs_ok_def)
  then show "list_all (\<lambda>r. snapshot_name (sr_object r)) (rn_shuffle R e (List.map_filter snd found))"
    using all_refs_ok_values by (auto simp: list_all_iff shuffle)
qed

lemma sound_restore_snapshots:
  "list_all (\<lambda>r. snapshot_name (sr_object r)) rs \<Longrightarrow> snapshot_ok best \<Longrightarrow> sound (restore_snapshots R p ts rs best) snapshot_ok"
proof (induction rs arbitrary: best)
  case (Cons r rs)
  show ?case
    unfolding restore_snapshots.simps
    by (rule sound_seq [OF sound_recover_snapshot]) (use Cons in \<open>auto simp: snapshot_ok_def\<close>)
qed (simp add: sound_ret)

lemma sound_recover_session: "sound (recover_session R owner) snapshot_ok"
  unfolding recover_session_def restore_session_def
  by (rule sound_seq [OF sound_start_recovery], rule sound_option, simp add: sound_ret snapshot_ok_def,
      rule sound_bind [OF sound_seal_replicas], rule sound_bind [of _ _ _ _ _ snapshot_ok],
      intro sound_bind_lift sound_restore_snapshots)
    (auto simp: snapshot_ok_def intro!: sound_seq [OF sound_finish_recovery] sound_ret)

lemma sound_retire_replication: "sound (retire_replication R scope) (\<lambda>_. True)"
proof -
  have r: "sound (forE rs (recover_snapshot R ts)) (\<lambda>_. True)"
    if "list_all (\<lambda>r. snapshot_name (sr_object r)) rs" for rs ts
    by (rule sound_weaken [OF sound_for [OF sound_recover_snapshot]]) (use that in \<open>auto simp: list_all_iff\<close>)
  show ?thesis
    unfolding retire_replication_def
    by (rule sound_seq [OF sound_get_owner], rule sound_seq [of _ _ _ _ _ "\<lambda>_. True"],
        intro sound_option sound_ret sound_if sound_seq [OF ops(1)] sound_lift, simp_all,
        rule sound_seq [OF sound_start_recovery], rule sound_option, simp add: sound_ret,
        rule sound_bind [OF sound_seal_replicas], rule sound_seq [OF r], assumption, rule sound_finish_recovery)
qed

section \<open>Activations\<close>

lemma sound_new_lease:
  "sound (new_lease R request) (\<lambda>l. hl_id l = hr_id request \<and> hl_session_id l = hr_session_id request)"
  unfolding new_lease_def by (intro sound_bind_lift sound_seq [OF ops(1)] sound_ret) simp

text \<open>An ownership record is written on the generation that was read, when its change is legal there.\<close>

lemma safe_replace_activation:
  assumes "stable A" "owner_path (rn_crypto R) (storage_key (ow_actor r)) = Ok k"
    and "\<And>s u. A s \<Longrightarrow> owners_ok (rn_codec R) (rn_crypto R) s \<Longrightarrow> map_option obj_generation (s k) = g \<Longrightarrow>
      owner_change (rn_codec R) (rn_crypto R) k s (r\<lparr>ow_mutation := u\<rparr>)"
  shows "safe A (replace_activation R r g) (\<lambda>_. A)"
  unfolding replace_activation_def Let_def
proof (rule safe_bind [OF soundly_safely [OF ops(3) assms(1)]], rule safe_assume, rule safe_bind_lift, rule safe_bind)
  fix u k' assume "ownership_key (rn_crypto R) (storage_key (ow_actor (r\<lparr>ow_mutation := u\<rparr>))) = Ok k'"
  with assms(2) have k': "k' = k" by (simp add: ownership_key_def)
  show "safe A (replace (rn_authority R) k' g (ownership_to_vec (rn_codec R) (r\<lparr>ow_mutation := u\<rparr>))) (\<lambda>_. A)"
    by (rule safe_replace [OF assms(1)], unfold k', rule legal_owner, assumption, rule codec, rule assms(3)) (auto simp: swaps_def)
qed (rule safe_ret)

lemma safe_save_activation:
  assumes "stable A" "owner_path (rn_crypto R) (storage_key (ow_actor r)) = Ok k"
    and "\<And>s u. A s \<Longrightarrow> owners_ok (rn_codec R) (rn_crypto R) s \<Longrightarrow> map_option obj_generation (s k) = g \<Longrightarrow>
      owner_change (rn_codec R) (rn_crypto R) k s (r\<lparr>ow_mutation := u\<rparr>)"
  shows "safe A (save_activation R r g) (\<lambda>_. A)"
  unfolding save_activation_def
  by (rule safe_bind [OF safe_replace_activation [OF assms]])
    (auto split: prod.split intro!: safe_bind_lift safe_ret)

lemma owner_change_seen:
  assumes "seen K k g old s" "map_option obj_generation (s k) = Some g"
    "owner_path C (storage_key (ow_actor new)) = Ok k" "base_ok new" "same_activation old new \<or> takes_over old new"
  shows "owner_change K C k s new"
  using seen_now [OF assms(1,2)] assms(3-5) by (auto simp: owner_change_def owner_at_def)

lemma sound_recover_previous:
  assumes "\<And>g r. current = Some (g, r) \<Longrightarrow> base_ok r"
  shows "sound (recover_previous R actor request region current)
    (\<lambda>x. snapshot_ok x \<and> (\<forall>g r. current = Some (g, r) \<longrightarrow> ow_actor r = actor \<and> ow_region r = region \<and>
       (hl_id (ow_lease r) \<noteq> hr_id request \<or> hl_session_id (ow_lease r) \<noteq> hr_session_id request)))"
proof (cases current)
  case None
  then show ?thesis by (simp add: recover_previous_def sound_ret snapshot_ok_def)
next
  case (Some c)
  obtain g r where c: "c = (g, r)" by (cases c)
  show ?thesis
    unfolding recover_previous_def Some c option.case prod.case
    by (rule sound_bind_lift, rule sound_bind_lift, rule sound_seq [OF ops(1)], rule sound_bind_lift,
        rule sound_bind [OF sound_recover_session], rule sound_weaken [OF sound_latest])
      (use assms Some c in \<open>auto simp: result_simps\<close>)
qed

lemma safe_claim_activation:
  assumes v: "validate_actor_key actor = Inr ()"
  shows "safe (loaded_ok (rn_codec R) (rn_crypto R) (storage_key actor) current)
    (claim_activation R actor request region current) (\<lambda>_ _. True)"
proof (cases "\<forall>g r. current = Some (g, r) \<longrightarrow> base_ok r")
  case False
  then show ?thesis by (auto simp: safely_def loaded_ok_def)
next
  case True
  let ?A = "loaded_ok (rn_codec R) (rn_crypto R) (storage_key actor) current"
  let ?C = "rn_crypto R"
  note st = loaded_ok_stable [of "rn_codec R" ?C "storage_key actor" current]
  obtain k where k: "owner_path ?C (storage_key actor) = Inr k"
    using v by (simp add: owner_path_def actor_from_key_storage_key)
  show ?thesis
    unfolding claim_activation_def
  proof (rule safe_bind [OF soundly_safely [OF sound_recover_previous st]], use True in blast,
      rule safe_assume, rule safe_bind_lift, rule safe_bind [OF soundly_safely [OF sound_new_lease st]], rule safe_assume)
    fix recovered epoch and lease :: host_lease
    assume rec: "snapshot_ok recovered \<and> (\<forall>g r. current = Some (g, r) \<longrightarrow> ow_actor r = actor \<and> ow_region r = region \<and>
       (hl_id (ow_lease r) \<noteq> hr_id request \<or> hl_session_id (ow_lease r) \<noteq> hr_session_id request))"
      and epoch: "ok_or (next_epoch current) ''owner epoch overflow'' = Inr epoch"
      and lease: "hl_id lease = hr_id request \<and> hl_session_id lease = hr_session_id request"
    let ?r = "\<lparr>ow_inventory = default_inventory, ow_lease = lease, ow_mutation = [], ow_actor = actor, ow_epoch = epoch,
      ow_region = region, ow_base = map_option ls_reference recovered\<rparr>"
    have base: "base_ok (?r\<lparr>ow_mutation := u\<rparr>)" for u
      using rec by (auto simp: base_ok_def snapshot_ok_def)
    have change: "owner_change (rn_codec R) ?C k s (?r\<lparr>ow_mutation := u\<rparr>)"
      if s: "?A s" and g: "map_option obj_generation (s k) = map_option fst current" for s u
    proof (cases current)
      case None
      with g epoch k base [of u] show ?thesis by (auto simp: owner_change_def next_epoch_def result_simps)
    next
      case (Some c)
      obtain gen r where c: "c = (gen, r)" by (cases c)
      have "takes_over r (?r\<lparr>ow_mutation := u\<rparr>)"
        using rec epoch lease Some c by (auto simp: takes_over_def next_epoch_def result_simps)
      moreover have "seen (rn_codec R) k gen r s" using s Some c k by (auto simp: loaded_ok_def)
      ultimately show ?thesis using owner_change_seen [of "rn_codec R" k gen r s ?C "?r\<lparr>ow_mutation := u\<rparr>"] g Some c k base [of u] by auto
    qed
    show "safe ?A (bindE (save_activation R ?r (map_option fst current)) (\<lambda>record. retE (record, recovered))) (\<lambda>_ _. True)"
      by (rule safe_bind [OF safe_save_activation [OF st]], use k in simp, rule change) (auto intro: safe_ret)
  qed
qed

lemma sound_renew_activation: "sound (renew_activation R actor request inventory) (\<lambda>_. True)"
  unfolding soundly_def renew_activation_def
proof (rule safe_bind [OF safe_load], rule safe_bind_lift)
  fix loaded :: "(int \<times> ownership) option" and x
  assume "ok_or loaded ''actor ownership missing'' = Inr x"
  then obtain g r where x: "loaded = Some (g, r)" "x = (g, r)" by (cases x) (auto simp: result_simps)
  let ?A = "loaded_ok (rn_codec R) (rn_crypto R) (storage_key actor) loaded"
  note st = loaded_ok_stable [of "rn_codec R" "rn_crypto R" "storage_key actor" loaded]
  show "safe ?A (case x of (generation, record) \<Rightarrow>
     bindE (liftE (ensure (ow_actor record = actor \<and> hl_id (ow_lease record) = hr_id request \<and>
         hl_session_id (ow_lease record) = hr_session_id request) ''actor ownership changed'')) (\<lambda>_.
     bindE (rn_clock R) (\<lambda>now.
     bindE (liftE (ensure (now < hl_expires_at_ms (ow_lease record)) ''expired activation cannot renew'')) (\<lambda>_.
     bindE (liftE (ensure (hl_route (ow_lease record) = hr_route request) ''activation route cannot change'')) (\<lambda>_.
     bindE (new_lease R request) (\<lambda>lease.
     bindE (save_activation R (record\<lparr>ow_lease := lease, ow_inventory := inventory\<rparr>) (Some generation)) (\<lambda>_.
     retE lease))))))) (\<lambda>_ _. True)"
    unfolding x(2) prod.case
  proof (rule safe_bind_lift, rule safe_bind [OF soundly_safely [OF ops(1) st]], rule safe_assume, rule safe_bind_lift,
      rule safe_bind_lift, rule safe_bind [OF soundly_safely [OF sound_new_lease st]], rule safe_assume)
    fix u and lease :: host_lease
    assume id: "ensure (ow_actor r = actor \<and> hl_id (ow_lease r) = hr_id request \<and>
        hl_session_id (ow_lease r) = hr_session_id request) ''actor ownership changed'' = Inr u"
      and lease: "hl_id lease = hr_id request \<and> hl_session_id lease = hr_session_id request"
    let ?r = "r\<lparr>ow_lease := lease, ow_inventory := inventory\<rparr>"
    show "safe ?A (bindE (save_activation R ?r (Some g)) (\<lambda>_. retE lease)) (\<lambda>_ _. True)"
    proof (cases "\<exists>k. owner_path (rn_crypto R) (storage_key (ow_actor r)) = Inr k \<and> base_ok r")
      case False
      then have "\<not> ?A s" for s using x(1) by (auto simp: loaded_ok_def)
      then show ?thesis by (simp add: safely_def)
    next
      case True
      then obtain k where k: "owner_path (rn_crypto R) (storage_key (ow_actor r)) = Inr k" "base_ok r" by blast
      have "owner_change (rn_codec R) (rn_crypto R) k s (?r\<lparr>ow_mutation := u\<rparr>)"
        if "?A s" "map_option obj_generation (s k) = Some g" for s u
        by (rule owner_change_seen [of _ k g r])
          (use that x(1) k id lease in \<open>auto simp: loaded_ok_def base_ok_def same_activation_def result_simps\<close>)
      then show ?thesis
        by (intro safe_bind [OF safe_save_activation [OF st]]) (use k in \<open>auto intro: safe_ret\<close>)
    qed
  qed
qed

lemma sound_release_activation: "sound (release_activation R actor host session) (\<lambda>_. True)"
proof -
  have round: "sound (release_round R actor host session) (\<lambda>_. True)"
    unfolding soundly_def release_round_def
  proof (rule safe_bind [OF safe_load])
    fix loaded :: "(int \<times> ownership) option"
    let ?A = "loaded_ok (rn_codec R) (rn_crypto R) (storage_key actor) loaded"
    note st = loaded_ok_stable [of "rn_codec R" "rn_crypto R" "storage_key actor" loaded]
    show "safe ?A (case loaded of None \<Rightarrow> retE True
     | Some (generation, record) \<Rightarrow>
         if hl_id (ow_lease record) \<noteq> host \<or> hl_session_id (ow_lease record) \<noteq> session \<or>
            hl_expires_at_ms (ow_lease record) = 0 then retE True
         else
           bindE (replace_activation R (record\<lparr>ow_lease := (ow_lease record)\<lparr>hl_expires_at_ms := 0\<rparr>\<rparr>)
             (Some generation)) (\<lambda>(_, replaced). retE replaced)) (\<lambda>_ _. True)"
    proof (cases "\<exists>g r k. loaded = Some (g, r) \<and> owner_path (rn_crypto R) (storage_key (ow_actor r)) = Inr k \<and> base_ok r")
      case False
      then have "loaded = None \<or> (\<forall>s. \<not> ?A s)" by (cases loaded) (auto simp: loaded_ok_def)
      then show ?thesis by (auto simp: safe_ret) (auto simp: safely_def)
    next
      case True
      then obtain g r k where x: "loaded = Some (g, r)" and k: "owner_path (rn_crypto R) (storage_key (ow_actor r)) = Inr k" "base_ok r"
        by blast
      let ?r = "r\<lparr>ow_lease := (ow_lease r)\<lparr>hl_expires_at_ms := 0\<rparr>\<rparr>"
      have "owner_change (rn_codec R) (rn_crypto R) k s (?r\<lparr>ow_mutation := u\<rparr>)"
        if "?A s" "map_option obj_generation (s k) = Some g" for s u
        by (rule owner_change_seen [of _ k g r])
          (use that x(1) k in \<open>auto simp: loaded_ok_def base_ok_def same_activation_def\<close>)
      then have "safe ?A (replace_activation R ?r (Some g)) (\<lambda>_. ?A)"
        by (intro safe_replace_activation [OF st]) (use k in auto)
      then show ?thesis
        unfolding x option.case prod.case
        by (auto intro!: safe_ret safe_bind [where P = "\<lambda>_. ?A"] split: prod.split simp: x)
    qed
  qed
  have "sound (release_rounds R actor host session n) (\<lambda>_. True)" for n
  proof (induction n)
    case 0 show ?case unfolding release_rounds.simps by (rule sound_fail)
  next
    case (Suc n) then show ?case by (auto intro!: sound_seq [OF round] sound_ret)
  qed
  then show ?thesis by (simp add: release_activation_def)
qed

section \<open>Replica membership and history\<close>

lemma sound_register_initial: "sound (register_initial_replicas R scope ts) (\<lambda>_. True)"
  unfolding register_initial_replicas_def Let_def
  by (rule sound_bind_lift, rule sound_seq [OF sound_replace [OF session_key_not_owner]],
      rule sound_seq [of _ _ _ _ _ "\<lambda>_. True"])
    (auto intro!: sound_ret sound_seq [OF sound_b_get] sound_bind_lift sound_lift)

lemma sound_grant: "sound (grantE R operation region object d) (\<lambda>_. True)"
  unfolding grantE_def by (intro sound_seq [OF sound_try [OF ops(2)]] sound_lift) simp

lemma sound_seed_replicas: "sound (seed_replicas R T sid ts previous newest) (\<lambda>_. True)"
proof -
  have w: "sound (seed_write R T plan b t) (\<lambda>_. True)" for plan b t
    unfolding seed_write_def by (intro sound_seq [OF sound_grant] sound_bind_lift sound_seq [OF ops(5)] sound_ret) simp
  show ?thesis
    unfolding seed_replicas_def
    by (intro sound_seq [OF sound_join_replicas [OF ops(6)]] sound_bind_lift sound_option sound_ret sound_prod
        sound_seq [OF sound_join [OF w]]) simp_all
qed

lemma sound_replace_replicas: "sound (replace_replicas R T scope ts newest) (\<lambda>_. True)"
  unfolding replace_replicas_def Let_def
  by (intro sound_bind_lift sound_seq [OF sound_b_get] sound_seq [OF sound_seed_replicas]
      sound_seq [OF sound_save_session] sound_ret) simp

lemma sound_stored_versions: "sound (stored_versions R actor) (\<lambda>vs. \<forall>v \<in> set vs. snapshot_name (snd v))"
proof -
  have sub: "set (retain_new seen vs) \<subseteq> set vs" for seen vs
    by (induction seen vs rule: retain_new.induct) auto
  show ?thesis
    unfolding stored_versions_def
  proof (rule sound_bind_lift, rule sound_bind [OF sound_b_list], rule sound_ret, rule ballI)
    fix p keys v
    assume p: "snapshots (rn_crypto R) actor = Inr p" "\<forall>k \<in> set keys. starts_with k p"
      and v: "v \<in> set (retain_new {} (sort_versions (List.map_filter (\<lambda>key. case snapshot_position key of
            Some position \<Rightarrow>
              if is_ok (validate_snapshot_object_name (rn_crypto R) actor (snd position) key)
              then Some (position, key) else None
          | None \<Rightarrow> None) keys)))"
    have "snapshot_name p" using p(1) by (rule snapshots_name)
    moreover have "snd v \<in> set keys"
      using subsetD [OF sub v] by (auto simp: sort_versions_def dest!: map_filter_mem split: option.splits if_splits)
    ultimately show "snapshot_name (snd v)" using p(2) by (auto intro: snapshot_name_prefix)
  qed
qed

lemma sound_read_stored_state: "sound (read_stored_state R key) (\<lambda>_. True)"
  unfolding read_stored_state_def by (intro sound_seq [OF sound_b_get] sound_option sound_bind_lift sound_ret) simp_all

lemma sound_history_record: "snapshot_name key \<Longrightarrow> sound (history_record R key) (\<lambda>_. True)"
proof -
  assume "snapshot_name key"
  then have "snapshot_name (key @ ''.metadata'')" by (rule snapshot_name_prefix) simp
  then have "sound (cache_history_record R (key @ ''.metadata'') rec) (\<lambda>_. True)" for rec
    unfolding cache_history_record_def by (intro sound_seq [OF sound_replace] sound_ret) (auto dest: snapshot_not_owner)
  note cache = sound_try [OF this]
  show ?thesis
    unfolding history_record_def Let_def
    by (intro sound_seq [OF sound_b_get] sound_option sound_bind_lift sound_ret sound_seq [OF sound_read_stored_state]
        sound_seq [OF cache]) simp_all
qed

lemma sound_inspect_state: "sound (inspect_state R actor version) (\<lambda>_. True)"
  unfolding inspect_state_def
  by (intro sound_seq [OF sound_stored_versions] sound_option sound_ret sound_prod sound_read_stored_state) simp

lemma sound_state_history: "sound (state_history R actor before limit) (\<lambda>_. True)"
  unfolding state_history_def
proof (rule sound_bind [OF sound_stored_versions], rule sound_prod)
  fix versions page has_more
  assume v: "\<forall>v \<in> set versions. snapshot_name (snd v)" and page: "history_page before limit versions = (page, has_more)"
  then have "\<forall>v \<in> set page. snapshot_name (snd v)"
    by (fastforce simp: history_page_def Let_def dest: in_set_takeD)
  then have "sound (forE page (\<lambda>v. history_record R (snd v))) (list_all (\<lambda>_. True))"
    by (intro sound_for sound_history_record) simp
  then show "sound (bindE (forE page (\<lambda>v. history_record R (snd v))) (\<lambda>records.
     let records = List.map_filter id records in
     retE \<lparr>hp_records = records,
       hp_next_before = (if has_more \<and> records \<noteq> [] then Some (sre_state_version (last records)) else None)\<rparr>)) (\<lambda>_. True)"
    by (rule sound_seq) (simp add: Let_def sound_ret)
qed

end

section \<open>A system of storages\<close>

text \<open>Computations on the memory of a process and the environment.\<close>

definition env_objs :: "('e \<Rightarrow> objects) \<Rightarrow> 'e runtime_storage \<Rightarrow> objects" where
  "env_objs objs s = objs (sto_env s)"

definition env_wf :: "('e \<Rightarrow> bool) \<Rightarrow> 'e runtime_storage \<Rightarrow> bool" where
  "env_wf W s \<longleftrightarrow> W (sto_env s)"

lemma safe_env:
  "safely objs W K C A m P \<Longrightarrow> safely (env_objs objs) (env_wf W) K C A (envE m) P"
  unfolding safely_def env_objs_def env_wf_def envE_def by (fastforce simp: eff_simps)

lemma sound_env: "soundly objs W K C m P \<Longrightarrow> soundly (env_objs objs) (env_wf W) K C (envE m) P"
  unfolding soundly_def by (rule safe_env)

lemma sound_memory:
  "(\<And>s. sto_env (f s) = sto_env s) \<Longrightarrow> soundly (env_objs objs) (env_wf W) K C (modE f) (\<lambda>_. True)"
  by (auto simp: soundly_def safely_def env_objs_def env_wf_def)

lemma sound_remember: "soundly (env_objs objs) (env_wf W) K C (remember r x) (\<lambda>_. True)"
  unfolding remember_def by (intro sound_seq [OF sound_memory] sound_ret) simp_all

datatype runtime_call =
    CRegister actor_key host_lease_request string bool
  | CRenew actor_key host_lease_request activation_inventory
  | CRelease actor_key host_id string
  | CActivate actor_key host_lease string
  | CLoadOwned actor_key host_lease u64
  | CRetire replica_scope
  | CInitialReplicas replica_scope "replica_target list"
  | CReplaceReplicas replica_scope "replica_target list" "(write_plan \<times> bytes) option"
  | CEnable replica_membership
  | CSuspend replica_scope
  | CPrepare actor_key host_lease u64 u64
  | CWrite write_plan bytes
  | CGetOwner storage_key
  | CGet storage_key
  | CRead string string
  | CInspect actor_key "u64 option"
  | CHistory actor_key "u64 option" nat

fun runtime_step :: "'e runtime \<Rightarrow> 'e state_transport \<Rightarrow> runtime_call \<Rightarrow> 'e runtime_storage \<Rightarrow> 'e runtime_storage" where
  "runtime_step R T (CRegister actor request region new_actor) s = snd (register_activation R actor request region new_actor s)"
| "runtime_step R T (CRenew actor request inventory) s = snd (envE (renew_activation R actor request inventory) s)"
| "runtime_step R T (CRelease actor host session) s = snd (envE (release_activation R actor host session) s)"
| "runtime_step R T (CActivate actor lease region) s = snd (activate_actor R actor lease region s)"
| "runtime_step R T (CLoadOwned actor lease epoch) s = snd (load_owned_actor R actor lease epoch s)"
| "runtime_step R T (CRetire scope) s = snd (envE (retire_replication R scope) s)"
| "runtime_step R T (CInitialReplicas scope ts) s = snd (envE (register_initial_replicas R scope ts) s)"
| "runtime_step R T (CReplaceReplicas scope ts newest) s = snd (envE (replace_replicas R T scope ts newest) s)"
| "runtime_step R T (CEnable membership) s = snd (enable_replication R membership s)"
| "runtime_step R T (CSuspend scope) s = snd (suspend_replication R scope s)"
| "runtime_step R T (CPrepare actor lease epoch version) s = snd (prepare_actor_write R actor lease epoch version s)"
| "runtime_step R T (CWrite plan bytes) s = snd (envE (write_snapshot R plan bytes) s)"
| "runtime_step R T (CGetOwner key) s = snd (envE (get_owner R key) s)"
| "runtime_step R T (CGet key) s = snd (envE (get_placement R key) s)"
| "runtime_step R T (CRead region object) s = snd (envE (read_snapshot R region object) s)"
| "runtime_step R T (CInspect actor version) s = snd (envE (inspect_state R actor version) s)"
| "runtime_step R T (CHistory actor before limit) s = snd (envE (state_history R actor before limit) s)"

text \<open>Writes use plans for streams of snapshots, as \<open>prepare_actor_write\<close> makes them.\<close>

fun call_ok :: "runtime_call \<Rightarrow> bool" where
  "call_ok (CWrite plan bytes) = snapshot_name (rs_prefix (wp_stream plan))"
| "call_ok _ = True"

context runtime_env
begin

abbreviation sound_storage :: "('e runtime_storage, 'a) eff \<Rightarrow> ('a \<Rightarrow> bool) \<Rightarrow> bool" where
  "sound_storage \<equiv> soundly (env_objs objs) (env_wf wf) (rn_codec R) (rn_crypto R)"

lemma sound_load_actor: "base_ok r \<Longrightarrow> sound_storage (load_actor R r) (\<lambda>_. True)"
  unfolding load_actor_def by (intro sound_seq [OF sound_env [OF sound_latest]] sound_remember) (simp_all add: snapshot_ok_def)

lemma sound_activate_actor: "sound_storage (activate_actor R actor lease region) (\<lambda>_. True)"
  unfolding activate_actor_def
  by (rule sound_bind [OF sound_env [OF sound_load]], rule sound_bind_lift, rule sound_prod, rule sound_bind_lift,
      rule sound_load_actor) (auto simp: result_simps)

lemma sound_load_owned_actor: "sound_storage (load_owned_actor R actor lease epoch) (\<lambda>_. True)"
  unfolding load_owned_actor_def
  by (rule sound_bind [OF sound_env [OF sound_load]], rule sound_bind_lift, rule sound_prod, rule sound_bind_lift,
      rule sound_load_actor) (auto simp: result_simps)

lemma sound_register_activation: "sound_storage (register_activation R actor request region new_actor) (\<lambda>_. True)"
  unfolding register_activation_def
proof (rule sound_bind_lift, rule sound_bind_lift, rule sound_bind_lift)
  fix u assume v: "validate_actor_key actor = Inr u"
  let ?A = "loaded_ok (rn_codec R) (rn_crypto R) (storage_key actor)"
  have "safely (env_objs objs) (env_wf wf) (rn_codec R) (rn_crypto R) (\<lambda>_. True)
      (if new_actor then retE None else envE (load R (storage_key actor))) ?A"
    using safe_env [OF safe_load] by (auto simp: loaded_ok_def intro: safe_ret)
  moreover have "safely (env_objs objs) (env_wf wf) (rn_codec R) (rn_crypto R) (?A current)
      (bindE (envE (claim_activation R actor request region current)) (\<lambda>(record, recovered). remember record recovered)) (\<lambda>_ _. True)" for current
    by (rule safe_bind [OF safe_env [OF safe_claim_activation]])
      (use v sound_remember in \<open>auto simp: soundly_def split: prod.split\<close>)
  ultimately show "sound_storage (bindE (if new_actor then retE None else envE (load R (storage_key actor))) (\<lambda>current.
     bindE (envE (claim_activation R actor request region current)) (\<lambda>(record, recovered). remember record recovered))) (\<lambda>_. True)"
    unfolding soundly_def by (rule safe_bind)
qed

lemma sound_prepare_actor_write: "sound_storage (prepare_actor_write R actor lease epoch version) (\<lambda>_. True)"
proof -
  have "sound (make_write_plan R rec version ts) (\<lambda>_. True)" for rec ts
    unfolding make_write_plan_def Let_def by (intro sound_bind_lift sound_seq [OF sound_grant] sound_ret) simp
  from sound_env [OF this] show ?thesis
    unfolding prepare_actor_write_def
    by (intro sound_seq [OF sound_get [of "\<lambda>_. True"]] sound_bind_lift) simp_all
qed

lemma sound_read_snapshot: "sound (read_snapshot R region object) (\<lambda>_. True)"
  unfolding read_snapshot_def by (intro sound_seq [OF sound_grant] sound_fetch_snapshot)

lemma sound_enable_replication: "sound_storage (enable_replication R membership) (\<lambda>_. True)"
  unfolding enable_replication_def
  by (intro sound_seq [OF sound_get [of "\<lambda>_. True"]] sound_bind_lift sound_memory) simp_all

lemma sound_suspend_replication: "sound_storage (suspend_replication R scope) (\<lambda>_. True)"
  unfolding suspend_replication_def by (rule sound_memory) simp

lemma sound_snd:
  assumes "sound_storage m P" "wf (sto_env s)" "owners_ok (rn_codec R) (rn_crypto R) (objs (sto_env s))"
  shows "wf (sto_env (snd (m s))) \<and> moves (rn_codec R) (rn_crypto R) (objs (sto_env s)) (objs (sto_env (snd (m s))))"
  using assms unfolding soundly_def safely_def env_objs_def env_wf_def by (metis prod.collapse)

lemma step_moves:
  assumes "call_ok call" "wf (sto_env s)" "owners_ok (rn_codec R) (rn_crypto R) (objs (sto_env s))"
  shows "wf (sto_env (runtime_step R T call s)) \<and>
    moves (rn_codec R) (rn_crypto R) (objs (sto_env s)) (objs (sto_env (runtime_step R T call s)))"
  using assms
  by (cases call)
    (simp_all add: sound_snd [OF sound_register_activation] sound_snd [OF sound_env [OF sound_renew_activation]]
      sound_snd [OF sound_env [OF sound_release_activation]] sound_snd [OF sound_activate_actor]
      sound_snd [OF sound_load_owned_actor] sound_snd [OF sound_env [OF sound_retire_replication]]
      sound_snd [OF sound_env [OF sound_register_initial]] sound_snd [OF sound_env [OF sound_replace_replicas]]
      sound_snd [OF sound_enable_replication] sound_snd [OF sound_suspend_replication]
      sound_snd [OF sound_prepare_actor_write] sound_snd [OF sound_env [OF sound_write_snapshot]]
      sound_snd [OF sound_env [OF sound_get_owner]] sound_snd [OF sound_env [OF sound_get_placement]]
      sound_snd [OF sound_env [OF sound_read_snapshot]] sound_snd [OF sound_env [OF sound_inspect_state]]
      sound_snd [OF sound_env [OF sound_state_history]])

end

text \<open>Many processes with their own memory on one environment; each call names its process.\<close>

type_synonym memory = "(storage_key \<rightharpoonup> ownership) \<times> (string \<rightharpoonup> replica_target list)"

definition system_step ::
    "'e runtime \<Rightarrow> 'e state_transport \<Rightarrow> nat \<times> runtime_call \<Rightarrow> (nat \<Rightarrow> memory) \<times> 'e \<Rightarrow> (nat \<Rightarrow> memory) \<times> 'e" where
  "system_step R T c sys =
     (case (c, sys) of ((n, call), (mem, e)) \<Rightarrow>
        let s = runtime_step R T call \<lparr>sto_owned = fst (mem n), sto_sessions = snd (mem n), sto_env = e\<rparr>
        in (mem(n := (sto_owned s, sto_sessions s)), sto_env s))"

context runtime_env
begin

lemma system_moves:
  assumes "list_all (call_ok \<circ> snd) calls" "wf (snd sys)" "owners_ok (rn_codec R) (rn_crypto R) (objs (snd sys))"
  shows "wf (snd (fold (system_step R T) calls sys)) \<and>
    moves (rn_codec R) (rn_crypto R) (objs (snd sys)) (objs (snd (fold (system_step R T) calls sys)))"
  using assms
proof (induction calls arbitrary: sys)
  case (Cons c calls)
  obtain n call mem e where c: "c = (n, call)" "sys = (mem, e)" by (cases c, cases sys)
  let ?s = "\<lparr>sto_owned = fst (mem n), sto_sessions = snd (mem n), sto_env = e\<rparr>"
  have e: "snd (system_step R T c sys) = sto_env (runtime_step R T call ?s)"
    by (simp add: system_step_def c Let_def)
  have "wf (sto_env (runtime_step R T call ?s)) \<and> moves (rn_codec R) (rn_crypto R) (objs e) (objs (sto_env (runtime_step R T call ?s)))"
    using step_moves [of call ?s] Cons.prems c by simp
  moreover from this have "owners_ok (rn_codec R) (rn_crypto R) (objs (sto_env (runtime_step R T call ?s)))"
    using moves_owners_ok Cons.prems(3) c by auto
  ultimately show ?case
    using Cons.IH [of "system_step R T c sys"] Cons.prems(1) c(2) e by (auto intro: rtranclp_trans)
qed simp

end

end
