(* ===== verification/Json_Codec.thy ===== *)
theory Json_Codec
  imports Replica_Access
begin

text \<open>
  Concrete instances of the third-party libraries, on which the witnesses evaluate: a serialisation of
  JSON values that reads back what it wrote, the codec of grants over it, and a URL parser for the
  origins and capability URLs the code builds.
\<close>

section \<open>A serialisation of JSON values\<close>

definition enc_string :: "string \<Rightarrow> string" where
  "enc_string s = show_radix 10 (length s) @ '':'' @ s"

fun enc_json :: "json \<Rightarrow> string" where
  "enc_json JNull = ''n''"
| "enc_json (JBool b) = (if b then ''t'' else ''f'')"
| "enc_json (JNum s) = ''d'' @ enc_string s"
| "enc_json (JStr s) = ''s'' @ enc_string s"
| "enc_json (JArr js) = ''a'' @ concat (map enc_json js) @ ''e''"
| "enc_json (JObj ms) = ''o'' @ concat (map (\<lambda>m. ''k'' @ enc_string (fst m) @ enc_json (snd m)) ms) @ ''e''"

definition dec_string :: "string \<Rightarrow> (string \<times> string) option" where
  "dec_string s =
     (case split_once (CHR '':'') s of None \<Rightarrow> None
      | Some (ds, rest) \<Rightarrow>
          (case parse_digits 10 0 ds of None \<Rightarrow> None
           | Some n \<Rightarrow> if n \<le> length rest then Some (take n rest, drop n rest) else None))"

text \<open>The first argument bounds the depth of the recursion.\<close>

fun dec_json :: "nat \<Rightarrow> string \<Rightarrow> (json \<times> string) option"
  and dec_array :: "nat \<Rightarrow> string \<Rightarrow> (json list \<times> string) option"
  and dec_object :: "nat \<Rightarrow> string \<Rightarrow> ((string \<times> json) list \<times> string) option" where
  "dec_json 0 s = None"
| "dec_json (Suc n) s =
     (case s of [] \<Rightarrow> None
      | c # s \<Rightarrow>
          if c = CHR ''n'' then Some (JNull, s)
          else if c = CHR ''t'' then Some (JBool True, s)
          else if c = CHR ''f'' then Some (JBool False, s)
          else if c = CHR ''d'' then map_option (\<lambda>(x, s). (JNum x, s)) (dec_string s)
          else if c = CHR ''s'' then map_option (\<lambda>(x, s). (JStr x, s)) (dec_string s)
          else if c = CHR ''a'' then map_option (\<lambda>(x, s). (JArr x, s)) (dec_array n s)
          else if c = CHR ''o'' then map_option (\<lambda>(x, s). (JObj x, s)) (dec_object n s)
          else None)"
| "dec_array 0 s = None"
| "dec_array (Suc n) s =
     (if starts_with s ''e'' then Some ([], tl s)
      else case dec_json n s of None \<Rightarrow> None
        | Some (j, s) \<Rightarrow> map_option (\<lambda>(js, s). (j # js, s)) (dec_array n s))"
| "dec_object 0 s = None"
| "dec_object (Suc n) s =
     (case s of [] \<Rightarrow> None
      | c # s \<Rightarrow>
          if c = CHR ''e'' then Some ([], s)
          else if c = CHR ''k'' then
            (case dec_string s of None \<Rightarrow> None
             | Some (k, s) \<Rightarrow>
                 (case dec_json n s of None \<Rightarrow> None
                  | Some (j, s) \<Rightarrow> map_option (\<lambda>(ms, s). ((k, j) # ms, s)) (dec_object n s)))
          else None)"

definition parse_json :: "string \<Rightarrow> json option" where
  "parse_json s = (case dec_json (length s) s of Some (j, []) \<Rightarrow> Some j | _ \<Rightarrow> None)"

lemma dec_enc_string [simp]: "dec_string (enc_string s @ r) = Some (s, r)"
proof -
  have "CHR '':'' \<notin> set (show_radix 10 (length s))"
    using show_hex_digits(1) by (force simp: is_hexdigit_def is_digit_def)
  then have "split_once (CHR '':'') (show_radix 10 (length s) @ CHR '':'' # s @ r) =
      Some (show_radix 10 (length s), s @ r)"
    by (rule split_once_append)
  then show ?thesis by (simp add: dec_string_def enc_string_def parse_show_radix)
qed

lemma enc_json_start: "enc_json j \<noteq> []" "\<not> starts_with (enc_json j @ r) ''e''"
  by (cases j; simp)+

lemma length_enc_json: "0 < length (enc_json j)"
  using enc_json_start(1) by simp

lemma dec_enc_array:
  assumes "\<And>j n r. j \<in> set js \<Longrightarrow> length (enc_json j) \<le> n \<Longrightarrow> dec_json n (enc_json j @ r) = Some (j, r)"
    and "length (concat (map enc_json js)) < n"
  shows "dec_array n (concat (map enc_json js) @ CHR ''e'' # r) = Some (js, r)"
  using assms
proof (induction js arbitrary: n)
  case Nil then show ?case by (cases n) simp_all
next
  case (Cons j js)
  obtain k where n: "n = Suc k" using Cons.prems(2) by (cases n) simp_all
  have "dec_json k (enc_json j @ concat (map enc_json js) @ CHR ''e'' # r) =
      Some (j, concat (map enc_json js) @ CHR ''e'' # r)"
    using Cons.prems n by simp
  moreover have "dec_array k (concat (map enc_json js) @ CHR ''e'' # r) = Some (js, r)"
    using Cons n length_enc_json [of j] by (simp del: length_0_conv length_greater_0_conv)
  ultimately show ?case
    using enc_json_start(2) [of j "concat (map enc_json js) @ CHR ''e'' # r"] by (simp add: n)
qed

lemma dec_enc_object:
  assumes "\<And>j n r. j \<in> snd ` set ms \<Longrightarrow> length (enc_json j) \<le> n \<Longrightarrow> dec_json n (enc_json j @ r) = Some (j, r)"
    and "length (concat (map (\<lambda>m. ''k'' @ enc_string (fst m) @ enc_json (snd m)) ms)) < n"
  shows "dec_object n (concat (map (\<lambda>m. ''k'' @ enc_string (fst m) @ enc_json (snd m)) ms) @ CHR ''e'' # r) = Some (ms, r)"
  using assms
proof (induction ms arbitrary: n)
  case Nil then show ?case by (cases n) simp_all
next
  case (Cons m ms)
  let ?rest = "concat (map (\<lambda>m. ''k'' @ enc_string (fst m) @ enc_json (snd m)) ms) @ CHR ''e'' # r"
  obtain i where n: "n = Suc i" using Cons.prems(2) by (cases n) simp_all
  have "dec_json i (enc_json (snd m) @ ?rest) = Some (snd m, ?rest)"
    using Cons.prems(1) [of "snd m" i ?rest] Cons.prems(2) n by simp
  moreover have "dec_object i ?rest = Some (ms, r)"
    using Cons.IH [of i] Cons.prems n by simp
  ultimately show ?case by (simp add: n)
qed

lemma dec_enc_json: "length (enc_json j) \<le> n \<Longrightarrow> dec_json n (enc_json j @ r) = Some (j, r)"
proof (induction j arbitrary: n r)
  case (JArr js)
  obtain k where n: "n = Suc k" using JArr.prems by (cases n) simp_all
  have "dec_array k (concat (map enc_json js) @ CHR ''e'' # r) = Some (js, r)"
    by (rule dec_enc_array) (use JArr n in auto)
  then show ?case by (simp add: n)
next
  case (JObj ms)
  obtain k where n: "n = Suc k" using JObj.prems by (cases n) simp_all
  have "dec_object k (concat (map (\<lambda>m. ''k'' @ enc_string (fst m) @ enc_json (snd m)) ms) @ CHR ''e'' # r) = Some (ms, r)"
    by (rule dec_enc_object) (use JObj n in \<open>auto intro: JObj.IH\<close>)
  then show ?case by (simp add: n)
qed (case_tac n; auto split: if_splits)+

lemma parse_enc_json [simp]: "parse_json (enc_json j) = Some j"
  using dec_enc_json [of j "length (enc_json j)" "[]"] by (simp add: parse_json_def)

section \<open>Encoding the fields of records\<close>

definition num_json :: "u64 \<Rightarrow> json" where "num_json n = JNum (show_u64 n)"

fun json_num :: "json \<Rightarrow> u64 option" where
  "json_num (JNum s) = parse_u64 10 s"
| "json_num _ = None"

fun json_str :: "json \<Rightarrow> string option" where
  "json_str (JStr s) = Some s"
| "json_str _ = None"

fun json_bool :: "json \<Rightarrow> bool option" where
  "json_bool (JBool b) = Some b"
| "json_bool _ = None"

fun json_arr :: "json \<Rightarrow> json list option" where
  "json_arr (JArr js) = Some js"
| "json_arr _ = None"

definition opt_json :: "('a \<Rightarrow> json) \<Rightarrow> 'a option \<Rightarrow> json" where
  "opt_json f x = (case x of None \<Rightarrow> JArr [] | Some y \<Rightarrow> JArr [f y])"

definition json_opt :: "(json \<Rightarrow> 'a option) \<Rightarrow> json \<Rightarrow> 'a option option" where
  "json_opt f j = (case j of JArr [] \<Rightarrow> Some None | JArr [x] \<Rightarrow> map_option Some (f x) | _ \<Rightarrow> None)"

fun all_some :: "'a option list \<Rightarrow> 'a list option" where
  "all_some [] = Some []"
| "all_some (x # xs) = (case x of None \<Rightarrow> None | Some y \<Rightarrow> map_option ((#) y) (all_some xs))"

definition list_json :: "('a \<Rightarrow> json) \<Rightarrow> 'a list \<Rightarrow> json" where
  "list_json f xs = JArr (map f xs)"

definition json_list :: "(json \<Rightarrow> 'a option) \<Rightarrow> json \<Rightarrow> 'a list option" where
  "json_list f j = (case json_arr j of None \<Rightarrow> None | Some js \<Rightarrow> all_some (map f js))"

lemma json_num_num [simp]: "json_num (num_json n) = Some n"
  by (simp add: num_json_def parse_show_u64)

lemma json_opt_opt [simp]: "(\<And>y. f (g y) = Some y) \<Longrightarrow> json_opt f (opt_json g x) = Some x"
  by (cases x) (simp_all add: json_opt_def opt_json_def)

lemma json_list_list [simp]: "(\<And>y. f (g y) = Some y) \<Longrightarrow> json_list f (list_json g xs) = Some xs"
  by (induction xs) (simp_all add: json_list_def list_json_def)

definition stream_json :: "replica_stream \<Rightarrow> json" where
  "stream_json s = JArr [JStr (rs_session s), JStr (rs_prefix s), num_json (rs_owner_epoch s), num_json (rs_base_version s)]"

definition json_stream :: "json \<Rightarrow> replica_stream option" where
  "json_stream j =
     (case j of
        JArr [a, b, c, d] \<Rightarrow>
          (case (json_str a, json_str b, json_num c, json_num d) of
             (Some a, Some b, Some c, Some d) \<Rightarrow>
               Some \<lparr>rs_session = a, rs_prefix = b, rs_owner_epoch = c, rs_base_version = d\<rparr>
           | _ \<Rightarrow> None)
      | _ \<Rightarrow> None)"

definition grant_json :: "replica_grant \<Rightarrow> json" where
  "grant_json g = JArr [opt_json stream_json (gr_stream g), JStr (gr_operation g), JStr (gr_object g),
     JStr (gr_region g), JStr (gr_host_id g), num_json (gr_expires_at_ms g)]"

definition json_grant :: "json \<Rightarrow> replica_grant option" where
  "json_grant j =
     (case j of
        JArr [a, b, c, d, e, f] \<Rightarrow>
          (case (json_opt json_stream a, json_str b, json_str c, json_str d, json_str e, json_num f) of
             (Some a, Some b, Some c, Some d, Some e, Some f) \<Rightarrow>
               Some \<lparr>gr_stream = a, gr_operation = b, gr_object = c, gr_region = d, gr_host_id = e, gr_expires_at_ms = f\<rparr>
           | _ \<Rightarrow> None)
      | _ \<Rightarrow> None)"

lemma json_stream_stream [simp]: "json_stream (stream_json s) = Some s"
  by (simp add: json_stream_def stream_json_def)

lemma json_grant_grant [simp]: "json_grant (grant_json g) = Some g"
  by (simp add: json_grant_def grant_json_def)

definition demo_grants :: grant_codec where
  "demo_grants = \<lparr>grant_to_vec = (\<lambda>g. enc_json (grant_json g)),
     grant_from_slice = (\<lambda>b. Option.bind (parse_json b) json_grant)\<rparr>"

lemma demo_grants_laws: "grant_codec_laws demo_grants"
  by (simp add: grant_codec_laws_def demo_grants_def enc_json_start)

section \<open>URLs\<close>

definition url_char :: "char \<Rightarrow> bool" where
  "url_char c \<longleftrightarrow> token_char c \<or> c = CHR '':''"

text \<open>Only origins, optionally with a query, and only the schemes of the code.\<close>

definition split_query :: "string \<Rightarrow> string \<times> string option" where
  "split_query s = (case split_once (CHR 0x3F) s of None \<Rightarrow> (s, None) | Some (a, q) \<Rightarrow> (a, Some q))"

definition drop_slash :: "string \<Rightarrow> string" where
  "drop_slash s = (case strip_suffix s ''/'' of Some a \<Rightarrow> a | None \<Rightarrow> s)"

definition special :: "string \<Rightarrow> bool" where
  "special sch \<longleftrightarrow> sch = ''http'' \<or> sch = ''https''"

definition demo_url_parse :: "string \<Rightarrow> url option" where
  "demo_url_parse s =
     (case split_once (CHR '':'') s of None \<Rightarrow> None
      | Some (sch, rest) \<Rightarrow>
          (case strip_prefix rest ''//'' of None \<Rightarrow> None
           | Some rest \<Rightarrow>
               (case split_query rest of (a, q) \<Rightarrow>
                  let auth = drop_slash a in
                  if (special sch \<or> sch = ''grpc'' \<or> sch = ''grpcs'') \<and> auth \<noteq> [] \<and> list_all url_char auth
                  then Some \<lparr>url_scheme = sch, url_username = [], url_password = None, url_host = Some auth,
                    url_path = (if special sch then ''/'' else []), url_query = q, url_fragment = None\<rparr>
                  else None)))"

definition demo_url_str :: "url \<Rightarrow> string" where
  "demo_url_str u = url_scheme u @ ''://'' @ (case url_host u of Some h \<Rightarrow> h | None \<Rightarrow> []) @ url_path u @
     (case url_query u of Some q \<Rightarrow> CHR 0x3F # q | None \<Rightarrow> [])"

definition demo_url :: url_lib where
  "demo_url = \<lparr>url_parse = demo_url_parse, url_as_str = demo_url_str,
     url_origin = (\<lambda>u. url_scheme u @ ''://'' @ (case url_host u of Some h \<Rightarrow> h | None \<Rightarrow> [])),
     query_pairs = (\<lambda>u. case url_query u of None \<Rightarrow> []
       | Some q \<Rightarrow> (case split_once (CHR ''='') q of None \<Rightarrow> [(q, [])] | Some (k, v) \<Rightarrow> [(k, v)])),
     uri_ok = (\<lambda>_. True)\<rparr>"

lemma url_char_special: "url_char c \<Longrightarrow> c \<noteq> CHR 0x3F \<and> c \<noteq> CHR ''/''"
  using token_char_def by (auto simp: url_char_def token_char_def b64_char_def is_alphanumeric_def
      is_digit_def is_lower_def is_upper_def)

lemma url_char_query: "list_all url_char a \<Longrightarrow> split_once (CHR 0x3F) (a @ CHR 0x3F # q) = Some (a, q)"
  using url_char_special by (intro split_once_append) (auto simp: list_all_iff)

lemma split_once_None: "c \<notin> set s \<Longrightarrow> split_once c s = None"
  by (induction s) auto

lemma url_char_no_query: "list_all url_char a \<Longrightarrow> split_once (CHR 0x3F) a = None"
  using url_char_special by (intro split_once_None) (auto simp: list_all_iff)

lemma drop_slash_none: "list_all url_char a \<Longrightarrow> drop_slash a = a"
proof -
  assume a: "list_all url_char a"
  then have "CHR ''/'' \<notin> set a" using url_char_special by (auto simp: list_all_iff)
  then have "\<not> suffix ''/'' a" by (auto simp: suffix_def)
  then show ?thesis by (simp add: drop_slash_def strip_suffix_def)
qed

lemma demo_url_parse_auth:
  assumes "list_all url_char a" "a \<noteq> []" "special sch \<or> sch = ''grpc'' \<or> sch = ''grpcs''"
  shows "demo_url_parse (sch @ ''://'' @ a) = Some \<lparr>url_scheme = sch, url_username = [], url_password = None,
      url_host = Some a, url_path = (if special sch then ''/'' else []), url_query = None, url_fragment = None\<rparr>"
    "demo_url_parse (sch @ ''://'' @ a @ ''/'') = Some \<lparr>url_scheme = sch, url_username = [], url_password = None,
      url_host = Some a, url_path = (if special sch then ''/'' else []), url_query = None, url_fragment = None\<rparr>"
    "demo_url_parse (sch @ ''://'' @ a @ CHR 0x3F # q) = Some \<lparr>url_scheme = sch, url_username = [],
      url_password = None, url_host = Some a, url_path = (if special sch then ''/'' else []), url_query = Some q,
      url_fragment = None\<rparr>"
proof -
  have split: "split_once (CHR '':'') (sch @ ''://'' @ r) = Some (sch, ''//'' @ r)" for r
    using assms(3) split_once_append [of "CHR '':''" sch "''//'' @ r"] by (auto simp: special_def)
  have slash: "split_once (CHR 0x3F) (a @ ''/'') = None"
    using assms(1) url_char_special by (intro split_once_None) (auto simp: list_all_iff)
  have d: "drop_slash (a @ ''/'') = a" by (simp add: drop_slash_def)
  show "demo_url_parse (sch @ ''://'' @ a) = Some \<lparr>url_scheme = sch, url_username = [], url_password = None,
      url_host = Some a, url_path = (if special sch then ''/'' else []), url_query = None, url_fragment = None\<rparr>"
    unfolding demo_url_parse_def split
    using assms by (simp add: split_query_def url_char_no_query drop_slash_none)
  show "demo_url_parse (sch @ ''://'' @ a @ ''/'') = Some \<lparr>url_scheme = sch, url_username = [], url_password = None,
      url_host = Some a, url_path = (if special sch then ''/'' else []), url_query = None, url_fragment = None\<rparr>"
    unfolding demo_url_parse_def split using assms by (simp add: split_query_def slash d)
  show "demo_url_parse (sch @ ''://'' @ a @ CHR 0x3F # q) = Some \<lparr>url_scheme = sch, url_username = [],
      url_password = None, url_host = Some a, url_path = (if special sch then ''/'' else []), url_query = Some q,
      url_fragment = None\<rparr>"
    unfolding demo_url_parse_def split
    using assms by (simp add: split_query_def url_char_query drop_slash_none)
qed

lemma demo_url_parse_host:
  "demo_url_parse s = Some u \<Longrightarrow> \<exists>a. url_host u = Some a \<and> a \<noteq> [] \<and> list_all url_char a"
  by (auto simp: demo_url_parse_def Let_def split: option.splits prod.splits if_splits)

lemma demo_url_laws: "url_laws demo_url"
  unfolding url_laws_def
proof (intro allI impI)
  fix s u assume u: "url_parse demo_url s = Some u" "only_origin u" "url_scheme u = ''http'' \<or> url_scheme u = ''https''"
  then obtain a where a: "url_host u = Some a" "a \<noteq> []" "list_all url_char a"
    using demo_url_parse_host by (auto simp: demo_url_def)
  have sp: "special (url_scheme u)" "\<not> special ''grpc''" "\<not> special ''grpcs''" using u(3) by (auto simp: special_def)
  note p = demo_url_parse_auth [OF a(3,2)]
  let ?v = "\<lambda>sch q. \<lparr>url_scheme = sch, url_username = [], url_password = None, url_host = Some a,
    url_path = (if special sch then ''/'' else []), url_query = q, url_fragment = None\<rparr>"
  have origin: "url_origin demo_url u = url_scheme u @ ''://'' @ a" using a(1) by (simp add: demo_url_def)
  have parse: "url_parse demo_url (url_origin demo_url u) = Some (?v (url_scheme u) None)"
    "url_parse demo_url (url_as_str demo_url (?v (url_scheme u) None)) = Some (?v (url_scheme u) None)"
    using p(1,2) [of "url_scheme u"] sp(1) unfolding origin by (simp_all add: demo_url_def demo_url_str_def)
  have "token_url demo_url a g t (?v g (Some (''token='' @ t)))" if "g = ''grpc'' \<or> g = ''grpcs''" for g t
  proof -
    have "url_parse demo_url (g @ ''://'' @ a @ ''?token='' @ t) = Some (?v g (Some (''token='' @ t)))"
      using p(3) [of g "''token='' @ t"] that by (auto simp: demo_url_def)
    moreover have "\<not> special g" using that sp by auto
    moreover have "query_pairs demo_url (?v g (Some (''token='' @ t))) = [(''token'', t)]"
      by (simp add: demo_url_def)
    ultimately show ?thesis unfolding token_url_def by (simp add: demo_url_def demo_url_str_def)
  qed
  then have "origin_laws demo_url u a"
    unfolding origin_laws_def using parse sp(1) origin
    by (intro conjI exI [of _ "?v (url_scheme u) None"]) (auto simp: only_origin_def demo_url_def)
  then show "\<exists>auth. origin_laws demo_url u auth" ..
qed

definition demo_libs :: libs where
  "demo_libs = \<lparr>l_crypto = hex_crypto, l_snapshots = demo_codec, l_url = demo_url, l_grants = demo_grants\<rparr>"

lemma demo_libs_laws: "libs_laws demo_libs"
  by (simp add: libs_laws_def demo_libs_def hex_crypto_laws demo_url_laws demo_grants_laws)

end
