(* ===== verification/Replica_Calls.thy ===== *)
theory Replica_Calls
  imports Replica_Server Json_Codec
begin

text \<open>
  What the handlers and clients of \<open>Replica_Server\<close> guarantee: only capabilities signed for the bound
  activation change a replica host, a spare is assigned once and for all, and a call of a peer client
  that reaches a host is the operation of its store.
\<close>

section \<open>Authorisation\<close>

definition authority :: "libs \<Rightarrow> u64 result \<Rightarrow> string option \<Rightarrow> string \<Rightarrow> replica_host \<Rightarrow> replica_binding \<Rightarrow> replica_grant \<Rightarrow> bool" where
  "authority L now header operation h b g \<longleftrightarrow>
     rh_binding h = Some b \<and>
     (\<exists>t. grpc_token header = Ok t \<and> verify_any L (bd_access b) now t [operation] = Ok g) \<and>
     gr_host_id g = bd_host_id b \<and> in_scope L (bd_scope b) g = Ok True"

lemma authorize_Ok:
  "authorize L now header [operation] h = Inr g \<longleftrightarrow> (\<exists>b. authority L now header operation h b g)"
  by (auto simp: authorize_def authority_def result_simps split: option.splits if_splits)

lemma authority_operation: "authority L now header operation h b g \<Longrightarrow> gr_operation g = operation"
  by (auto simp: authority_def verify_any_def result_simps split: prod.splits)

lemma server_session_Ok:
  "server_session L now header operation h = Inr g \<longleftrightarrow>
     (\<exists>b. authority L now header operation h b g) \<and> gr_stream g = None"
  by (auto simp: server_session_def result_simps authorize_Ok)

section \<open>Calls on a host\<close>

datatype host_call =
    HAssign "string option" replica_assignment
  | HRead "string option"
  | HWrite "string option" bytes
  | HInitialize "string option"
  | HHead "string option"
  | HSeal "string option"

fun host_step :: "libs \<Rightarrow> u64 result \<times> host_call \<Rightarrow> replica_host \<Rightarrow> replica_host" where
  "host_step L (now, HAssign header a) h = snd (assign L header a h)"
| "host_step L (now, HRead header) h = snd (server_read L now header h)"
| "host_step L (now, HWrite header bytes) h = snd (server_write L now header bytes h)"
| "host_step L (now, HInitialize header) h = snd (server_initialize L now header h)"
| "host_step L (now, HHead header) h = snd (server_head L now header h)"
| "host_step L (now, HSeal header) h = snd (server_seal L now header h)"

text \<open>The contents of a store: all but the outcomes of the coming I/O calls.\<close>

definition same_contents :: "replica_store \<Rightarrow> replica_store \<Rightarrow> bool" where
  "same_contents s s' \<longleftrightarrow> s' = s\<lparr>st_faults := st_faults s', st_crashed := st_crashed s'\<rparr>"

lemma same_contents_refl [simp]: "same_contents s s"
  by (simp add: same_contents_def)

lemma same_contents_sessions: "same_contents s s' \<Longrightarrow> st_sessions s' = st_sessions s"
  unfolding same_contents_def by (drule arg_cong [where f = st_sessions]) simp

lemma not_same_contents: "st_sessions s = [] \<Longrightarrow> st_sessions s' \<noteq> [] \<Longrightarrow> \<not> same_contents s s'"
  using same_contents_sessions by fastforce

lemma same_contents_rio: "rio s = (r, s') \<Longrightarrow> same_contents s s'"
  unfolding same_contents_def by (rule rio_cases)

lemma same_contents_read: "store_read C ob s = (r, s') \<Longrightarrow> same_contents s s'"
  by (auto simp: store_read_def read_blob_def bindE_def
      split: option.splits prod.splits sum.splits replica_file.splits dest: same_contents_rio)

lemma same_contents_head: "store_stream_head st s = (r, s') \<Longrightarrow> s' = s"
  by (auto simp: store_stream_head_def bindE_def split: sum.splits)

lemma on_store_eq: "on_store m h = (r, h') \<longleftrightarrow> (\<exists>s. m (rh_store h) = (r, s) \<and> h' = h\<lparr>rh_store := s\<rparr>)"
  by (auto simp: on_store_def eff_simps)

lemma host_self [simp]: "h\<lparr>rh_store := rh_store h\<rparr> = (h :: replica_host)"
  by simp

lemma snd_store_call [simp]:
  "snd (map_errE f (on_store m) h) = h\<lparr>rh_store := snd (m (rh_store h))\<rparr>"
  "snd (bindE (map_errE f (on_store m)) (\<lambda>x. retE (k x)) h) = h\<lparr>rh_store := snd (m (rh_store h))\<rparr>"
  by (cases "m (rh_store h)"; cases "fst (m (rh_store h))";
      simp add: map_errE_def on_store_def zoomE_def bindE_def)+

text \<open>A handler that changes the contents was authorised, and its change is one operation of the store.\<close>

lemma server_read_contents: "same_contents (rh_store h) (rh_store (snd (server_read L now hdr h)))"
  by (auto simp: server_read_def bindE_def map_errE_def on_store_def zoomE_def same_contents_read
      split: sum.splits prod.splits option.splits dest!: same_contents_read)

lemma server_head_contents: "same_contents (rh_store h) (rh_store (snd (server_head L now hdr h)))"
  by (auto simp: server_head_def bindE_def map_errE_def on_store_def zoomE_def
      split: sum.splits prod.splits option.splits dest: same_contents_head)

lemma server_write_cases:
  "snd (server_write L now hdr bytes h) = h \<or>
   (\<exists>b g st. authority L now hdr ''APPEND'' h b g \<and> gr_stream g = Some st \<and>
      snd (server_write L now hdr bytes h) =
        h\<lparr>rh_store := snd (store_append (l_crypto L) (l_snapshots L) st bytes (rh_store h))\<rparr>)"
proof (cases "authorize L now hdr [''APPEND''] h")
  case (Inl e) then show ?thesis by (simp add: server_write_def bindE_def)
next
  case (Inr g)
  then obtain b where "authority L now hdr ''APPEND'' h b g" by (auto simp: authorize_Ok)
  with Inr show ?thesis
    by (cases "decode (l_snapshots L) bytes"; cases "gr_stream g")
      (auto simp: server_write_def stream_authority_def map_errR_def)
qed

lemma server_initialize_cases:
  "snd (server_initialize L now hdr h) = h \<or>
   (\<exists>b g. authority L now hdr ''INITIALIZE_SESSION'' h b g \<and>
      snd (server_initialize L now hdr h) = h\<lparr>rh_store := snd (store_initialize_session (l_crypto L) (gr_object g) (rh_store h))\<rparr>)"
proof (cases "server_session L now hdr ''INITIALIZE_SESSION'' h")
  case (Inr g)
  then have "\<exists>b. authority L now hdr ''INITIALIZE_SESSION'' h b g" by (simp add: server_session_Ok)
  with Inr show ?thesis by (auto simp: server_initialize_def)
qed (simp add: server_initialize_def)

lemma server_seal_cases:
  "snd (server_seal L now hdr h) = h \<or>
   (\<exists>b g. authority L now hdr ''SEAL_SESSION'' h b g \<and>
      snd (server_seal L now hdr h) = h\<lparr>rh_store := snd (store_seal_session (l_crypto L) (gr_object g) (rh_store h))\<rparr>)"
proof (cases "server_session L now hdr ''SEAL_SESSION'' h")
  case (Inr g)
  then have "\<exists>b. authority L now hdr ''SEAL_SESSION'' h b g" by (simp add: server_session_Ok)
  with Inr show ?thesis by (auto simp: server_seal_def)
qed (simp add: server_seal_def)

lemma in_scope_session:
  "in_scope L sc g = Inr True \<Longrightarrow> gr_operation g = ''INITIALIZE_SESSION'' \<or> gr_operation g = ''SEAL_SESSION'' \<Longrightarrow>
   gr_object g = scope_identity (l_crypto L) sc"
  by (auto simp: in_scope_def)

lemma in_scope_stream:
  assumes "in_scope L sc g = Inr True" "gr_operation g = ''APPEND''" "gr_stream g = Some st"
  shows "rs_session st = scope_identity (l_crypto L) sc"
    "\<exists>p. snapshots (l_crypto L) (sc_actor sc) = Inr p \<and> starts_with (rs_prefix st) p"
  using assms by (auto simp: in_scope_def result_simps)

section \<open>Calls of a peer\<close>

definition http_origin :: "url_lib \<Rightarrow> string \<Rightarrow> bool" where
  "http_origin U s \<longleftrightarrow>
     (\<exists>u. url_parse U s = Some u \<and> only_origin u \<and> (url_scheme u = ''http'' \<or> url_scheme u = ''https''))"

text \<open>The host of a replica target: it serves at the target's origin and is bound to the scope.\<close>

definition hosts_replica ::
    "libs \<Rightarrow> replica_access \<Rightarrow> replica_scope \<Rightarrow> replica_target \<Rightarrow> cluster \<Rightarrow> string \<Rightarrow> replica_host \<Rightarrow> bool" where
  "hosts_replica L access scope peer c origin h \<longleftrightarrow>
     http_origin (l_url L) (rt_url peer) \<and> replica_origin (l_url L) (rt_url peer) = Some origin \<and>
     map_of (cl_hosts c) origin = Some h \<and>
     rh_binding h = Some \<lparr>bd_access = access, bd_host_id = rt_host_id peer, bd_scope = scope\<rparr>"

text \<open>A grant that verifies when it arrives.\<close>

definition timely :: "libs \<Rightarrow> replica_access \<Rightarrow> cluster \<Rightarrow> replica_grant \<Rightarrow> bool" where
  "timely L access c g \<longleftrightarrow>
     length (access_token L access g) \<le> 16 * 1024 \<and>
     (\<exists>now. cl_host_now c = Ok now \<and> grant_ok now [gr_operation g] g)"

lemma access_url_Ok:
  assumes "http_origin (l_url L) s" shows "\<exists>address. access_url L a s g = Inr address"
  using assms by (auto simp: http_origin_def access_url_def Let_def)

lemma send_ok:
  assumes "cl_net c = []" "map_of (cl_hosts c) origin = Some h" "m h = (r, h')"
  shows "send origin m c = (r, c\<lparr>cl_hosts := AList.update origin h' (cl_hosts c)\<rparr>)"
  using assms by (simp add: send_def)

lemma authorize_token:
  assumes L: "libs_laws L" and t: "timely L a c g" and b: "rh_binding h = Some b" "bd_access b = a"
    and g: "gr_host_id g = bd_host_id b" "in_scope L (bd_scope b) g = Inr True"
    and hdr: "grpc_request (access_token L a g) = Inr hdr"
  shows "authorize L (cl_host_now c) (Some hdr) [gr_operation g] h = Inr g"
proof -
  obtain now where now: "cl_host_now c = Inr now" "grant_ok now [gr_operation g] g"
    "length (access_token L a g) \<le> 16 * 1024"
    using t by (auto simp: timely_def)
  have "grpc_token (Some hdr) = Inr (access_token L a g)"
    using grpc_request_token [OF L, of a g] hdr by auto
  moreover have "verify_any L a (Inr now) (access_token L a g) [gr_operation g] = Inr g"
    using verify_access_token [OF L now(3)] now(2) by simp
  ultimately show ?thesis using b g now(1) by (simp add: authorize_def map_errR_def)
qed

lemma peer_client_Ok:
  assumes L: "libs_laws L" and p: "http_origin (l_url L) (rt_url peer)"
    "replica_origin (l_url L) (rt_url peer) = Some origin"
  shows "\<exists>hdr. peer_client L a peer g = Inr (origin, hdr) \<and>
    grpc_request (access_token L a (g\<lparr>gr_host_id := rt_host_id peer\<rparr>)) = Inr hdr"
proof -
  obtain address where 1: "access_url L a (rt_url peer) (g\<lparr>gr_host_id := rt_host_id peer\<rparr>) = Inr address"
    using access_url_Ok [OF p(1)] by blast
  with capability_access_url [OF L 1] p(2)
  have "capability (l_url L) address = Inr (origin, access_token L a (g\<lparr>gr_host_id := rt_host_id peer\<rparr>))" by simp
  with 1 grpc_request_token [OF L, of a "g\<lparr>gr_host_id := rt_host_id peer\<rparr>"] show ?thesis
    by (auto simp: peer_client_def)
qed

text \<open>The four operations of a peer, when the request and its reply arrive.\<close>

lemma send_reaches:
  assumes "cl_net c = []" "map_of (cl_hosts c) origin = Some h"
  shows "send origin m c = (fst (m h), c\<lparr>cl_hosts := AList.update origin (snd (m h)) (cl_hosts c)\<rparr>)"
  using send_ok [OF assms, of m "fst (m h)" "snd (m h)"] by simp

definition peer_grant :: "replica_target \<Rightarrow> u64 \<Rightarrow> string \<Rightarrow> string \<Rightarrow> replica_stream option \<Rightarrow> replica_grant" where
  "peer_grant peer now operation object stream = \<lparr>gr_stream = stream, gr_operation = operation, gr_object = object,
     gr_region = rt_region peer, gr_host_id = rt_host_id peer, gr_expires_at_ms = saturating_add now 60000\<rparr>"

lemma authorize_peer:
  assumes L: "libs_laws L" and h: "hosts_replica L a sc peer c origin h"
    and t: "timely L a c (peer_grant peer now op ob st)"
    and scope: "in_scope L sc (peer_grant peer now op ob st) = Inr True"
    and hdr: "grpc_request (access_token L a (peer_grant peer now op ob st)) = Inr hdr"
  shows "authorize L (cl_host_now c) (Some hdr) [op] h = Inr (peer_grant peer now op ob st)"
  using authorize_token [OF L t _ _ _ _ hdr, of h "\<lparr>bd_access = a, bd_host_id = rt_host_id peer, bd_scope = sc\<rparr>"]
    h scope by (simp add: hosts_replica_def peer_grant_def)

lemma peer_client_grant:
  assumes "libs_laws L" "hosts_replica L a sc peer c origin h"
    "g\<lparr>gr_host_id := rt_host_id peer\<rparr> = peer_grant peer now op ob st"
  obtains hdr where "peer_client L a peer g = Inr (origin, hdr)"
    "grpc_request (access_token L a (peer_grant peer now op ob st)) = Inr hdr"
  using peer_client_Ok [OF assms(1), of peer origin a g] assms(2,3) by (auto simp: hosts_replica_def)

lemma grant_now:
  "grant (Inr now) op region ob d = Inr \<lparr>gr_stream = None, gr_operation = op, gr_object = ob, gr_region = region,
     gr_host_id = [], gr_expires_at_ms = saturating_add now d\<rparr>"
  by (simp add: grant_def)

definition set_host :: "string \<Rightarrow> replica_host \<Rightarrow> replica_store \<Rightarrow> cluster \<Rightarrow> cluster" where
  "set_host origin h s c = c\<lparr>cl_hosts := AList.update origin (h\<lparr>rh_store := s\<rparr>) (cl_hosts c)\<rparr>"

lemma peer_seal_reaches:
  assumes L: "libs_laws L" and h: "hosts_replica L a sc peer c origin h" and net: "cl_net c = []"
    and now: "cl_now c = Inr now"
    and t: "timely L a c (peer_grant peer now ''SEAL_SESSION'' (scope_identity (l_crypto L) sc) None)"
  shows "peer_seal L a peer (scope_identity (l_crypto L) sc) c =
    (case store_seal_session (l_crypto L) (scope_identity (l_crypto L) sc) (rh_store h) of
       (r, s) \<Rightarrow> (map_errR unavailable r, set_host origin h s c))"
proof -
  let ?x = "scope_identity (l_crypto L) sc"
  let ?g = "\<lparr>gr_stream = None, gr_operation = ''SEAL_SESSION'', gr_object = ?x, gr_region = rt_region peer,
     gr_host_id = [], gr_expires_at_ms = saturating_add now 60000\<rparr>"
  obtain hdr where hdr: "peer_client L a peer ?g = Inr (origin, hdr)"
    "grpc_request (access_token L a (peer_grant peer now ''SEAL_SESSION'' ?x None)) = Inr hdr"
    by (rule peer_client_grant [OF L h]) (auto simp: peer_grant_def)
  have "authorize L (cl_host_now c) (Some hdr) [''SEAL_SESSION''] h = Inr (peer_grant peer now ''SEAL_SESSION'' ?x None)"
    by (rule authorize_peer [OF L h t _ hdr(2)]) (simp add: in_scope_def peer_grant_def)
  then have auth: "server_session L (cl_host_now c) (Some hdr) ''SEAL_SESSION'' h =
      Inr (peer_grant peer now ''SEAL_SESSION'' ?x None)"
    by (simp add: server_session_def peer_grant_def)
  obtain r s where st: "store_seal_session (l_crypto L) ?x (rh_store h) = (r, s)" by fastforce
  have "map_of (cl_hosts c) origin = Some h" using h by (simp add: hosts_replica_def)
  note send = send_reaches [OF net this]
  show ?thesis
    using hdr(1) auth st
    by (cases r) (simp_all add: peer_seal_def now grant_now bindE_def send server_seal_def map_errE_def on_store_def
        zoomE_def peer_grant_def map_errR_def set_host_def)
qed

lemma peer_head_reaches:
  assumes L: "libs_laws L" and h: "hosts_replica L a sc peer c origin h" and net: "cl_net c = []"
    and now: "cl_now c = Inr now" and st: "rs_session st = scope_identity (l_crypto L) sc"
    "snapshots (l_crypto L) (sc_actor sc) = Inr p" "starts_with (rs_prefix st) p"
    and t: "timely L a c (peer_grant peer now ''HEAD'' (rs_prefix st) (Some st))"
  shows "peer_head L a peer st c =
    (case store_stream_head st (rh_store h) of (r, s) \<Rightarrow> (map_errR unavailable r, set_host origin h s c))"
proof -
  let ?g = "\<lparr>gr_stream = Some st, gr_operation = ''HEAD'', gr_object = rs_prefix st, gr_region = rt_region peer,
     gr_host_id = [], gr_expires_at_ms = saturating_add now 60000\<rparr>"
  obtain hdr where hdr: "peer_client L a peer ?g = Inr (origin, hdr)"
    "grpc_request (access_token L a (peer_grant peer now ''HEAD'' (rs_prefix st) (Some st))) = Inr hdr"
    by (rule peer_client_grant [OF L h]) (auto simp: peer_grant_def)
  have auth: "authorize L (cl_host_now c) (Some hdr) [''HEAD''] h = Inr (peer_grant peer now ''HEAD'' (rs_prefix st) (Some st))"
    by (rule authorize_peer [OF L h t _ hdr(2)]) (use st in \<open>simp add: in_scope_def peer_grant_def map_errR_def\<close>)
  obtain r s where store: "store_stream_head st (rh_store h) = (r, s)" by fastforce
  have "map_of (cl_hosts c) origin = Some h" using h by (simp add: hosts_replica_def)
  note send = send_reaches [OF net this]
  show ?thesis
    using hdr(1) auth store
    by (cases r) (simp_all add: peer_head_def now grant_now bindE_def send server_head_def map_errE_def on_store_def
        zoomE_def peer_grant_def map_errR_def set_host_def stream_authority_def)
qed

lemma transport_write_reaches:
  assumes L: "libs_laws L" and h: "hosts_replica L a sc peer c origin h" and net: "cl_net c = []"
    and url: "access_url L a (rt_url peer) g = Inr address" and st: "gr_stream g = Some st" "gr_operation g = ''APPEND''"
    and t: "timely L a c g" and g: "gr_host_id g = rt_host_id peer" "in_scope L sc g = Inr True"
    and bytes: "decode (l_snapshots L) bytes = Inr snap"
  shows "transport_write L address bytes c =
    (case store_append (l_crypto L) (l_snapshots L) st bytes (rh_store h) of
       (r, s) \<Rightarrow> (bindR (map_errR unavailable r) (\<lambda>_. Ok Written), set_host origin h s c))"
proof -
  have cap: "capability (l_url L) address = Inr (origin, access_token L a g)"
    using capability_access_url [OF L url] h by (auto simp: hosts_replica_def)
  obtain hdr where hdr: "grpc_request (access_token L a g) = Inr hdr" using grpc_request_token [OF L] by blast
  have auth: "authorize L (cl_host_now c) (Some hdr) [''APPEND''] h = Inr g"
    using authorize_token [OF L t _ _ _ _ hdr, of h "\<lparr>bd_access = a, bd_host_id = rt_host_id peer, bd_scope = sc\<rparr>"]
      h g st(2) by (simp add: hosts_replica_def)
  obtain r s where store: "store_append (l_crypto L) (l_snapshots L) st bytes (rh_store h) = (r, s)" by fastforce
  have "map_of (cl_hosts c) origin = Some h" using h by (simp add: hosts_replica_def)
  note send = send_reaches [OF net this]
  show ?thesis
    using cap hdr auth store st(1) bytes
    by (cases r) (simp_all add: transport_write_def bindE_def send server_write_def map_errE_def on_store_def
        zoomE_def map_errR_def set_host_def stream_authority_def)
qed

section \<open>Assignments\<close>

definition binding_inv :: "replica_host \<Rightarrow> bool" where
  "binding_inv h \<longleftrightarrow> rh_binding h = map_option new_binding (rh_assigned h)"

definition same_assignment :: "replica_host \<Rightarrow> replica_host \<Rightarrow> bool" where
  "same_assignment h h' \<longleftrightarrow>
     rh_binding h' = rh_binding h \<and> rh_assigned h' = rh_assigned h \<and> rh_authorization h' = rh_authorization h"

lemma handlers_keep_assignment:
  "same_assignment h (snd (server_read L now hdr h))" "same_assignment h (snd (server_write L now hdr bytes h))"
  "same_assignment h (snd (server_initialize L now hdr h))" "same_assignment h (snd (server_head L now hdr h))"
  "same_assignment h (snd (server_seal L now hdr h))"
proof -
  have "\<exists>s. snd (server_read L now hdr h) = h\<lparr>rh_store := s\<rparr>"
    by (auto simp: server_read_def bindE_def map_errE_def on_store_def zoomE_def intro: exI [of _ "rh_store h"]
        split: sum.splits prod.splits option.splits)
  moreover have "\<exists>s. snd (server_head L now hdr h) = h\<lparr>rh_store := s\<rparr>"
    by (auto simp: server_head_def bindE_def map_errE_def on_store_def zoomE_def intro: exI [of _ "rh_store h"]
        split: sum.splits prod.splits option.splits)
  moreover have "\<exists>s. snd (server_write L now hdr bytes h) = h\<lparr>rh_store := s\<rparr>"
    using server_write_cases [of L now hdr bytes h] by (metis host_self)
  moreover have "\<exists>s. snd (server_initialize L now hdr h) = h\<lparr>rh_store := s\<rparr>"
    using server_initialize_cases [of L now hdr h] by (metis host_self)
  moreover have "\<exists>s. snd (server_seal L now hdr h) = h\<lparr>rh_store := s\<rparr>"
    using server_seal_cases [of L now hdr h] by (metis host_self)
  ultimately show "same_assignment h (snd (server_read L now hdr h))" "same_assignment h (snd (server_write L now hdr bytes h))"
    "same_assignment h (snd (server_initialize L now hdr h))" "same_assignment h (snd (server_head L now hdr h))"
    "same_assignment h (snd (server_seal L now hdr h))"
    by (auto simp: same_assignment_def)
qed

lemma assign_cases:
  "snd (assign L hdr a h) = h \<or>
   hdr = Some (rh_authorization h) \<and> assignment_ok a \<and> rh_assigned h = None \<and>
   (\<exists>s. snd (assign L hdr a h) = h\<lparr>rh_store := s\<rparr> \<or>
        rh_binding h = None \<and> snd (assign L hdr a h) =
          h\<lparr>rh_store := s, rh_binding := Some (new_binding a), rh_assigned := Some a\<rparr>)"
  by (auto simp: assign_def bindE_def map_errE_def on_store_def zoomE_def
      split: sum.splits prod.splits option.splits if_splits)

lemma assignment_kept:
  assumes "binding_inv h"
  shows "binding_inv (host_step L c h) \<and> rh_authorization (host_step L c h) = rh_authorization h \<and>
    (\<forall>a. rh_assigned h = Some a \<longrightarrow> rh_assigned (host_step L c h) = Some a)"
proof (cases c)
  case (Pair now call)
  have handler: ?thesis if "same_assignment h (host_step L c h)"
    using that assms by (simp add: same_assignment_def binding_inv_def)
  show ?thesis
  proof (cases call)
    case (HAssign hdr a)
    with assms Pair assign_cases [of L hdr a h] show ?thesis by (auto simp: binding_inv_def)
  qed (rule handler; simp add: Pair handlers_keep_assignment)+
qed

lemma assignment_run:
  "binding_inv h \<Longrightarrow>
   binding_inv (fold (host_step L) cs h) \<and> rh_authorization (fold (host_step L) cs h) = rh_authorization h \<and>
   (\<forall>a. rh_assigned h = Some a \<longrightarrow> rh_assigned (fold (host_step L) cs h) = Some a)"
proof (induction cs arbitrary: h)
  case (Cons c cs)
  with assignment_kept [of h L c] Cons.IH [of "host_step L c h"] show ?case by simp
qed simp

section \<open>A concrete replica host\<close>

definition demo_scope :: replica_scope where
  "demo_scope = \<lparr>sc_actor = demo_actor ''r'', sc_host = ''h'', sc_session = ''s'', sc_region = ''eu''\<rparr>"

definition demo_access :: replica_access where
  "demo_access = \<lparr>ra_secret = replicate 32 (CHR ''k'')\<rparr>"

definition demo_peer :: replica_target where
  "demo_peer = \<lparr>rt_host_id = ''replica-1'', rt_url = ''http://r1'', rt_region = ''eu''\<rparr>"

definition demo_assignment :: replica_assignment where
  "demo_assignment = \<lparr>as_host_id = ''replica-1'', as_scope = demo_scope, as_secret = ra_secret demo_access\<rparr>"

definition demo_replica :: replica_host where
  "demo_replica = snd (assign demo_libs (Some ''Bearer t'') demo_assignment
     (routers (empty_store\<lparr>st_capacity := 100\<rparr>) ''t''))"

definition demo_cluster :: cluster where
  "demo_cluster = \<lparr>cl_hosts = [(''http://r1/'', demo_replica)], cl_net = [], cl_now = Ok 1000, cl_host_now = Ok 1500\<rparr>"

lemma demo_hosts_replica:
  "hosts_replica demo_libs demo_access demo_scope demo_peer demo_cluster ''http://r1/'' demo_replica"
proof -
  have b: "rh_binding demo_replica = Some \<lparr>bd_access = demo_access, bd_host_id = rt_host_id demo_peer, bd_scope = demo_scope\<rparr>"
    by code_simp
  have p: "url_parse demo_url ''http://r1'' = Some \<lparr>url_scheme = ''http'', url_username = [], url_password = None,
      url_host = Some ''r1'', url_path = ''/'', url_query = None, url_fragment = None\<rparr>"
    by code_simp
  then have "http_origin (l_url demo_libs) (rt_url demo_peer)"
    unfolding http_origin_def by (simp add: demo_libs_def demo_peer_def only_origin_def)
  moreover have "replica_origin (l_url demo_libs) (rt_url demo_peer) = Some ''http://r1/''" by code_simp
  ultimately show ?thesis using b by (simp add: hosts_replica_def demo_cluster_def)
qed

lemma demo_token_length:
  assumes "length (enc_json (grant_json g)) \<le> 1000"
  shows "length (access_token demo_libs demo_access g) \<le> 16 * 1024"
proof -
  have h: "length (hex_encode x) = 2 * length x" for x
    by (induction x) (simp_all add: hex_encode_def)
  show ?thesis
    using assms by (simp add: access_token_def demo_libs_def demo_grants_def hex_crypto_def demo_access_def h Let_def)
qed

lemma demo_timely:
  "timely demo_libs demo_access demo_cluster
     (peer_grant demo_peer 1000 ''SEAL_SESSION'' (scope_identity hex_crypto demo_scope) None)"
proof -
  let ?g = "peer_grant demo_peer 1000 ''SEAL_SESSION'' (scope_identity hex_crypto demo_scope) None"
  have "length (access_token demo_libs demo_access ?g) \<le> 16 * 1024"
    by (rule demo_token_length) code_simp
  moreover have "gr_operation ?g \<in> set [''SEAL_SESSION''] \<and> 1500 < gr_expires_at_ms ?g \<and>
      starts_with (gr_object ?g) ROOT \<and> length (gr_object ?g) \<le> 1024 \<and> gr_stream ?g = None \<and>
      validate_region (gr_region ?g) = Ok ()" by code_simp
  ultimately show ?thesis
    by (simp add: timely_def demo_cluster_def grant_ok_def peer_grant_def)
qed

section \<open>Properties\<close>



text \<open>
  C17: a spare replica host is assigned at most once. From a fresh process, after any requests, once an
  assignment was accepted it stays for ever and is the binding the storage service checks against;
  repeating it succeeds without effect and any other valid assignment is refused with a conflict.
\<close>

theorem spare_assigned_once:
  assumes "rh_assigned (fold (host_step L) cs (routers store token)) = Some a"
    and "h = fold (host_step L) (cs @ cs') (routers store token)"
  shows "rh_assigned h = Some a \<and> rh_binding h = Some (new_binding a) \<and>
    (\<forall>a'. assignment_ok a' \<longrightarrow>
       assign L (Some (''Bearer '' @ token)) a' h = (if a' = a then Ok 204 else Err (Http 409), h))"
proof -
  have "binding_inv (routers store token)" by (simp add: binding_inv_def routers_def)
  note 1 = assignment_run [OF this, of L cs]
  then have 2: "binding_inv h \<and> rh_authorization h = ''Bearer '' @ token \<and> rh_assigned h = Some a"
    using assignment_run [of "fold (host_step L) cs (routers store token)" L cs'] assms
    by (simp add: routers_def)
  then show ?thesis by (auto simp: binding_inv_def assign_def bindE_def)
qed

theorem spare_assigned_once_witness:
  "let h = fold (host_step demo_libs) [(Ok 0, HAssign (Some ''Bearer t'') demo_assignment)]
             (routers (empty_store\<lparr>st_capacity := 100\<rparr>) ''t'')
   in rh_assigned h = Some demo_assignment \<and>
      assign demo_libs (Some ''Bearer t'') (demo_assignment\<lparr>as_host_id := ''x''\<rparr>) h = (Err (Http 409), h)"
proof -
  let ?h0 = "routers (empty_store\<lparr>st_capacity := 100\<rparr>) ''t''"
  let ?cs = "[(Ok 0, HAssign (Some ''Bearer t'') demo_assignment)]"
  have 1: "rh_assigned (fold (host_step demo_libs) ?cs ?h0) = Some demo_assignment" by code_simp
  have 2: "assignment_ok (demo_assignment\<lparr>as_host_id := ''x''\<rparr>)"
    "demo_assignment\<lparr>as_host_id := ''x''\<rparr> \<noteq> demo_assignment" by code_simp+
  show ?thesis
    using spare_assigned_once [OF 1 refl, of "[]"] 1 2 by (simp add: Let_def del: fold.simps)
qed



end
