(* ===== verification/File_Runtime.thy ===== *)
theory File_Runtime
  imports Runtime_Safety Replica_Calls
begin

text \<open>
  The runtime storage on the file bucket and the gRPC peers. The environment \<open>node_env\<close> is a directory
  with the writes of other processes, a cluster of replica hosts, clocks and a source of identifiers;
  \<open>file_runtime\<close> is the storage configured with them. The theory discharges the laws of \<open>runtime_env\<close> for
  it, with a concrete serialisation of the records, and states how ownership is fenced for any number
  of processes.
\<close>

section \<open>A serialisation of the records\<close>

fun json_pair :: "(json \<Rightarrow> 'a option) \<Rightarrow> (json \<Rightarrow> 'b option) \<Rightarrow> json \<Rightarrow> ('a \<times> 'b) option" where
  "json_pair f g (JArr [a, b]) =
     (case f a of None \<Rightarrow> None | Some x \<Rightarrow> (case g b of None \<Rightarrow> None | Some y \<Rightarrow> Some (x, y)))"
| "json_pair f g _ = None"

definition pair_json :: "('a \<Rightarrow> json) \<Rightarrow> ('b \<Rightarrow> json) \<Rightarrow> 'a \<times> 'b \<Rightarrow> json" where
  "pair_json f g p = JArr [f (fst p), g (snd p)]"

lemma json_pair_pair [simp]:
  "(\<And>x. f' (f x) = Some x) \<Longrightarrow> (\<And>y. g' (g y) = Some y) \<Longrightarrow> json_pair f' g' (pair_json f g p) = Some p"
  by (simp add: pair_json_def)

lemma json_str_str [simp]: "json_str (JStr s) = Some s" "json_bool (JBool b) = Some b"
  by simp_all

text \<open>The codec of a record is the codec of the tuple of its fields.\<close>

definition connection_json :: "socket_connection \<Rightarrow> json" where
  "connection_json c = pair_json JStr (pair_json (\<lambda>j. j) (list_json JStr)) (asc_id c, asc_metadata c, asc_tags c)"

definition json_connection :: "json \<Rightarrow> socket_connection option" where
  "json_connection j = map_option (\<lambda>(a, b, c). \<lparr>asc_id = a, asc_metadata = b, asc_tags = c\<rparr>)
     (json_pair json_str (json_pair Some (json_list json_str)) j)"

definition waiting_json :: "waiting_operation \<Rightarrow> json" where
  "waiting_json w = pair_json JStr JStr (wo_id w, wo_operation w)"

definition json_waiting :: "json \<Rightarrow> waiting_operation option" where
  "json_waiting j = map_option (\<lambda>(a, b). \<lparr>wo_id = a, wo_operation = b\<rparr>) (json_pair json_str json_str j)"

lemma json_connection_connection [simp]: "json_connection (connection_json c) = Some c"
  by (simp add: json_connection_def connection_json_def)

lemma json_waiting_waiting [simp]: "json_waiting (waiting_json w) = Some w"
  by (simp add: json_waiting_def waiting_json_def)

definition inventory_json :: "activation_inventory \<Rightarrow> json" where
  "inventory_json i = pair_json (opt_json JBool) (pair_json (list_json connection_json) (opt_json (list_json waiting_json)))
     (ai_resident i, ai_connections i, ai_waiting i)"

definition json_inventory :: "json \<Rightarrow> activation_inventory option" where
  "json_inventory j = map_option (\<lambda>(a, b, c). \<lparr>ai_resident = a, ai_connections = b, ai_waiting = c\<rparr>)
     (json_pair (json_opt json_bool) (json_pair (json_list json_connection) (json_opt (json_list json_waiting))) j)"

definition lease_json :: "host_lease \<Rightarrow> json" where
  "lease_json l = pair_json JStr (pair_json JStr (pair_json JStr num_json))
     (hl_id l, hl_session_id l, hl_route l, hl_expires_at_ms l)"

definition json_lease :: "json \<Rightarrow> host_lease option" where
  "json_lease j = map_option (\<lambda>(a, b, c, d). \<lparr>hl_id = a, hl_session_id = b, hl_route = c, hl_expires_at_ms = d\<rparr>)
     (json_pair json_str (json_pair json_str (json_pair json_str json_num)) j)"

definition actor_json :: "actor_key \<Rightarrow> json" where
  "actor_json a = pair_json JStr (pair_json JStr JStr) (project_id a, actor_name a, actor_id a)"

definition json_actor :: "json \<Rightarrow> actor_key option" where
  "json_actor j = map_option (\<lambda>(a, b, c). \<lparr>project_id = a, actor_name = b, actor_id = c\<rparr>)
     (json_pair json_str (json_pair json_str json_str) j)"

definition ref_json :: "snapshot_ref \<Rightarrow> json" where
  "ref_json r = pair_json JStr (pair_json num_json (pair_json JStr JStr))
     (sr_object r, sr_state_version r, sr_request_id r, sr_digest r)"

definition json_ref :: "json \<Rightarrow> snapshot_ref option" where
  "json_ref j = map_option (\<lambda>(a, b, c, d). \<lparr>sr_object = a, sr_state_version = b, sr_request_id = c, sr_digest = d\<rparr>)
     (json_pair json_str (json_pair json_num (json_pair json_str json_str)) j)"

lemma json_inventory_inventory [simp]: "json_inventory (inventory_json i) = Some i"
  by (simp add: json_inventory_def inventory_json_def)

lemma json_lease_lease [simp]: "json_lease (lease_json l) = Some l"
  by (simp add: json_lease_def lease_json_def)

lemma json_actor_actor [simp]: "json_actor (actor_json a) = Some a"
  by (simp add: json_actor_def actor_json_def)

lemma json_ref_ref [simp]: "json_ref (ref_json r) = Some r"
  by (simp add: json_ref_def ref_json_def)

definition ownership_json :: "ownership \<Rightarrow> json" where
  "ownership_json r =
     pair_json inventory_json (pair_json lease_json (pair_json JStr (pair_json actor_json
       (pair_json num_json (pair_json JStr (opt_json ref_json))))))
       (ow_inventory r, ow_lease r, ow_mutation r, ow_actor r, ow_epoch r, ow_region r, ow_base r)"

definition json_ownership :: "json \<Rightarrow> ownership option" where
  "json_ownership j =
     map_option (\<lambda>(a, b, c, d, e, f, g). \<lparr>ow_inventory = a, ow_lease = b, ow_mutation = c, ow_actor = d, ow_epoch = e,
       ow_region = f, ow_base = g\<rparr>)
     (json_pair json_inventory (json_pair json_lease (json_pair json_str (json_pair json_actor
       (json_pair json_num (json_pair json_str (json_opt json_ref)))))) j)"

lemma json_ownership_ownership [simp]: "json_ownership (ownership_json r) = Some r"
  by (simp add: json_ownership_def ownership_json_def)

definition target_json :: "replica_target \<Rightarrow> json" where
  "target_json t = pair_json JStr (pair_json JStr JStr) (rt_host_id t, rt_url t, rt_region t)"

definition json_target :: "json \<Rightarrow> replica_target option" where
  "json_target j = map_option (\<lambda>(a, b, c). \<lparr>rt_host_id = a, rt_url = b, rt_region = c\<rparr>)
     (json_pair json_str (json_pair json_str json_str) j)"

lemma json_target_target [simp]: "json_target (target_json t) = Some t"
  by (simp add: json_target_def target_json_def)

fun state_json :: "recovery_state \<Rightarrow> json" where
  "state_json Open = JStr ''open''"
| "state_json Recovering = JStr ''recovering''"
| "state_json Sealed = JStr ''sealed''"

definition json_state :: "json \<Rightarrow> recovery_state option" where
  "json_state j = (if j = JStr ''open'' then Some Open else if j = JStr ''recovering'' then Some Recovering
     else if j = JStr ''sealed'' then Some Sealed else None)"

lemma json_state_state [simp]: "json_state (state_json s) = Some s"
  by (cases s) (simp_all add: json_state_def)

definition session_json :: "session_record \<Rightarrow> json" where
  "session_json s = pair_json JStr (pair_json JStr (pair_json (list_json target_json) state_json))
     (se_id s, se_region s, se_replicas s, se_state s)"

definition json_session :: "json \<Rightarrow> session_record option" where
  "json_session j = map_option (\<lambda>(a, b, c, d). \<lparr>se_id = a, se_region = b, se_replicas = c, se_state = d\<rparr>)
     (json_pair json_str (json_pair json_str (json_pair (json_list json_target) json_state)) j)"

lemma json_session_session [simp]: "json_session (session_json s) = Some s"
  by (simp add: json_session_def session_json_def)

definition attribution_json :: "state_attribution \<Rightarrow> json" where
  "attribution_json a = pair_json JStr (pair_json (opt_json JStr) (pair_json num_json JBool))
     (att_operation a, att_connection_id a, att_committed_at_ms a, att_interleaved a)"

definition json_attribution :: "json \<Rightarrow> state_attribution option" where
  "json_attribution j =
     map_option (\<lambda>(a, b, c, d). \<lparr>att_operation = a, att_connection_id = b, att_committed_at_ms = c, att_interleaved = d\<rparr>)
     (json_pair json_str (json_pair (json_opt json_str) (json_pair json_num json_bool)) j)"

lemma json_attribution_attribution [simp]: "json_attribution (attribution_json a) = Some a"
  by (simp add: json_attribution_def attribution_json_def)

definition record_json :: "state_record \<Rightarrow> json" where
  "record_json r = pair_json num_json (pair_json num_json (pair_json JStr (opt_json attribution_json)))
     (sre_state_version r, sre_owner_epoch r, sre_request_id r, sre_attribution r)"

definition json_record :: "json \<Rightarrow> state_record option" where
  "json_record j =
     map_option (\<lambda>(a, b, c, d). \<lparr>sre_state_version = a, sre_owner_epoch = b, sre_request_id = c, sre_attribution = d\<rparr>)
     (json_pair json_num (json_pair json_num (json_pair json_str (json_opt json_attribution))) j)"

lemma json_record_record [simp]: "json_record (record_json r) = Some r"
  by (simp add: json_record_def record_json_def)

definition json_codec :: runtime_codec where
  "json_codec =
     \<lparr>ownership_to_vec = (\<lambda>r. enc_json (ownership_json r)),
      ownership_from_slice = (\<lambda>b. Option.bind (parse_json b) json_ownership),
      session_to_vec = (\<lambda>s. enc_json (session_json s)),
      session_from_slice = (\<lambda>b. Option.bind (parse_json b) json_session),
      record_to_vec = (\<lambda>r. enc_json (record_json r)),
      record_from_slice = (\<lambda>b. Option.bind (parse_json b) json_record)\<rparr>"

definition codec_laws :: "runtime_codec \<Rightarrow> bool" where
  "codec_laws K \<longleftrightarrow>
     (\<forall>r. ownership_from_slice K (ownership_to_vec K r) = Some r) \<and>
     (\<forall>s. session_from_slice K (session_to_vec K s) = Some s) \<and>
     (\<forall>r. record_from_slice K (record_to_vec K r) = Some r)"

lemma json_codec_laws: "codec_laws json_codec"
  by (simp add: codec_laws_def json_codec_def)

section \<open>Replica hosts answer with snapshots\<close>

text \<open>
  The heads a host has in memory are heads of snapshot streams, whatever capabilities it is sent: the
  server appends only to streams below the snapshots of the bound actor.
\<close>

definition head_named :: "stream_head \<Rightarrow> bool" where
  "head_named h \<longleftrightarrow> snapshot_name (rs_prefix (sth_stream h)) \<and>
     (\<forall>r. sth_latest h = Some r \<longrightarrow> sr_object r = stream_object (sth_stream h) (sr_state_version r))"

definition heads_named :: "replica_store \<Rightarrow> bool" where
  "heads_named s \<longleftrightarrow> (\<forall>h \<in> snd ` set (st_streams s). head_named h)"

definition hosts_named :: "cluster \<Rightarrow> bool" where
  "hosts_named c \<longleftrightarrow> (\<forall>h \<in> snd ` set (cl_hosts c). heads_named (rh_store h))"

abbreviation keeps_heads :: "(replica_store, 'a) eff \<Rightarrow> bool" where
  "keeps_heads m \<equiv> triple heads_named m (\<lambda>_. heads_named) heads_named"

lemma keeps_rio [triple_rules]: "keeps_heads rio"
  by (rule tripleI) (auto simp: rio_def heads_named_def split: if_splits list.splits io.splits)

lemma heads_named_files [simp]: "heads_named (s\<lparr>st_files := f\<rparr>) \<longleftrightarrow> heads_named s"
  by (simp add: heads_named_def)

lemma keeps_write_file [triple_rules]: "keeps_heads (write_file nc path content)"
proof -
  have drop: "keeps_heads m \<Longrightarrow> keeps_heads (drop_pending name m)" for name and m :: "(replica_store, unit) eff"
    by (rule tripleI) (auto simp: drop_pending_def split: prod.splits sum.splits if_splits
        dest: tripleD_Ok tripleD_Err)
  show ?thesis
    unfolding write_file_def
    by (intro triple_seq [OF keeps_rio] triple_bind [where R = "\<lambda>_. heads_named"] drop)
      (auto intro!: triple_get triple_mod triple_fail keeps_rio simp: heads_named_def)
qed

lemma keeps_read_blob [triple_rules]: "keeps_heads (read_blob path len)"
  unfolding read_blob_def
  by (intro triple_seq [OF keeps_rio] triple_bind [where R = "\<lambda>_. heads_named"])
    (auto intro!: triple_get triple_fail triple_bind_lift triple_ret split: option.split replica_file.split)

lemma keeps_put [triple_rules]: "keeps_heads (put C m bytes)"
  unfolding put_def
  by (intro triple_bind [where R = "\<lambda>_. heads_named"])
    (auto intro!: triple_get triple_bind_lift triple_rules triple_bind [where R = "\<lambda>_. heads_named"] triple_mod
      simp: heads_named_def split: option.split)

lemma keeps_prune_stream [triple_rules]: "keeps_heads (prune_stream C h)"
proof -
  have "keeps_heads (remove_blob C ob)" for ob
    unfolding remove_blob_def
    by (intro triple_seq [OF keeps_rio] triple_bind [where R = "\<lambda>_. heads_named"])
      (auto intro!: triple_get triple_mod triple_fail simp: heads_named_def Let_def)
  then have f: "keeps_heads (forE xs (remove_blob C))" for xs by (rule triple_for)
  show ?thesis
    unfolding prune_stream_def
    by (auto intro!: triple_get triple_ret keeps_rio f triple_bind [where R = "\<lambda>_. heads_named"] split: option.split)
qed

lemma keeps_save_session [triple_rules]: "keeps_heads (save_session C h)"
  unfolding save_session_def
  by (intro triple_seq [OF keeps_write_file] triple_bind [where R = "\<lambda>_. heads_named"])
    (auto intro!: triple_mod keeps_rio simp: heads_named_def)

lemma keeps_save_head: "head_named h \<Longrightarrow> keeps_heads (save_head C h)"
  unfolding save_head_def
  by (intro triple_seq [OF keeps_write_file] triple_bind [where R = "\<lambda>_. heads_named"])
    (fastforce intro!: triple_mod keeps_rio simp: heads_named_def dest!: in_set_update)+

lemma head_is_named:
  "heads_named s \<Longrightarrow> snapshot_name (rs_prefix st) \<Longrightarrow> head st s = Inr h \<Longrightarrow> head_named h \<and> sth_stream h = st"
  by (auto simp: head_def heads_named_def head_named_def result_simps split: option.splits dest!: map_of_SomeD)

lemma keeps_append: "snapshot_name (rs_prefix st) \<Longrightarrow> keeps_heads (store_append C J st bytes)"
proof -
  assume st: "snapshot_name (rs_prefix st)"
  have new: "keeps_heads (append_new C h r bytes)" if "sth_stream h = st" "stream_snapshot C J st bytes = Inr r" for h r
    unfolding append_new_def Let_def
    using that st stream_snapshot_facts [OF that(2)]
    by (intro triple_seq [OF keeps_put] triple_seq [OF keeps_save_head] keeps_prune_stream) (simp add: head_named_def)
  have get: "triple heads_named (getE (head st)) (\<lambda>h s. heads_named s \<and> (\<forall>x. h = Inr x \<longrightarrow> sth_stream x = st)) heads_named"
    by (rule triple_get) (auto dest: head_is_named [OF _ st])
  show ?thesis
    unfolding store_append_def
    by (rule triple_bind [OF get], rule triple_bind_lift, rule triple_assume [THEN triple_weaken])
      (auto intro!: triple_bind [where R = "\<lambda>_. heads_named"] triple_get triple_bind_lift keeps_rio keeps_prune_stream new
        split: option.split)
qed

abbreviation keeps_host :: "(replica_host, 'a) eff \<Rightarrow> ('a \<Rightarrow> bool) \<Rightarrow> bool" where
  "keeps_host m P \<equiv> triple (\<lambda>h. heads_named (rh_store h)) m (\<lambda>x h. heads_named (rh_store h) \<and> P x)
     (\<lambda>h. heads_named (rh_store h))"

lemma host_store:
  "triple heads_named m (\<lambda>x s. heads_named s \<and> P x) heads_named \<Longrightarrow> keeps_host (map_errE f (on_store m)) P"
  by (rule tripleI) (auto simp: on_store_def eff_simps dest: tripleD_Ok tripleD_Err)

lemma host_authority:
  assumes "\<And>h g. auth h = Inr g \<Longrightarrow> \<exists>b. authority L now header operation h b g"
    and "\<And>h b g. authority L now header operation h b g \<Longrightarrow> keeps_host (f g) P"
  shows "keeps_host (bindE (getE auth) (\<lambda>g. bindE (liftE g) f)) P"
proof (rule triple_at, rule triple_bind_get)
  fix h :: replica_host assume h: "heads_named (rh_store h)"
  show "triple (\<lambda>w. w = h) (bindE (liftE (auth h)) f) (\<lambda>x h. heads_named (rh_store h) \<and> P x) (\<lambda>h. heads_named (rh_store h))"
  proof (rule triple_bind_lift)
    fix g assume "auth h = Inr g"
    with assms have "keeps_host (f g) P" by blast
    then show "triple (\<lambda>w. w = h) (f g) (\<lambda>x h. heads_named (rh_store h) \<and> P x) (\<lambda>h. heads_named (rh_store h))"
      by (rule triple_weaken) (use h in simp_all)
  qed (use h in simp)
qed

lemma host_authorize:
  assumes "\<And>h b g. authority L now header operation h b g \<Longrightarrow> keeps_host (f g) P"
  shows "keeps_host (bindE (getE (authorize L now header [operation])) (\<lambda>g. bindE (liftE g) f)) P"
  by (rule host_authority [OF _ assms]) (simp_all add: authorize_Ok)

lemma host_session:
  assumes "\<And>h b g. authority L now header operation h b g \<Longrightarrow> keeps_host (f g) P"
  shows "keeps_host (bindE (getE (server_session L now header operation)) (\<lambda>g. bindE (liftE g) f)) P"
  by (rule host_authority [OF _ assms]) (simp_all add: server_session_Ok)

lemma authority_stream:
  assumes "authority L now header operation h b g" "operation \<noteq> ''INITIALIZE_SESSION''" "operation \<noteq> ''SEAL_SESSION''"
    "gr_stream g = Some st"
  shows "snapshot_name (rs_prefix st)"
proof -
  obtain p where "snapshots (l_crypto L) (sc_actor (bd_scope b)) = Inr p" "starts_with (rs_prefix st) p"
    using assms authority_operation [OF assms(1)]
    by (auto simp: authority_def in_scope_def result_simps map_errR_def split: sum.splits)
  then show ?thesis using snapshots_name snapshot_name_prefix by blast
qed

lemma keeps_read: "keeps_host (server_read L now header) (\<lambda>_. True)"
  unfolding server_read_def store_read_def
  by (rule host_authorize, rule triple_bind, rule host_store [where P = "\<lambda>_. True"])
    (auto intro!: triple_bind [where R = "\<lambda>_. heads_named"] triple_get triple_ret triple_lift keeps_read_blob
      split: option.split)

lemma keeps_write: "keeps_host (server_write L now header bytes) (\<lambda>_. True)"
  unfolding server_write_def
proof (rule host_authorize, rule triple_bind_lift, rule triple_bind_lift)
  fix h b g x st assume "authority L now header ''APPEND'' h b g" "stream_authority g = Inr st"
  then have "snapshot_name (rs_prefix st)"
    by (auto simp: stream_authority_def intro: authority_stream split: option.splits)
  then have "keeps_host (map_errE unavailable (on_store (store_append (l_crypto L) (l_snapshots L) st bytes))) (\<lambda>_. True)"
    by (intro host_store) (simp add: keeps_append)
  then show "keeps_host (bindE (map_errE unavailable (on_store (store_append (l_crypto L) (l_snapshots L) st bytes)))
      (\<lambda>_. retE False)) (\<lambda>_. True)"
    by (rule triple_bind) (simp add: triple_ret)
qed simp_all

lemma keeps_initialize: "keeps_host (server_initialize L now header) (\<lambda>_. True)"
  unfolding server_initialize_def store_initialize_session_def
  by (rule host_session, rule host_store)
    (auto intro!: triple_bind [where R = "\<lambda>_. heads_named"] triple_get triple_bind_lift keeps_save_session)

lemma keeps_head: "keeps_host (server_head L now header) (\<lambda>p. \<exists>h. p = head_to_proto h \<and> head_named h)"
  unfolding server_head_def
proof (rule host_authorize, rule triple_bind_lift)
  fix h b g st assume "authority L now header ''HEAD'' h b g" "stream_authority g = Inr st"
  then have "snapshot_name (rs_prefix st)"
    by (auto simp: stream_authority_def intro: authority_stream split: option.splits)
  then have "triple heads_named (bindE (getE (head st)) liftE) (\<lambda>x s. heads_named s \<and> head_named x) heads_named"
    using head_is_named by (intro triple_bind [where R = "\<lambda>x s. heads_named s \<and> x = head st s"] triple_get triple_lift) auto
  then have "keeps_host (map_errE unavailable (on_store (store_stream_head st))) head_named"
    unfolding store_stream_head_def
    by - (rule host_store, rule triple_bind [where R = "\<lambda>_. heads_named"], rule triple_get, assumption, rule triple_bind_lift)
  then show "keeps_host (bindE (map_errE unavailable (on_store (store_stream_head st))) (\<lambda>head. retE (head_to_proto head)))
      (\<lambda>p. \<exists>h. p = head_to_proto h \<and> head_named h)"
    by (rule triple_bind) (auto intro!: triple_ret)
qed simp

lemma keeps_seal: "keeps_host (server_seal L now header) (\<lambda>p. \<exists>h. p = session_to_proto h \<and> list_all head_named (seh_streams h))"
  unfolding server_seal_def
proof (rule host_session)
  fix g :: replica_grant
  have "keeps_host (map_errE unavailable (on_store (store_seal_session (l_crypto L) (gr_object g)))) (\<lambda>h. list_all head_named (seh_streams h))"
    unfolding store_seal_session_def Let_def
    by (intro host_store triple_bind [where R = "\<lambda>_. heads_named"] triple_get
        triple_bind [where R = "\<lambda>hs s. heads_named s \<and> list_all head_named hs"] triple_ret keeps_save_session)
      (auto simp: list_all_iff heads_named_def)
  then show "keeps_host (bindE (map_errE unavailable (on_store (store_seal_session (l_crypto L) (gr_object g))))
      (\<lambda>head. retE (session_to_proto head))) (\<lambda>p. \<exists>h. p = session_to_proto h \<and> list_all head_named (seh_streams h))"
    by (rule triple_bind) (auto intro!: triple_ret)
qed

abbreviation keeps_hosts :: "(cluster, 'a) eff \<Rightarrow> ('a \<Rightarrow> bool) \<Rightarrow> bool" where
  "keeps_hosts m P \<equiv> triple hosts_named m (\<lambda>x c. hosts_named c \<and> P x) hosts_named"

lemma keeps_send: "keeps_host m P \<Longrightarrow> keeps_hosts (send origin m) P"
proof (unfold triple_def [of hosts_named], intro allI impI)
  fix c r c' assume m: "keeps_host m P" and c: "hosts_named c" and s: "send origin m c = (r, c')"
  show "case r of Inl e \<Rightarrow> hosts_named c' | Inr x \<Rightarrow> hosts_named c' \<and> P x"
  proof (cases "map_of (cl_hosts c) origin")
    case None
    with s c show ?thesis by (auto simp: send_def hosts_named_def Let_def split: list.splits net.splits)
  next
    case (Some h)
    then have "heads_named (rh_store h)" using c by (force simp: hosts_named_def dest: map_of_SomeD)
    then have "case fst (m h) of Inl e \<Rightarrow> heads_named (rh_store (snd (m h)))
        | Inr x \<Rightarrow> heads_named (rh_store (snd (m h))) \<and> P x"
      using m unfolding triple_def by (metis prod.collapse)
    then have "heads_named (rh_store (snd (m h)))" "\<And>x. fst (m h) = Inr x \<Longrightarrow> P x"
      by (auto split: sum.splits)
    moreover from this have "hosts_named (c\<lparr>cl_net := n, cl_hosts := AList.update origin (snd (m h)) (cl_hosts c)\<rparr>)" for n
      using c unfolding hosts_named_def by (fastforce dest!: in_set_update)
    moreover have "hosts_named (c\<lparr>cl_net := n\<rparr>)" for n using c by (simp add: hosts_named_def)
    ultimately show ?thesis
      using s Some by (auto simp: send_def Let_def split: list.splits net.splits sum.splits prod.splits if_splits)
  qed
qed

lemma hosts_get: "(\<And>x. triple hosts_named (f x) Q hosts_named) \<Longrightarrow> triple hosts_named (bindE (getE g) f) Q hosts_named"
  by (rule triple_bind [where R = "\<lambda>_. hosts_named"]) (simp add: triple_get)

lemma hosts_lift: "(\<And>x. triple hosts_named (f x) Q hosts_named) \<Longrightarrow> triple hosts_named (bindE (liftE r) f) Q hosts_named"
  by (rule triple_bind_lift)

lemma hosts_prod: "(\<And>a b. triple hosts_named (f a b) Q hosts_named) \<Longrightarrow> triple hosts_named (case p of (a, b) \<Rightarrow> f a b) Q hosts_named"
  by (simp split: prod.split)

lemmas hosts_rules = hosts_get hosts_lift hosts_prod

lemma keeps_transport:
  "keeps_hosts (transport_read L address) (\<lambda>_. True)" "keeps_hosts (transport_write L address bytes) (\<lambda>_. True)"
  unfolding transport_read_def transport_write_def
  by (intro hosts_rules keeps_send keeps_read)
    (intro hosts_rules triple_bind [OF keeps_send [OF keeps_write]] triple_ret, simp)

lemma keeps_peer:
  "keeps_hosts (peer_initialize L access peer session) (\<lambda>_. True)"
  "keeps_hosts (peer_read L access peer object) (\<lambda>_. True)"
  "keeps_hosts (peer_head L access peer stream) head_named"
  "keeps_hosts (peer_seal L access peer session) (\<lambda>h. list_all head_named (seh_streams h))"
  unfolding peer_initialize_def peer_read_def peer_head_def peer_seal_def
  by (intro hosts_rules keeps_send keeps_initialize keeps_transport)
    (intro hosts_rules keeps_transport,
     intro hosts_rules triple_bind [OF keeps_send [OF keeps_head]] triple_lift, auto,
     intro hosts_rules triple_bind [OF keeps_send [OF keeps_seal]] triple_lift, auto)

section \<open>The environment\<close>

record node_env =
  ne_bucket :: file_bucket
  ne_cluster :: cluster
  ne_clock :: "u64 result list"
  ne_uuids :: nat
  ne_order :: nat

definition on_bucket :: "(file_bucket, 'a) eff \<Rightarrow> (node_env, 'a) eff" where
  "on_bucket m = zoomE ne_bucket (\<lambda>b e. e\<lparr>ne_bucket := b\<rparr>) m"

definition on_cluster :: "(cluster, 'a) eff \<Rightarrow> (node_env, 'a) eff" where
  "on_cluster m = zoomE ne_cluster (\<lambda>c e. e\<lparr>ne_cluster := c\<rparr>) m"

text \<open>The readings of the trusted clock come from a list; without one the clock fails.\<close>

definition node_clock :: "(node_env, u64) eff" where
  "node_clock e = (case ne_clock e of [] \<Rightarrow> (Err (Msg ''clock unavailable''), e) | t # ts \<Rightarrow> (t, e\<lparr>ne_clock := ts\<rparr>))"

definition node_uuid :: "(node_env, string) eff" where
  "node_uuid e = (Ok (show_radix 10 (ne_uuids e)), e\<lparr>ne_uuids := Suc (ne_uuids e)\<rparr>)"

definition node_bucket :: "node_env bucket_ops" where
  "node_bucket = \<lparr>b_get = (\<lambda>k. on_bucket (file_get k)), b_cas = (\<lambda>k g b. on_bucket (file_compare_and_swap k g b)),
     b_list = (\<lambda>p. on_bucket (file_list p))\<rparr>"

definition node_peers :: "libs \<Rightarrow> replica_access \<Rightarrow> node_env replica_peers" where
  "node_peers L access =
     \<lparr>p_initialize = (\<lambda>peer sid. on_cluster (peer_initialize L access peer sid)),
      p_head = (\<lambda>peer stream. on_cluster (peer_head L access peer stream)),
      p_seal = (\<lambda>peer sid. on_cluster (peer_seal L access peer sid)),
      p_read = (\<lambda>peer object. on_cluster (peer_read L access peer object))\<rparr>"

definition node_transport :: "libs \<Rightarrow> node_env state_transport" where
  "node_transport L = \<lparr>t_read = (\<lambda>url. on_cluster (transport_read L url)),
     t_write = (\<lambda>url bytes. on_cluster (transport_write L url bytes))\<rparr>"

definition file_runtime ::
    "libs \<Rightarrow> runtime_codec \<Rightarrow> replica_access \<Rightarrow> string \<Rightarrow> replica_target list \<Rightarrow> nat \<Rightarrow> node_env runtime" where
  "file_runtime L K access origin replicas rounds =
     \<lparr>rn_libs = L, rn_codec = K, rn_clock = node_clock, rn_system_clock = on_cluster (\<lambda>c. (cl_now c, c)),
      rn_authority = node_bucket, rn_fleet = replica_set replicas, rn_peers = node_peers L access, rn_access = access,
      rn_origin = origin, rn_uuid = node_uuid, rn_order = (\<lambda>e ts. rotate (ne_order e) ts),
      rn_shuffle = (\<lambda>e rs. rotate (ne_order e) rs), rn_rounds = rounds\<rparr>"

section \<open>The laws hold\<close>

text \<open>
  Writes of other processes: whatever changes come first, a write that swaps is legal. A legal write on a
  generation that was read is of this kind, since a generation never comes back with other bytes.
\<close>

definition write_ok :: "runtime_codec \<Rightarrow> crypto \<Rightarrow> objects \<Rightarrow> string \<times> int option \<times> bytes \<Rightarrow> bool" where
  "write_ok K C m op \<longleftrightarrow>
     (\<forall>m1 m2. evolves m m1 \<longrightarrow> swaps (fst op) (fst (snd op)) (snd (snd op)) m1 m2 \<longrightarrow> legal K C m1 m2)"

definition foreign_ok :: "runtime_codec \<Rightarrow> crypto \<Rightarrow> file_bucket \<Rightarrow> bool" where
  "foreign_ok K C w \<longleftrightarrow> fb_wf w \<and> (\<forall>ops \<in> set (fb_foreign w). \<forall>op \<in> set ops. write_ok K C (fb_objs w) op)"

lemma write_ok_evolves: "write_ok K C m op \<Longrightarrow> evolves m m' \<Longrightarrow> write_ok K C m' op"
  unfolding write_ok_def using evolves_trans by metis

lemma foreign_ok_evolves:
  "foreign_ok K C w \<Longrightarrow> fb_wf w' \<Longrightarrow> evolves (fb_objs w) (fb_objs w') \<Longrightarrow> fb_foreign w' = fb_foreign w \<Longrightarrow> foreign_ok K C w'"
  unfolding foreign_ok_def using write_ok_evolves by metis

lemma interfere_moves:
  assumes "foreign_ok K C w"
  shows "foreign_ok K C (fb_interfere w) \<and> moves K C (fb_objs w) (fb_objs (fb_interfere w))"
proof (cases "fb_foreign w")
  case Nil with assms show ?thesis by (simp add: fb_interfere_def)
next
  case (Cons ops rest)
  have run: "fb_wf v' \<and> moves K C (fb_objs v) (fb_objs v') \<and> fb_foreign v' = fb_foreign v"
    if "fb_wf v" "\<forall>op \<in> set ops. write_ok K C (fb_objs v) op" "v' = fold (\<lambda>(k, g, b) w. snd (file_cas_now k g b w)) ops v"
    for v v' ops
    using that
  proof (induction ops arbitrary: v)
    case (Cons op ops)
    obtain k g b where op: "op = (k, g, b)" by (cases op)
    obtain r v1 where v1: "file_cas_now k g b v = (r, v1)" by fastforce
    have 1: "fb_wf v1" "fb_objs v1 = fb_objs v \<or> swaps k g b (fb_objs v) (fb_objs v1)"
      using file_cas_now_spec [OF Cons.prems(1) v1] by auto
    moreover have "write_ok K C (fb_objs v) (k, g, b)" using Cons.prems(2) op by simp
    ultimately have "moves K C (fb_objs v) (fb_objs v1)" unfolding write_ok_def by auto
    moreover from this have "fb_wf v' \<and> moves K C (fb_objs v1) (fb_objs v') \<and> fb_foreign v' = fb_foreign v1"
      using Cons.prems op v1 1(1) write_ok_evolves moves_evolves by (intro Cons.IH) fastforce+
    ultimately show ?case using file_cas_now_foreign [OF v1] by (metis rtranclp_trans)
  qed simp
  let ?v = "w\<lparr>fb_foreign := rest\<rparr>"
  have same: "fb_objs ?v = fb_objs w" "fb_wf ?v"
    using same_files [of ?v w] assms by (simp_all add: same_objects_def foreign_ok_def)
  have "fb_wf (fb_interfere w) \<and> moves K C (fb_objs w) (fb_objs (fb_interfere w)) \<and> fb_foreign (fb_interfere w) = rest"
    using run [of ?v ops "fb_interfere w"] assms Cons same by (simp add: fb_interfere_def foreign_ok_def)
  moreover from this have "foreign_ok K C (fb_interfere w)"
    using assms Cons write_ok_evolves moves_evolves unfolding foreign_ok_def by (metis list.set_intros(2))
  ultimately show ?thesis by simp
qed

lemma frame_foreign:
  assumes "foreign_ok K C w" "same_objects (fb_interfere w) w'" "fb_foreign w' = fb_foreign (fb_interfere w)"
  shows "foreign_ok K C w' \<and> moves K C (fb_objs w) (fb_objs w')"
  using interfere_moves [OF assms(1)] assms(2,3) by (simp add: foreign_ok_def same_objects_def)

definition node_objs :: "node_env \<Rightarrow> objects" where "node_objs e = fb_objs (ne_bucket e)"

definition node_wf :: "runtime_codec \<Rightarrow> crypto \<Rightarrow> node_env \<Rightarrow> bool" where
  "node_wf K C e \<longleftrightarrow> foreign_ok K C (ne_bucket e) \<and> hosts_named (ne_cluster e)"

lemma foreign_get:
  "foreign_ok K C w \<Longrightarrow> file_get k w = (r, w') \<Longrightarrow> foreign_ok K C w' \<and> moves K C (fb_objs w) (fb_objs w')"
  using frame_foreign file_get_frame by blast

lemma foreign_list:
  "foreign_ok K C w \<Longrightarrow> file_list p w = (r, w') \<Longrightarrow> foreign_ok K C w' \<and> moves K C (fb_objs w) (fb_objs w')"
  using frame_foreign file_list_frame by blast

lemma foreign_cas:
  assumes "foreign_ok K C w" "file_compare_and_swap k g b w = (r, w')"
  shows "foreign_ok K C w' \<and> (\<exists>m. moves K C (fb_objs w) m \<and> (fb_objs w' = m \<and> r \<noteq> Inr True \<or> swaps k g b m (fb_objs w')))"
proof -
  note i = interfere_moves [OF assms(1)]
  have cas: "file_cas_now k g b (fb_interfere w) = (r, w')" using assms(2) by (simp add: file_compare_and_swap_def)
  have c: "fb_wf w'" "fb_objs w' = fb_objs (fb_interfere w) \<and> r \<noteq> Inr True \<or> swaps k g b (fb_objs (fb_interfere w)) (fb_objs w')"
    using file_cas_now_spec [OF _ cas] i by (auto simp: foreign_ok_def)
  then have "evolves (fb_objs (fb_interfere w)) (fb_objs w')" by (auto intro: swaps_evolves)
  with i c(1) file_cas_now_foreign [OF cas] have "foreign_ok K C w'" by (auto intro: foreign_ok_evolves)
  with i c(2) show ?thesis by blast
qed

interpretation node: bucket node_bucket node_objs "node_wf K C" "moves K C" for K C
proof
  show "evolves m m'" if "moves K C m m'" for m m' using that by (rule moves_evolves)
  show "node_wf K C w' \<and> moves K C (node_objs w) (node_objs w')"
    if "node_wf K C w" "b_get node_bucket k w = (r, w')" for w k r w'
    using that foreign_get by (auto simp: node_bucket_def on_bucket_def eff_simps node_wf_def node_objs_def)
  show "x = node_objs w' k" if "node_wf K C w" "b_get node_bucket k w = (Inr x, w')" for w k x w'
    using that file_get_spec
    by (auto simp: node_bucket_def on_bucket_def eff_simps node_wf_def node_objs_def foreign_ok_def)
  show "node_wf K C w' \<and> (\<exists>m. moves K C (node_objs w) m \<and> (node_objs w' = m \<or> swaps k g b m (node_objs w')))"
    if "node_wf K C w" "b_cas node_bucket k g b w = (r, w')" for w k g b r w'
    using that foreign_cas by (fastforce simp: node_bucket_def on_bucket_def eff_simps node_wf_def node_objs_def)
  show "\<exists>m. moves K C (node_objs w) m \<and> swaps k g b m (node_objs w')"
    if "node_wf K C w" "b_cas node_bucket k g b w = (Inr True, w')" for w k g b w'
    using that foreign_cas by (fastforce simp: node_bucket_def on_bucket_def eff_simps node_wf_def node_objs_def)
  show "node_wf K C w' \<and> moves K C (node_objs w) (node_objs w')"
    if "node_wf K C w" "b_list node_bucket p w = (r, w')" for w p r w'
    using that foreign_list by (auto simp: node_bucket_def on_bucket_def eff_simps node_wf_def node_objs_def)
  show "set ks = {k \<in> dom (node_objs w'). starts_with k p} \<and> sorted ks"
    if "node_wf K C w" "b_list node_bucket p w = (Inr ks, w')" for w p ks w'
    using that file_list_spec
    by (auto simp: node_bucket_def on_bucket_def eff_simps node_wf_def node_objs_def foreign_ok_def)
qed

lemma node_cluster_sound:
  assumes "keeps_hosts m P" shows "soundly node_objs (node_wf K C) K C (on_cluster m) P"
proof -
  have "hosts_named c' \<and> (\<forall>x. r = Inr x \<longrightarrow> P x)" if "hosts_named c" "m c = (r, c')" for c r c'
    using assms that by (cases r) (auto dest: tripleD_Ok tripleD_Err)
  then show ?thesis
    by (fastforce simp: soundly_def safely_def on_cluster_def eff_simps node_objs_def node_wf_def)
qed

lemma node_cluster_legal:
  assumes "keeps_hosts m P" shows "legal_op node_objs (node_wf K C) K C (on_cluster m)"
proof -
  have "hosts_named c'" if "hosts_named c" "m c = (r, c')" for c r c'
    using assms that by (cases r) (auto dest: tripleD_Ok tripleD_Err)
  then show ?thesis
    by (fastforce simp: legal_op_def on_cluster_def eff_simps node_objs_def node_wf_def)
qed

lemma node_memory_legal: "legal_op node_objs (node_wf K C) K C node_clock" "legal_op node_objs (node_wf K C) K C node_uuid"
  "legal_op node_objs (node_wf K C) K C (retE x)"
  by (auto simp: legal_op_def node_clock_def node_uuid_def node_objs_def node_wf_def split: list.splits)

lemma file_runtime_env:
  assumes "codec_laws K"
  shows "runtime_env (file_runtime L K access origin replicas rounds) node_objs (node_wf K (l_crypto L)) (moves K (l_crypto L))
    (node_transport L)"
proof -
  let ?R = "file_runtime L K access origin replicas rounds"
  have sel: "rn_codec ?R = K" "rn_libs ?R = L" "rn_authority ?R = node_bucket" "rn_clock ?R = node_clock" "rn_uuid ?R = node_uuid"
    "rn_system_clock ?R = on_cluster (\<lambda>c. (cl_now c, c))" "rn_fleet ?R = replica_set replicas" "rn_peers ?R = node_peers L access"
    "rn_order ?R = (\<lambda>e ts. rotate (ne_order e) ts)" "rn_shuffle ?R = (\<lambda>e rs. rotate (ne_order e) rs)"
    by (simp_all add: file_runtime_def)
  have now: "keeps_hosts (\<lambda>c. (cl_now c, c)) (\<lambda>_. True)" by (simp add: triple_def split: sum.split)
  have head: "keeps_hosts (peer_head L access peer stream)
      (\<lambda>h. \<forall>r. sth_latest h = Some r \<longrightarrow> sr_object r = stream_object (sth_stream h) (sr_state_version r))" for peer stream
    by (rule triple_weaken [OF keeps_peer(3)]) (auto simp: head_named_def)
  have seal: "keeps_hosts (peer_seal L access peer sid)
      (\<lambda>h. list_all (\<lambda>h. snapshot_name (rs_prefix (sth_stream h))) (seh_streams h))" for peer sid
    by (rule triple_weaken [OF keeps_peer(4)]) (auto simp: head_named_def list_all_iff)
  have codec: "ownership_from_slice K (ownership_to_vec K r) = Some r" for r using assms by (simp add: codec_laws_def)
  note ops = node_memory_legal node_memory_legal(3) [unfolded retE_def] keeps_transport(2) [THEN node_cluster_legal]
    keeps_peer(1,2) [THEN node_cluster_legal] now [THEN node_cluster_legal] head [THEN node_cluster_sound]
    seal [THEN node_cluster_sound]
  show ?thesis
    by (intro runtime_env.intro runtime_env_axioms.intro)
      (unfold sel, rule node.bucket_axioms, assumption,
       simp_all add: ops codec node_peers_def node_transport_def replica_set_def default_repair_def)
qed

interpretation filed: runtime_env "file_runtime L json_codec access origin replicas rounds" node_objs
    "node_wf json_codec (l_crypto L)" "moves json_codec (l_crypto L)" "node_transport L" for L access origin replicas rounds
  using json_codec_laws by (rule file_runtime_env)

section \<open>Properties\<close>

text \<open>
  C1: Ownership is fenced. Any number of processes run any sequence of calls (registering, renewing and
  releasing activations, recovering and retiring sessions, changing replica sets, writing, reading) on one
  directory and one cluster, while others write legally to the directory between any two accesses of it,
  and any access or request may fail. An actor that has an owner record keeps one; its epoch never goes
  back, and as long as the epoch is the same the record belongs to the same session with the same base.
\<close>

theorem ownership_fenced:
  assumes "codec_laws K"
    and "node_wf K (l_crypto L) e" "owners_ok K (l_crypto L) (node_objs e)" "list_all (call_ok \<circ> snd) calls"
    and "fold (system_step (file_runtime L K access origin replicas rounds) (node_transport L)) calls (mem, e) = (mem', e')"
    and "owner_path (l_crypto L) object = Ok key" "owner_at K (node_objs e) key r"
  shows "\<exists>r'. owner_at K (node_objs e') key r' \<and> ow_actor r' = ow_actor r \<and> ow_region r' = ow_region r \<and>
    (ow_epoch r < ow_epoch r' \<or>
     ow_epoch r' = ow_epoch r \<and> ow_base r' = ow_base r \<and> hl_id (ow_lease r') = hl_id (ow_lease r) \<and>
     hl_session_id (ow_lease r') = hl_session_id (ow_lease r))"
proof -
  let ?R = "file_runtime L K access origin replicas rounds"
  have sel: "rn_codec ?R = K" "rn_libs ?R = L" by (simp_all add: file_runtime_def)
  have "moves K (l_crypto L) (node_objs e) (node_objs e')"
    using runtime_env.system_moves [OF file_runtime_env [OF assms(1), of L access origin replicas rounds], of calls "(mem, e)"]
      assms(2-5) by (simp add: sel)
  from moves_later [OF this owner_path_name [OF assms(6)] assms(7)] show ?thesis
    by (auto simp: later_def same_activation_def)
qed

text \<open>A directory with the record of one actor.\<close>

definition demo_owner :: ownership where
  "demo_owner = \<lparr>ow_inventory = default_inventory,
     ow_lease = \<lparr>hl_id = ''host-a'', hl_session_id = ''s1'', hl_route = ''http://a'', hl_expires_at_ms = 1000\<rparr>,
     ow_mutation = ''m0'', ow_actor = sc_actor demo_scope, ow_epoch = 1, ow_region = ''r1'', ow_base = None\<rparr>"

definition demo_owner_key :: string where
  "demo_owner_key = (case owner_path hex_crypto (storage_key (sc_actor demo_scope)) of Inr k \<Rightarrow> k | Inl _ \<Rightarrow> [])"

definition demo_bucket :: file_bucket where
  "demo_bucket = snd (file_cas_now demo_owner_key None (ownership_to_vec json_codec demo_owner) new_file_bucket)"

definition demo_node :: node_env where
  "demo_node = \<lparr>ne_bucket = demo_bucket,
     ne_cluster = \<lparr>cl_hosts = [], cl_net = [], cl_now = Ok 5000, cl_host_now = Ok 5000\<rparr>,
     ne_clock = [Ok 5000, Ok 5000, Ok 5000, Ok 5000], ne_uuids = 0, ne_order = 1\<rparr>"

lemma demo_owner_path: "owner_path hex_crypto (storage_key (sc_actor demo_scope)) = Inr demo_owner_key"
proof -
  have "is_ok (owner_path hex_crypto (storage_key (sc_actor demo_scope)))" by code_simp
  then show ?thesis by (auto simp: demo_owner_key_def dest!: is_okE)
qed

lemma demo_cas: "fst (file_cas_now demo_owner_key None (ownership_to_vec json_codec demo_owner) new_file_bucket) = Inr True"
  by code_simp

lemma demo_node_objs: "\<exists>g. node_objs demo_node = [demo_owner_key \<mapsto> \<lparr>obj_generation = g, obj_bytes = ownership_to_vec json_codec demo_owner\<rparr>]"
  and demo_node_wf: "node_wf json_codec hex_crypto demo_node"
proof -
  have new: "fb_wf new_file_bucket" "fb_objs new_file_bucket = Map.empty" "fb_foreign new_file_bucket = []"
    by (auto simp: fb_wf_def new_file_bucket_def fb_objs_def)
  have cas: "file_cas_now demo_owner_key None (ownership_to_vec json_codec demo_owner) new_file_bucket = (Inr True, demo_bucket)"
    using demo_cas unfolding demo_bucket_def by (metis prod.collapse)
  from file_cas_now_spec [OF new(1) cas] file_cas_now_foreign [OF cas] new
  show "\<exists>g. node_objs demo_node = [demo_owner_key \<mapsto> \<lparr>obj_generation = g, obj_bytes = ownership_to_vec json_codec demo_owner\<rparr>]"
    "node_wf json_codec hex_crypto demo_node"
    by (auto simp: node_objs_def demo_node_def swaps_def node_wf_def foreign_ok_def hosts_named_def)
qed

theorem ownership_fenced_witness:
  "let mem = (\<lambda>_. (Map.empty, Map.empty));
       calls = [(0, CGetOwner (storage_key (ow_actor demo_owner))),
         (1, CRegister (ow_actor demo_owner)
           \<lparr>hr_id = ''host-b'', hr_session_id = ''s2'', hr_route = ''http://b'', hr_duration_ms = 1000\<rparr> ''r1'' False)];
       e' = snd (fold (system_step (file_runtime demo_libs json_codec demo_access ''o'' [] 3) (node_transport demo_libs)) calls
         (mem, demo_node))
   in \<exists>r'. owner_at json_codec (node_objs e') demo_owner_key r' \<and> ow_actor r' = ow_actor demo_owner \<and>
        (1 < ow_epoch r' \<or> ow_epoch r' = 1 \<and> hl_id (ow_lease r') = ''host-a'' \<and> hl_session_id (ow_lease r') = ''s1'')"
proof -
  let ?calls = "[(0, CGetOwner (storage_key (ow_actor demo_owner))),
    (1, CRegister (ow_actor demo_owner)
      \<lparr>hr_id = ''host-b'', hr_session_id = ''s2'', hr_route = ''http://b'', hr_duration_ms = 1000\<rparr> ''r1'' False)]"
  have L: "l_crypto demo_libs = hex_crypto" by (simp add: demo_libs_def)
  have r: "ownership_from_slice json_codec (ownership_to_vec json_codec demo_owner) = Some demo_owner"
    using json_codec_laws by (simp add: codec_laws_def)
  obtain g where g: "node_objs demo_node = [demo_owner_key \<mapsto> \<lparr>obj_generation = g, obj_bytes = ownership_to_vec json_codec demo_owner\<rparr>]"
    using demo_node_objs by blast
  then have at: "owner_at json_codec (node_objs demo_node) demo_owner_key demo_owner" by (simp add: owner_at_def r)
  have ok: "owners_ok json_codec (l_crypto demo_libs) (node_objs demo_node)"
  proof -
    have "owner_path hex_crypto (storage_key (ow_actor demo_owner)) = Inr demo_owner_key" "base_ok demo_owner"
      using demo_owner_path by (simp_all add: demo_owner_def base_ok_def)
    with r show ?thesis unfolding g L owners_ok_def by auto
  qed
  have calls: "list_all (call_ok \<circ> snd) ?calls" by simp
  from ownership_fenced [OF json_codec_laws demo_node_wf [folded L] ok calls prod.collapse [symmetric]
      demo_owner_path [folded L] at, where access = demo_access and origin = "''o''" and replicas = "[]" and rounds = 3
      and mem = "\<lambda>_. (Map.empty, Map.empty)"]
  show ?thesis unfolding Let_def by (fastforce simp: demo_owner_def)
qed

end
