(* ===== verification/Host_Node.thy ===== *)
theory Host_Node
  imports Host_Lease File_Runtime
begin

text \<open>
  The actor runtime on the storage of its host: what the services of a runtime keep, every invocation
  keeps, so a host answers only while its lease lasts. The laws of time hold for the file runtime on
  an environment that counts nanoseconds.
\<close>

section \<open>What the services keep, the runtime keeps\<close>

definition in_cached :: "('e \<Rightarrow> bool) \<Rightarrow> cached_actor_state \<times> 'e \<Rightarrow> bool" where
  "in_cached I w = I (snd w)"

definition in_runtime :: "('e \<Rightarrow> bool) \<Rightarrow> 'e actor_runtime \<Rightarrow> bool" where
  "in_runtime I rt = I (ar_env rt)"

lemma keeps_envC [keeps_rules]: "keeps I m \<Longrightarrow> keeps (in_cached I) (envC m)"
  by (rule keepsI) (auto simp: envC_def in_cached_def eff_simps dest: keepsD)

lemma keeps_modC [keeps_rules]: "keeps (in_cached I) (modC f)"
  by (rule keepsI) (auto simp: modC_def in_cached_def)

lemma keeps_envA [keeps_rules]: "keeps I m \<Longrightarrow> keeps (in_runtime I) (envA m)"
  by (rule keepsI) (auto simp: envA_def in_runtime_def eff_simps dest: keepsD)

lemma keeps_on_cached [keeps_rules]:
  assumes "keeps (in_cached I) m"
  shows "keeps (in_runtime I) (on_cached c m)"
proof (rule keepsI)
  fix rt r rt' assume I: "in_runtime I rt" and run: "on_cached c m rt = (r, rt')"
  obtain r' c' e' where m: "m (c, ar_env rt) = (r', (c', e'))" by (metis prod.exhaust)
  with keepsD [OF assms, of "(c, ar_env rt)"] I have "I e'" by (auto simp: in_cached_def in_runtime_def)
  with run m show "in_runtime I rt'" by (auto simp: on_cached_def in_runtime_def)
qed

lemma keeps_cached [keeps_rules]: "keeps (in_runtime I) (put_cached c)" "keeps (in_runtime I) take_cached"
  by (rule keepsI, auto simp: put_cached_def take_cached_def in_runtime_def)+

lemma keeps_execution_result [keeps_rules]:
  assumes "\<And>r fs. keeps I (f r fs)" "\<And>e. keeps I (g e)" "keeps I h" "keeps I k"
  shows "keeps I (case v of Completed r fs \<Rightarrow> f r fs | Failed e \<Rightarrow> g e | Reroute \<Rightarrow> h | HostUnavailable \<Rightarrow> k)"
  using assms by (cases v) simp_all

lemma keeps_prepared [keeps_rules]:
  assumes "\<And>x. keeps I (f x)" "\<And>x. keeps I (g x)"
  shows "keeps I (case v of PExecute x \<Rightarrow> f x | PCompleted x \<Rightarrow> g x)"
  using assms by (cases v) simp_all

lemma keeps_method_outcome [keeps_rules]:
  assumes "\<And>x. keeps I (f x)" "\<And>x y z. keeps I (g x y z)" "\<And>x. keeps I (h x)"
  shows "keeps I (case v of MInterleaved x \<Rightarrow> f x | MCompleted x y z \<Rightarrow> g x y z | MFailed x \<Rightarrow> h x)"
  using assms by (cases v) simp_all

lemma keeps_socket_outcome [keeps_rules]:
  assumes "\<And>x. keeps I (f x)" "\<And>x y. keeps I (g x y)" "\<And>x. keeps I (h x)"
  shows "keeps I (case v of SInterleaved x \<Rightarrow> f x | SHandled x y \<Rightarrow> g x y | SFailed x \<Rightarrow> h x)"
  using assms by (cases v) simp_all

locale services_frame =
  fixes S :: "'e actor_services" and I :: "'e \<Rightarrow> bool"
  assumes millis: "keeps I (sv_unix_millis S)"
    and hydrate: "keeps I (x_hydrate S actor state)"
    and invoke: "keeps I (x_invoke S i state)"
    and handle: "keeps I (x_handle_socket S j state)"
    and evicting: "keeps I (x_evict S actor)"
    and acquire: "keeps I (s_acquire S actor host)"
    and load_state: "keeps I (s_load_state S actor host epoch)"
    and authority: "keeps I (s_ensure_authority S)"
    and prepare: "keeps I (s_prepare_write S actor host epoch version)"
    and writing: "keeps I (s_write_snapshot S plan bytes)"
    and publish: "keeps I (s_publish S actor effects)"
begin

lemmas rules = keeps_rules millis hydrate invoke handle evicting acquire load_state authority prepare writing publish

lemma frame_pending: "keeps (in_cached I) (finish_pending_commit S i)"
  unfolding finish_pending_commit_def renew_pending_def settle_def by (intro rules)

lemma frame_publish: "keeps (in_cached I) (publish_result S i epoch result state origin)"
  unfolding publish_result_def state_write_ticket_def Let_def by (intro rules frame_pending)

lemma frame_take: "keeps (in_runtime I) (take_or_load_state S actor epoch)"
  unfolding take_or_load_state_def load_state_def by (intro rules)

lemma frame_evict: "keeps (in_runtime I) (evict S actor)"
  unfolding evict_def by (intro rules)

lemma frame_complete: "keeps (in_runtime I) (complete_with_state S actor version result effects)"
  unfolding complete_with_state_def by (intro rules)

lemma frame_commit: "keeps (in_runtime I) (commit_outcome S i epoch cached outcome origin)"
  unfolding commit_outcome_def by (intro rules frame_complete frame_publish frame_evict)

lemma frame_prepare: "keeps (in_runtime I) (prepare_invocation S i epoch replay)"
  unfolding prepare_invocation_def by (intro rules frame_take frame_pending)

lemma frame_method: "keeps (in_runtime I) (execute_method S i state)"
  unfolding execute_method_def method_result_def by (intro rules frame_evict)

lemma frame_socket: "keeps (in_runtime I) (execute_socket_event S j state)"
  unfolding execute_socket_event_def by (intro rules frame_evict)

lemma frame_guarded: "keeps (in_runtime I) m \<Longrightarrow> keeps (in_runtime I) (guarded S m)"
  unfolding guarded_def by (intro rules)

lemma frame_invoke_actor: "keeps (in_runtime I) (invoke_actor S i epoch)"
  unfolding invoke_actor_def invoke_actor_once_def finish_method_def
  by (intro frame_guarded rules frame_prepare frame_method frame_commit)

lemma frame_handle_socket_event: "keeps (in_runtime I) (handle_socket_event S j epoch)"
  unfolding handle_socket_event_def handle_socket_event_once_def
  by (intro frame_guarded rules frame_take frame_pending frame_socket frame_commit)

lemma keeps_activation: "keeps (in_runtime I) (modE (\<lambda>rt. rt\<lparr>ar_activation := x\<rparr>))"
  by (rule keepsI) (auto simp: in_runtime_def)

lemma frame_activate: "keeps (in_runtime I) (rt_activate_actor S actor)"
  unfolding rt_activate_actor_def by (intro rules keeps_activation)

end

interpretation hosted: services_frame "host_services H S" "covered a" for H S a
  by unfold_locales (simp_all add: host_services_def covered_storage covered_calls covered_authority)

section \<open>Every call keeps the invariant\<close>

context host_time
begin

lemma covered_step: "in_runtime (covered (hn_anchor H)) n \<Longrightarrow> in_runtime (covered (hn_anchor H)) (node_step H S c n)"
  by (cases c) (auto intro: keepsD [OF _ _ prod.collapse [symmetric]] keeps_envA covered_register covered_unregister
      covered_calls hosted.frame_activate hosted.frame_invoke_actor hosted.frame_handle_socket_event)

lemma covered_run: "in_runtime (covered (hn_anchor H)) n \<Longrightarrow> in_runtime (covered (hn_anchor H)) (node_run H S calls n)"
  unfolding node_run_def by (induction calls arbitrary: n) (simp_all add: covered_step)

lemma covered_new:
  "new_host_storage H host session region e = Inr s \<Longrightarrow>
     in_runtime (covered (hn_anchor H)) (new_actor_runtime (with_actor actor new_actor s))"
  by (auto simp: new_host_storage_def result_simps in_runtime_def new_actor_runtime_def with_actor_def covered_def default_fence_def)

end

section \<open>The deadline of the maintainer\<close>

context host_time
begin

lemma register_run:
  assumes "covered a s" "hs_register H request report s = (Inr lease, s')"
  shows "lasting (hn_anchor H) (host_now s) (hr_duration_ms request) lease \<and> host_now s \<le> host_now s'"
proof -
  from assms(2) obtain begun actor s1 s2 s3 s4 s5 t where
    i1: "instant_of s = (Inr begun, s1)" and b: "fenceE (fence_begin begun) s1 = (Inr (), s2)" and
    r: "(if hs_lease s2 = None then register_first H actor request
      else storageE (envE (renew_activation (hn_runtime H) actor request (report_inventory actor report)))) s2 = (Inr lease, s3)" and
    i2: "instant_of s3 = (Inr t, s4)" and f: "fenceE (fence_confirm begun (hr_duration_ms request) t) s4 = (Inr (), s5)" and
    s': "hs_runtime s' = hs_runtime s5"
    by (auto simp: hs_register_def eff_simps result_simps notify_observer_def)
  have 1: "host_now s \<le> begun" "begun \<le> host_now s1" "covered a s1" using instant_run [OF i1] assms(1) by (cases a, auto)+
  then have 2: "covered a s2" "begun \<le> host_now s2" using keepsD [OF covered_fences(2) _ b] fence_runtime [OF b] by auto
  with tripleD_Ok [OF register_lease _ r] have 3: "begun \<le> host_now s3"
    "lasting (hn_anchor H) begun (hr_duration_ms request) lease" by blast+
  have "host_now s3 \<le> host_now s'" using instant_run [OF i2] fence_runtime [OF f] s' by auto
  with 1 3 show ?thesis unfolding lasting_def using order_trans by (metis (no_types, lifting))
qed

lemma clock_run:
  "clockE H s = (Inr c, s') \<Longrightarrow> \<exists>t. system_now_ms (hn_anchor H) t = Inr c \<and> host_now s \<le> t \<and> t \<le> host_now s' \<and> (\<forall>a. covered a s' = covered a s)"
  unfolding clockE_def by (auto simp: eff_simps dest!: instant_run)

lemma renew_covers:
  assumes "covered a s" "renew_once_with_deadline H M report s = (Inr (lease, deadline), s')"
  shows "covers (hn_anchor H) 0 deadline lease"
proof -
  from assms(2) obtain c1 s1 s2 ta s3 c2 where
    r1: "clockE H s = (Inr c1, s1)" and valid: "unat c1 + unat (lm_lease_duration_ms M) < 2 ^ 64" and
    reg: "hs_register H \<lparr>hr_id = lm_host M, hr_session_id = lm_session_id M, hr_route = lm_route M,
      hr_duration_ms = lm_lease_duration_ms M\<rparr> report s1 = (Inr lease, s2)" and
    anchor: "instant_of s2 = (Inr ta, s3)" and r2: "clockE H s3 = (Inr c2, s')" and
    d: "deadline = ta + nanos (unat (c1 + lm_lease_duration_ms M) - unat c2)"
      "0 < unat (c1 + lm_lease_duration_ms M) - unat c2"
    by (auto simp: renew_once_with_deadline_def eff_simps result_simps Let_def checked_add_def split: if_splits)
  obtain t1 where t1: "system_now_ms (hn_anchor H) t1 = Inr c1" "t1 \<le> host_now s1" "covered a s1"
    using clock_run [OF r1] assms(1) by (cases a) auto
  with register_run [OF t1(3) reg] obtain t' c' where t': "host_now s1 \<le> t'" "system_now_ms (hn_anchor H) t' = Inr c'"
    "unat (hl_expires_at_ms lease) = unat c' + unat (lm_lease_duration_ms M)" by (auto simp: lasting_def)
  obtain t2 where t2: "system_now_ms (hn_anchor H) t2 = Inr c2" "ta \<le> t2"
    using clock_run [OF r2] instant_run [OF anchor] by fastforce
  have sum: "unat (c1 + lm_lease_duration_ms M) = unat c1 + unat (lm_lease_duration_ms M)" using valid by (simp add: unat_word_ariths)
  have "unat c1 \<le> unat c'" using clock_mono [OF t1(1) t'(2)] t1(2) t'(1) by simp
  show ?thesis unfolding covers_def
  proof (intro allI impI)
    fix t c assume "t < deadline" "system_now_ms (hn_anchor H) t = Inr c"
    then have "unat c \<le> unat c2 + (unat (c1 + lm_lease_duration_ms M) - unat c2)"
      using t2 d(1) by (intro clock_window [of _ t _ t2]) (auto simp: nanos_def)
    with d(2) sum t'(3) \<open>unat c1 \<le> unat c'\<close> show "unat c + 0 \<le> unat (hl_expires_at_ms lease)" by linarith
  qed
qed

end

section \<open>Time for the file runtime\<close>

text \<open>
  The environment of the file runtime with the monotonic clock: every operation takes the next delay of a list, and
  none once the list is used up.
\<close>

record timed_env =
  te_now :: instant
  te_delays :: "nat list"
  te_node :: node_env

definition pass :: "timed_env \<Rightarrow> timed_env" where
  "pass e = (case te_delays e of [] \<Rightarrow> e | d # ds \<Rightarrow> e\<lparr>te_now := te_now e + d, te_delays := ds\<rparr>)"

definition timed :: "(node_env, 'a) eff \<Rightarrow> (timed_env, 'a) eff" where
  "timed m e = (case m (te_node e) of (r, n) \<Rightarrow> (r, pass (e\<lparr>te_node := n\<rparr>)))"

definition timed_instant :: "timed_env \<Rightarrow> instant \<times> timed_env" where
  "timed_instant e = (te_now (pass e), pass e)"

definition timed_clock :: "anchor \<Rightarrow> (timed_env, u64) eff" where
  "timed_clock a e = (system_now_ms a (te_now (pass e)), pass e)"

definition timed_runtime :: "anchor \<Rightarrow> node_env runtime \<Rightarrow> timed_env runtime" where
  "timed_runtime a R =
     \<lparr>rn_libs = rn_libs R, rn_codec = rn_codec R, rn_clock = timed_clock a, rn_system_clock = timed_clock a,
      rn_authority = \<lparr>b_get = (\<lambda>k. timed (b_get (rn_authority R) k)), b_cas = (\<lambda>k g b. timed (b_cas (rn_authority R) k g b)),
        b_list = (\<lambda>p. timed (b_list (rn_authority R) p))\<rparr>,
      rn_fleet = \<lparr>f_regions = f_regions (rn_fleet R), f_ensure = (\<lambda>s. timed (f_ensure (rn_fleet R) s)),
        f_repair = (\<lambda>s f. timed (f_repair (rn_fleet R) s f))\<rparr>,
      rn_peers = \<lparr>p_initialize = (\<lambda>t s. timed (p_initialize (rn_peers R) t s)), p_head = (\<lambda>t s. timed (p_head (rn_peers R) t s)),
        p_seal = (\<lambda>t s. timed (p_seal (rn_peers R) t s)), p_read = (\<lambda>t s. timed (p_read (rn_peers R) t s))\<rparr>,
      rn_access = rn_access R, rn_origin = rn_origin R, rn_uuid = timed (rn_uuid R),
      rn_order = (\<lambda>e. rn_order R (te_node e)), rn_shuffle = (\<lambda>e. rn_shuffle R (te_node e)), rn_rounds = rn_rounds R\<rparr>"

definition file_host ::
    "anchor \<Rightarrow> libs \<Rightarrow> runtime_codec \<Rightarrow> replica_access \<Rightarrow> string \<Rightarrow> replica_target list \<Rightarrow> nat \<Rightarrow> timed_env host_node" where
  "file_host a L K access origin replicas rounds =
     \<lparr>hn_runtime = timed_runtime a (file_runtime L K access origin replicas rounds),
      hn_instant = timed_instant, hn_anchor = a\<rparr>"

lemma pass_later: "te_now e \<le> te_now (pass e)"
  by (auto simp: pass_def split: list.split)

lemma keeps_pass: "keeps (\<lambda>e. t \<le> te_now e) (timed m)" "keeps (\<lambda>e. t \<le> te_now e) (timed_clock a)"
proof -
  have "t \<le> te_now e \<Longrightarrow> t \<le> te_now (pass (e\<lparr>te_node := n\<rparr>))" for e n
    using pass_later [of "e\<lparr>te_node := n\<rparr>"] by simp
  then show "keeps (\<lambda>e. t \<le> te_now e) (timed m)" by (intro keepsI) (auto simp: timed_def split: prod.splits)
  show "keeps (\<lambda>e. t \<le> te_now e) (timed_clock a)"
    by (rule keepsI) (auto simp: timed_clock_def intro: order_trans [OF _ pass_later])
qed

interpretation timed: host_time "file_host a L K access origin replicas rounds" te_now for a L K access origin replicas rounds
  by (unfold_locales, unfold_locales)
    (auto simp: file_host_def timed_runtime_def keeps_pass timed_instant_def timed_clock_def pass_later, use pass_later in blast)

text \<open>The hosts of the file runtime and the instant of the last reading of their clock.\<close>

abbreviation node_now :: "timed_env node \<Rightarrow> instant" where
  "node_now n \<equiv> te_now (sto_env (hs_runtime (ar_env n)))"

definition started_node ::
    "timed_env host_node \<Rightarrow> host_id \<Rightarrow> string \<Rightarrow> string \<Rightarrow> actor_key option \<Rightarrow> bool \<Rightarrow> timed_env \<Rightarrow> timed_env node result" where
  "started_node H host session region actor new_actor e =
     bindR (new_host_storage H host session region e) (\<lambda>s. Ok (new_actor_runtime (with_actor actor new_actor s)))"

lemma file_host_covered:
  assumes "started_node (file_host a L K access origin replicas rounds) host session region actor new_actor e = Inr n"
  shows "in_runtime (covered a) (node_run (file_host a L K access origin replicas rounds) S calls n)"
proof -
  let ?H = "file_host a L K access origin replicas rounds"
  have a: "hn_anchor ?H = a" by (simp add: file_host_def)
  from assms obtain s where "new_host_storage ?H host session region e = Inr s"
    "n = new_actor_runtime (with_actor actor new_actor s)" by (auto simp: started_node_def result_simps)
  with timed.covered_run [OF timed.covered_new, of a L K access origin replicas rounds, unfolded a] show ?thesis by blast
qed

lemma authority_passed:
  assumes "hs_ensure_authority (file_host a L K access origin replicas rounds) s = (Inr u, s')" "covered a s"
  shows "\<exists>lease. hs_lease s' = Some lease \<and>
    (\<forall>c. system_now_ms a (te_now (sto_env (hs_runtime s'))) = Inr c \<longrightarrow> unat c + 5000 \<le> unat (hl_expires_at_ms lease))"
  using assms
  by (auto simp: hs_ensure_authority_def eff_simps storageE_def envE_def instantE_def file_host_def timed_instant_def
      fenceE_def fence_check_Ok covered_def covers_def)

section \<open>Properties\<close>

text \<open>
  C27: A host hands out its lease only with time left. Whatever registrations, renewals, releases, activations and
  invocations come before, and however long each operation takes, a host whose authority check passes holds a lease
  that expires at least five seconds after the reading of its own clock.
\<close>

theorem authority_within_lease:
  assumes "H = file_host a L K access origin replicas rounds"
    and "started_node H host session region actor new_actor e = Inr n0" "n = node_run H S calls n0"
    and "hs_current_lease H (ar_env n) = (Inr lease, s)" "system_now_ms a (te_now (sto_env (hs_runtime s))) = Inr c"
  shows "unat c + 5000 \<le> unat (hl_expires_at_ms lease)"
proof -
  have "covered a (ar_env n)" using file_host_covered assms(1-3) by (simp add: in_runtime_def)
  moreover from assms(4) obtain u s1 where "hs_ensure_authority H (ar_env n) = (Inr u, s1)" "hs_lease s1 = Some lease" "s = s1"
    by (auto simp: hs_current_lease_def eff_simps result_simps)
  ultimately show ?thesis using authority_passed [of a L K access origin replicas rounds "ar_env n"] assms(1,5) by fastforce
qed

text \<open>
  C28: A host answers only with time left. After any calls, an invocation that returns an answer ends with a lease that
  expires at least five seconds after the reading of the clock at which the host last checked its authority.
\<close>

theorem answers_within_lease:
  assumes "H = file_host a L K access origin replicas rounds"
    and "started_node H host session region actor new_actor e = Inr n0" "n = node_run H S calls n0"
    and "invoke_actor (host_services H S) i epoch n = (Inr answer, n')" "system_now_ms a (node_now n') = Inr c"
  shows "\<exists>lease. hs_lease (ar_env n') = Some lease \<and> unat c + 5000 \<le> unat (hl_expires_at_ms lease)"
proof -
  let ?S = "host_services H S"
  have "in_runtime (covered a) n" using file_host_covered assms(1-3) by simp
  moreover have "keeps (in_runtime (covered a)) (bindE (envA (s_ensure_authority ?S)) (\<lambda>_. tryE (invoke_actor_once ?S i epoch)))"
    unfolding invoke_actor_once_def finish_method_def
    by (intro hosted.rules hosted.frame_prepare hosted.frame_method hosted.frame_commit)
  moreover from assms(4) obtain n1 where
    "bindE (envA (s_ensure_authority ?S)) (\<lambda>_. tryE (invoke_actor_once ?S i epoch)) n = (Inr (Inr answer), n1)"
    and last: "envA (s_ensure_authority ?S) n1 = (Inr (), n')"
    unfolding invoke_actor_def guarded_def by (auto simp: eff_simps)
  ultimately have "covered a (ar_env n1)" using keepsD by (fastforce simp: in_runtime_def)
  moreover from last obtain s' where "hs_ensure_authority H (ar_env n1) = (Inr (), s')" "ar_env n' = s'"
    by (auto simp: envA_def eff_simps host_services_def)
  ultimately show ?thesis using authority_passed assms(1,5) by blast
qed

text \<open>
  C29: A live lease is not taken over: when the record of an actor has not expired at the reading of the clock, a
  registration of another session fails, remembers no activation and has done nothing but read.
\<close>

theorem live_lease_not_taken:
  assumes "load R (storage_key actor) (sto_env s) = (Inr (Some (g, owner)), e)" "rn_clock R e = (Inr now, e')"
    and "now < hl_expires_at_ms (ow_lease owner)"
  shows "\<exists>err s'. register_activation R actor request region False s = (Inl err, s') \<and> sto_owned s' = sto_owned s \<and>
    sto_sessions s' = sto_sessions s \<and> sto_env s' \<in> {sto_env s, e, e'}"
proof -
  have prev: "\<exists>err w. recover_previous R actor request region (Some (g, owner)) e = (Inl err, w) \<and> w \<in> {e, e'}"
    using assms(2,3) by (auto simp: recover_previous_def ensure_def bindE_def)
  then obtain err w where "recover_previous R actor request region (Some (g, owner)) e = (Inl err, w)" "w \<in> {e, e'}" by blast
  then have "envE (claim_activation R actor request region (Some (g, owner))) (s\<lparr>sto_env := e\<rparr>) = (Inl err, s\<lparr>sto_env := w\<rparr>)"
    by (simp add: claim_activation_def envE_def)
  moreover have "envE (load R (storage_key actor)) s = (Inr (Some (g, owner)), s\<lparr>sto_env := e\<rparr>)"
    using assms(1) by (simp add: envE_def)
  ultimately show ?thesis using \<open>w \<in> {e, e'}\<close>
    by (cases "validate_actor_key actor"; cases "validate_region region"; cases "validate_duration request")
      (auto simp: register_activation_def)
qed

text \<open>
  C30: The local deadline of the lease maintainer never outlasts the lease: at every instant before it, the clock of the host reads
  at most the expiry stamped in the lease.
\<close>

theorem maintainer_deadline:
  assumes "H = file_host a L K access origin replicas rounds"
    and "started_node H host session region actor new_actor e = Inr n0" "n = node_run H S calls n0"
    and "renew_once_with_deadline H M report (ar_env n) = (Inr (lease, deadline), s)"
    and "t < deadline" "system_now_ms a t = Inr c"
  shows "unat c \<le> unat (hl_expires_at_ms lease)"
proof -
  have "covered a (ar_env n)" using file_host_covered assms(1-3) by (simp add: in_runtime_def)
  from timed.renew_covers [OF this assms(4) [unfolded assms(1)]] assms(1,5,6) show ?thesis
    by (auto simp: covers_def file_host_def)
qed

text \<open>A host that registers a new actor in an empty directory.\<close>

definition demo_timed :: timed_env where
  "demo_timed = \<lparr>te_now = 7000000000, te_delays = [1500000, 0, 2000000],
     te_node = demo_node\<lparr>ne_bucket := new_file_bucket\<rparr>\<rparr>"

definition demo_file_host :: "timed_env host_node" where
  "demo_file_host = file_host (0, 0) demo_libs json_codec demo_access ''o'' [] 3"

definition demo_lease_request :: host_lease_request where
  "demo_lease_request = \<lparr>hr_id = ''host-b'', hr_session_id = ''s2'', hr_route = ''http://b'', hr_duration_ms = 30000\<rparr>"

definition demo_timed_services :: "timed_env actor_services" where
  "demo_timed_services = \<lparr>sv_host = ''host-b'', sv_snapshots = demo_snapshots, sv_sockets = sv_sockets demo_services,
     sv_unix_millis = retE 0, x_supports = (\<lambda>_. True), x_hydrate = (\<lambda>_ _. retE ()),
     x_invoke = (\<lambda>_ _. retE (MFailed \<lparr>if_code = ''actor_method_failed'', if_message = ''no''\<rparr>)),
     x_handle_socket = (\<lambda>_ _. retE (SHandled JNull [])), x_evict = (\<lambda>_. retE ()),
     s_acquire = (\<lambda>_ _. failE []), s_load_state = (\<lambda>_ _ _. failE []), s_ensure_authority = retE (),
     s_prepare_write = (\<lambda>_ _ _ _. failE []), s_write_snapshot = (\<lambda>_ _. failE []), s_publish = (\<lambda>_ _. retE ())\<rparr>"

definition demo_start :: "timed_env node result" where
  "demo_start = started_node demo_file_host ''host-b'' ''s2'' ''r1'' (Some (sc_actor demo_scope)) True demo_timed"

definition demo_calls :: "node_call list" where
  "demo_calls = [CallRegister demo_lease_request (None, [], None), CallActivate (sc_actor demo_scope)]"

definition demo_maintainer :: lease_maintainer where
  "demo_maintainer = \<lparr>lm_host = ''host-b'', lm_route = ''http://b'', lm_session_id = ''s2'', lm_lease_duration_ms = 30000,
     lm_renew_every = 10000000000\<rparr>"

definition demo_method :: actor_invocation where
  "demo_method = \<lparr>inv_request_id = ''q1'', inv_actor = sc_actor demo_scope, inv_method = ''m'', inv_args = []\<rparr>"

lemma demo_run:
  "case demo_start of Inl _ \<Rightarrow> False
   | Inr n0 \<Rightarrow>
       let n = node_run demo_file_host demo_timed_services demo_calls n0 in
       (case hs_current_lease demo_file_host (ar_env n) of
          (Inr lease, s) \<Rightarrow> hl_expires_at_ms lease = 37001 \<and> system_now_ms (0, 0) (te_now (sto_env (hs_runtime s))) = Inr 7003
        | _ \<Rightarrow> False) \<and>
       (case invoke_actor (host_services demo_file_host demo_timed_services) demo_method 1 n of
          (r, n') \<Rightarrow> is_ok r \<and> is_ok (system_now_ms (0, 0) (node_now n'))) \<and>
       (case renew_once_with_deadline demo_file_host demo_maintainer (None, [], None) (ar_env (node_run demo_file_host demo_timed_services [] n0)) of
          (Inr (lease, deadline), s) \<Rightarrow> deadline = 37001500000 \<and> hl_expires_at_ms lease = 37003
        | _ \<Rightarrow> False)"
  by code_simp

theorem authority_within_lease_witness:
  "\<exists>n0 lease s. demo_start = Inr n0 \<and>
     hs_current_lease demo_file_host (ar_env (node_run demo_file_host demo_timed_services demo_calls n0)) = (Inr lease, s) \<and>
     unat (7003 :: u64) + 5000 \<le> unat (hl_expires_at_ms lease)"
proof -
  from demo_run obtain n0 lease s where n0: "demo_start = Inr n0"
    and *: "hs_current_lease demo_file_host (ar_env (node_run demo_file_host demo_timed_services demo_calls n0)) = (Inr lease, s)"
      "system_now_ms (0, 0) (te_now (sto_env (hs_runtime s))) = Inr 7003"
    by (auto simp: Let_def split: sum.splits prod.splits) (metis sum.exhaust)
  from authority_within_lease [OF demo_file_host_def n0 [unfolded demo_start_def] refl *] n0 *(1) show ?thesis by blast
qed

theorem answers_within_lease_witness:
  "\<exists>n0 answer n' c lease. demo_start = Inr n0 \<and>
     invoke_actor (host_services demo_file_host demo_timed_services) demo_method 1
       (node_run demo_file_host demo_timed_services demo_calls n0) = (Inr answer, n') \<and>
     hs_lease (ar_env n') = Some lease \<and> unat (c :: u64) + 5000 \<le> unat (hl_expires_at_ms lease)"
proof -
  from demo_run obtain n0 answer n' c where n0: "demo_start = Inr n0"
    and *: "invoke_actor (host_services demo_file_host demo_timed_services) demo_method 1
       (node_run demo_file_host demo_timed_services demo_calls n0) = (Inr answer, n')"
      "system_now_ms (0, 0) (node_now n') = Inr c"
    by (auto simp: Let_def split: sum.splits prod.splits dest!: is_okE)
  from answers_within_lease [OF demo_file_host_def n0 [unfolded demo_start_def] refl *] n0 *(1) show ?thesis by blast
qed

theorem maintainer_deadline_witness:
  "\<exists>n0 lease deadline s. demo_start = Inr n0 \<and>
     renew_once_with_deadline demo_file_host demo_maintainer (None, [], None)
       (ar_env (node_run demo_file_host demo_timed_services [] n0)) = (Inr (lease, deadline), s) \<and>
     unat (37001 :: u64) \<le> unat (hl_expires_at_ms lease)"
proof -
  from demo_run obtain n0 lease deadline s where n0: "demo_start = Inr n0"
    and *: "renew_once_with_deadline demo_file_host demo_maintainer (None, [], None)
       (ar_env (node_run demo_file_host demo_timed_services [] n0)) = (Inr (lease, deadline), s)" "deadline = 37001500000"
    by (auto simp: Let_def split: sum.splits prod.splits)
  have "system_now_ms (0, 0) 37001400000 = Inr 37001" by code_simp
  from maintainer_deadline [OF demo_file_host_def n0 [unfolded demo_start_def] refl *(1) _ this] n0 * show ?thesis by auto
qed

text \<open>A runtime that is asked for the record of the actor and reads the clock.\<close>

definition demo_expiring :: ownership where
  "demo_expiring = demo_owner\<lparr>ow_lease := (ow_lease demo_owner)\<lparr>hl_expires_at_ms := 9000\<rparr>\<rparr>"

definition demo_claims :: "nat runtime" where
  "demo_claims = undefined\<lparr>rn_libs := demo_libs, rn_codec := json_codec, rn_clock := (\<lambda>e. (Inr 5000, Suc e)),
     rn_authority := \<lparr>b_get = (\<lambda>k. retE (Some \<lparr>obj_generation = 1, obj_bytes = ownership_to_vec json_codec demo_expiring\<rparr>)),
       b_cas = (\<lambda>_ _ _. retE True), b_list = (\<lambda>_. retE [])\<rparr>\<rparr>"

theorem live_lease_not_taken_witness:
  "\<exists>err s'. register_activation demo_claims (sc_actor demo_scope) demo_lease_request ''r1'' False
     \<lparr>sto_owned = Map.empty, sto_sessions = Map.empty, sto_env = 0\<rparr> = (Inl err, s') \<and> sto_owned s' = Map.empty \<and> sto_env s' \<in> {0, 1}"
proof -
  have "load demo_claims (storage_key (sc_actor demo_scope)) 0 = (Inr (Some (1, demo_expiring)), 0)"
    using json_codec_laws demo_owner_path
    by (simp add: load_def demo_claims_def codec_laws_def ownership_key_def demo_libs_def ok_or_def)
  moreover have "rn_clock demo_claims 0 = (Inr 5000, 1)" by (simp add: demo_claims_def)
  moreover have "(5000 :: u64) < hl_expires_at_ms (ow_lease demo_expiring)" by (simp add: demo_expiring_def)
  ultimately show ?thesis
    using live_lease_not_taken [of demo_claims "sc_actor demo_scope" "\<lparr>sto_owned = Map.empty, sto_sessions = Map.empty, sto_env = 0\<rparr>"]
    by fastforce
qed

end
