(* ===== verification/Replication_Safety.thy ===== *)
theory Replication_Safety
  imports State_Replication Host_Node
begin

text \<open>
  What replicated writes guarantee: an acknowledged write is in the bucket or on a whole set of replicas, and a repair
  enables a new set only once it holds the last acknowledged write. The locale \<open>replicated_host\<close> asks of the
  environment that its operations only add to what the bucket and the replicas hold; the file runtime is its
  interpretation.
\<close>

lemma keeps_conv: "keeps P m \<longleftrightarrow> (\<forall>e r e'. P e \<longrightarrow> m e = (r, e') \<longrightarrow> P e')"
  unfolding keeps_def triple_def by (auto split: sum.splits)

lemma keeps_snd: "keeps P m \<Longrightarrow> P e \<Longrightarrow> P (snd (m e))"
  by (metis keepsD prod.collapse)

section \<open>The environment\<close>

text \<open>A replica target of a ticket is signed for a member and a stream.\<close>

definition signs :: "libs \<Rightarrow> replica_access \<Rightarrow> replica_stream \<Rightarrow> replica_target \<Rightarrow> replica_target \<Rightarrow> bool" where
  "signs L access st member target \<longleftrightarrow>
     rt_host_id target = rt_host_id member \<and>
     (\<exists>g. gr_stream g = Some st \<and> access_url L access (rt_url member) g = Ok (rt_url target))"

locale replicated_host =
  fixes H :: "'e host_node" and T :: "'e state_transport"
    and I :: "'e \<Rightarrow> bool" and le :: "'e \<Rightarrow> 'e \<Rightarrow> bool"
    and held :: "string \<Rightarrow> replica_stream \<Rightarrow> snapshot_ref \<Rightarrow> 'e \<Rightarrow> bool" and stored :: "string \<Rightarrow> bytes \<Rightarrow> 'e \<Rightarrow> bool"
    and st :: replica_stream and scope :: replica_scope
  assumes refl: "le e e"
    and trans: "le e1 e2 \<Longrightarrow> le e2 e3 \<Longrightarrow> le e1 e3"
    and held_le: "held u st r e \<Longrightarrow> le e e' \<Longrightarrow> held u st r e'"
    and stored_le: "stored k b e \<Longrightarrow> le e e' \<Longrightarrow> stored k b e'"
    and session: "rs_session st = scope_identity (rn_crypto (hn_runtime H)) scope"
    and instant: "keeps (\<lambda>e. I e \<and> le e0 e) (instantE H)"
    and system_clock: "keeps (\<lambda>e. I e \<and> le e0 e) (rn_system_clock (hn_runtime H))"
    and get: "keeps (\<lambda>e. I e \<and> le e0 e) (b_get (rn_authority (hn_runtime H)) k)"
    and create: "keeps (\<lambda>e. I e \<and> le e0 e) (b_cas (rn_authority (hn_runtime H)) k None b)"
    and swap: "keeps (\<lambda>e. I e \<and> le e0 e) (b_cas (rn_authority (hn_runtime H)) (session_key C host sid) g b)"
    and repair: "keeps (\<lambda>e. I e \<and> le e0 e) (f_repair (rn_fleet (hn_runtime H)) sc hosts)"
    and initialize: "keeps (\<lambda>e. I e \<and> le e0 e) (p_initialize (rn_peers (hn_runtime H)) t (rs_session st))"
    and head: "keeps (\<lambda>e. I e \<and> le e0 e) (p_head (rn_peers (hn_runtime H)) t stream)"
    and append_keeps: "signs (rn_libs (hn_runtime H)) (rn_access (hn_runtime H)) st m t \<Longrightarrow>
      keeps (\<lambda>e. I e \<and> le e0 e) (t_write T (rt_url t) b)"
    and appended: "signs (rn_libs (hn_runtime H)) (rn_access (hn_runtime H)) st m t \<Longrightarrow> I e \<Longrightarrow>
      t_write T (rt_url t) b e = (Inr w, e') \<Longrightarrow>
      \<exists>r. stream_snapshot (rn_crypto (hn_runtime H)) (rn_snapshots (hn_runtime H)) st b = Ok r \<and> held (rt_url m) st r e'"
    and persisted: "starts_with k (rs_prefix st) \<Longrightarrow> I e \<Longrightarrow> replace (rn_authority (hn_runtime H)) k None b e = (Inr True, e') \<Longrightarrow> stored k b e'"
begin

abbreviation R :: "'e runtime" where "R \<equiv> hn_runtime H"

text \<open>Operations that only add.\<close>

definition adds :: "('e, 'a) eff \<Rightarrow> bool" where
  "adds m \<longleftrightarrow> (\<forall>e0. keeps (\<lambda>e. I e \<and> le e0 e) m)"

lemma addsD: "adds m \<Longrightarrow> I e \<Longrightarrow> m e = (r, e') \<Longrightarrow> I e' \<and> le e e'"
  unfolding adds_def using keepsD [of "\<lambda>x. I x \<and> le e x" m e] refl by blast

lemmas primitives = instant system_clock get create swap repair initialize head

lemma adds_replace_new: "adds (replace (rn_authority R) k None b)"
  unfolding adds_def replace_def by (intro allI keeps_rules primitives)

lemma adds_replace_session: "adds (replace (rn_authority R) (session_key C host sid) g b)"
  unfolding adds_def replace_def by (intro allI keeps_rules primitives)

lemma adds_write_snapshot: "adds (write_snapshot R plan b)"
  unfolding adds_def write_snapshot_def persist_def
  by (intro allI keeps_rules adds_replace_new [unfolded adds_def, rule_format])

lemma write_snapshot_stored:
  assumes "wp_stream plan = st" "I e" "write_snapshot R plan b e = (Inr w, e')"
  shows "w = Written \<and> stored (wp_object_name plan) b e'"
proof -
  from assms obtain r where r: "stream_snapshot (rn_crypto R) (rn_snapshots R) st b = Inr r" "sr_object r = wp_object_name plan"
    "replace (rn_authority R) (wp_object_name plan) None b e = (Inr True, e')" "w = Written"
    by (auto simp: write_snapshot_def persist_def eff_simps result_simps simp del: stream_snapshot_Ok)
  have "starts_with (wp_object_name plan) (rs_prefix st)"
    using stream_snapshot_facts(1) [OF r(1)] r(2) stream_object_prefix by metis
  with persisted assms(2) r show ?thesis by blast
qed

lemma adds_make_write_plan: "adds (make_write_plan R record version replicas)"
  unfolding adds_def make_write_plan_def grantE_def by (intro allI keeps_rules primitives)

lemma adds_join: "(\<And>t. adds (f t)) \<Longrightarrow> adds (join_replicas R f ts)"
  unfolding adds_def join_replicas_def by (intro allI keeps_rules) blast

lemma adds_seed_write:
  assumes "wp_stream plan = st"
  shows "adds (seed_write R T plan b t)"
  unfolding adds_def keeps_conv seed_write_def grantE_def
proof (intro allI impI, elim conjE)
  fix e0 e r e'
  assume e: "I e" "le e0 e"
    and run: "bindE (bindE (tryE (rn_system_clock R)) (\<lambda>now. liftE (grant now ''APPEND'' (rt_region t) (rs_prefix (wp_stream plan)) 60000)))
      (\<lambda>g. bindE (liftE (access_url (rn_libs R) (rn_access R) (rt_url t) (g\<lparr>gr_host_id := rt_host_id t, gr_stream := Some (wp_stream plan)\<rparr>)))
      (\<lambda>url. bindE (t_write T url b) (\<lambda>_. retE ()))) e = (r, e')"
  obtain c e1 where c: "rn_system_clock R e = (c, e1)" by fastforce
  then have e1: "I e1" "le e0 e1" using keepsD [OF system_clock [of e0], of e] e by auto
  have wrote: "I e2 \<and> le e0 e2" if url: "access_url (rn_libs R) (rn_access R) (rt_url t) (g\<lparr>gr_host_id := rt_host_id t, gr_stream := Some st\<rparr>) = Inr url"
      and w: "t_write T url b e1 = (x, e2)" for g url x e2
  proof -
    have "signs (rn_libs R) (rn_access R) st t (t\<lparr>rt_url := url\<rparr>)"
      unfolding signs_def using url by (auto intro: exI [of _ "g\<lparr>gr_host_id := rt_host_id t, gr_stream := Some st\<rparr>"])
    from keepsD [OF append_keeps [OF this, of e0 b], of e1 x e2] e1 w show ?thesis by simp
  qed
  show "I e' \<and> le e0 e'"
    using run c e1 wrote assms
    by (cases r) (auto simp: eff_simps)
qed

lemma adds_seed_replicas:
  assumes "\<And>plan b. newest = Some (plan, b) \<Longrightarrow> wp_stream plan = st"
  shows "adds (seed_replicas R T (rs_session st) replicas previous newest)"
proof -
  have seed: "keeps (\<lambda>e. I e \<and> le e0 e) (seed_write R T plan b t)" if "newest = Some (plan, b)" for e0 plan b t
    using adds_seed_write assms that unfolding adds_def by blast
  have join: "keeps (\<lambda>e. I e \<and> le e0 e) (join_replicas R (\<lambda>t. p_initialize (rn_peers R) t (rs_session st)) ts)" for e0 ts
    by (rule adds_join [unfolded adds_def, rule_format]) (rule initialize)
  show ?thesis
  proof (cases newest)
    case None
    show ?thesis unfolding adds_def seed_replicas_def None option.case by (intro allI keeps_rules join)
  next
    case (Some x)
    then obtain plan b where x: "newest = Some (plan, b)" by (cases x) auto
    show ?thesis
      unfolding adds_def seed_replicas_def x option.case prod.case by (intro allI keeps_rules join seed x)
  qed
qed

lemma seed_write_held:
  assumes "wp_stream plan = st" "I e" "seed_write R T plan b t e = (Inr u, e')"
  shows "\<exists>r. stream_snapshot (rn_crypto R) (rn_snapshots R) st b = Ok r \<and> held (rt_url t) st r e'"
proof -
  from assms(3) obtain g e1 url w where e1: "grantE R ''APPEND'' (rt_region t) (rs_prefix (wp_stream plan)) 60000 e = (Inr g, e1)"
    and url: "access_url (rn_libs R) (rn_access R) (rt_url t) (g\<lparr>gr_host_id := rt_host_id t, gr_stream := Some (wp_stream plan)\<rparr>) = Inr url"
    and w: "t_write T url b e1 = (Inr w, e')"
    by (auto simp: seed_write_def eff_simps)
  have "keeps (\<lambda>x. I x \<and> le e x) (grantE R ''APPEND'' (rt_region t) (rs_prefix (wp_stream plan)) 60000)"
    unfolding grantE_def by (intro keeps_rules primitives)
  from keepsD [OF this _ e1] have "I e1" using assms(2) refl by blast
  moreover have "signs (rn_libs R) (rn_access R) st t (t\<lparr>rt_url := url\<rparr>)"
    unfolding signs_def using url assms(1) by (auto intro: exI [of _ "g\<lparr>gr_host_id := rt_host_id t, gr_stream := Some st\<rparr>"])
  ultimately show ?thesis using appended [of t "t\<lparr>rt_url := url\<rparr>" e1 b w e'] w by simp
qed

text \<open>Every member of a list holds the snapshot in some bytes.\<close>

definition holds_all :: "replica_target list \<Rightarrow> bytes \<Rightarrow> 'e \<Rightarrow> bool" where
  "holds_all ms b e \<longleftrightarrow>
     (\<exists>r. stream_snapshot (rn_crypto R) (rn_snapshots R) st b = Ok r \<and> (\<forall>m \<in> set ms. held (rt_url m) st r e))"

lemma holds_all_le: "holds_all ms b e \<Longrightarrow> le e e' \<Longrightarrow> holds_all ms b e'"
  unfolding holds_all_def using held_le by blast

lemma seed_writes_held:
  assumes "wp_stream plan = st" "stream_snapshot (rn_crypto R) (rn_snapshots R) st b = Inr r0"
  shows "I e \<Longrightarrow> joinE (seed_write R T plan b) ts e = (Inr ws, e') \<Longrightarrow> all_ok ws = Inr us \<Longrightarrow> I e' \<and> holds_all ts b e'"
proof (induction ts arbitrary: e ws us)
  case Nil then show ?case using assms(2) by (simp add: joinE_def holds_all_def)
next
  case (Cons t ts)
  from Cons.prems obtain x ws' e1 us' where
    run: "seed_write R T plan b t e = (Inr x, e1)" "joinE (seed_write R T plan b) ts e1 = (Inr ws', e')" "all_ok ws' = Inr us'"
    by (auto simp: joinE_def eff_simps result_simps)
  have e1: "I e1" using addsD [OF adds_seed_write [OF assms(1)] Cons.prems(1) run(1)] by simp
  note ih = Cons.IH [OF e1 run(2,3)]
  have "adds (joinE (seed_write R T plan b) ts)"
    unfolding adds_def using adds_seed_write [OF assms(1)] unfolding adds_def by (intro allI keeps_rules) blast
  from addsD [OF this e1 run(2)] have "le e1 e'" by simp
  with seed_write_held [OF assms(1) Cons.prems(1) run(1)] ih assms(2) held_le show ?case
    unfolding holds_all_def by auto
qed

lemma seed_replicas_held:
  assumes "I e" "seed_replicas R T (rs_session st) ts previous (Some (plan, b)) e = (Inr u, e')" "wp_stream plan = st"
  shows "holds_all ts b e'"
proof -
  from assms(2,3) obtain ok e1 r0 ws us where
    init: "join_replicas R (\<lambda>t. p_initialize (rn_peers R) t (rs_session st)) (filter (\<lambda>target. rt_host_id target \<notin> rt_host_id ` set previous) ts) e = (Inr ok, e1)"
    and r0: "stream_snapshot (rn_crypto R) (rn_snapshots R) st b = Inr r0"
    and ws: "joinE (seed_write R T plan b) ts e1 = (Inr ws, e')" "all_ok ws = Inr us"
    by (auto simp: seed_replicas_def eff_simps result_simps)
  have "adds (join_replicas R (\<lambda>t. p_initialize (rn_peers R) t (rs_session st)) xs)" for xs
    by (rule adds_join) (simp add: adds_def initialize)
  from addsD [OF this assms(1) init] have "I e1" by simp
  from seed_writes_held [OF assms(3) r0 this ws] show ?thesis by simp
qed

lemma adds_replace_replicas:
  assumes "\<And>plan b. newest = Some (plan, b) \<Longrightarrow> wp_stream plan = st"
  shows "adds (replace_replicas R T scope ts newest)"
proof -
  have seed: "keeps (\<lambda>e. I e \<and> le e0 e) (seed_replicas R T (scope_identity (rn_crypto R) scope) replicas previous newest)"
    for e0 replicas previous
    by (rule adds_seed_replicas [OF assms, unfolded adds_def session, rule_format])
  have save: "keeps (\<lambda>e. I e \<and> le e0 e) (save_session_record R (session_key (rn_crypto R) host sid) g se)" for e0 host sid g se
    unfolding save_session_record_def by (rule adds_replace_session [unfolded adds_def, rule_format])
  show ?thesis
    unfolding adds_def replace_replicas_def Let_def by (intro allI keeps_rules primitives seed save)
qed

lemma replace_replicas_held:
  assumes "I e" "replace_replicas R T scope ts newest e = (Inr membership, e')"
    "\<And>plan b. newest = Some (plan, b) \<Longrightarrow> wp_stream plan = st"
  shows "membership = \<lparr>mb_scope = scope, mb_replicas = ts\<rparr> \<and> (\<forall>plan b. newest = Some (plan, b) \<longrightarrow> holds_all ts b e')"
proof -
  from assms(2) obtain ob e1 se e2 e3 u where
    run: "b_get (rn_authority R) (session_key (rn_crypto R) (sc_host scope) (sc_session scope)) e = (Inr ob, e1)"
      "seed_replicas R T (scope_identity (rn_crypto R) scope) ts (se_replicas se) newest e1 = (Inr u, e2)"
      "save_session_record R (session_key (rn_crypto R) (sc_host scope) (sc_session scope)) (map_option obj_generation ob) (se\<lparr>se_replicas := ts\<rparr>) e2 = (Inr True, e3)"
      "membership = \<lparr>mb_scope = scope, mb_replicas = ts\<rparr>" "e' = e3"
    by (auto simp: replace_replicas_def eff_simps result_simps Let_def)
  have e1: "I e1" using addsD [of "b_get (rn_authority R) (session_key (rn_crypto R) (sc_host scope) (sc_session scope))"] assms(1) run(1)
    by (auto simp: adds_def get)
  have e2: "I e2" using addsD [OF adds_seed_replicas [OF assms(3)] e1] run(2) by (simp add: session)
  have "le e2 e'" using addsD [OF adds_replace_session e2] run(3,5) by (auto simp: save_session_record_def)
  moreover have "holds_all ts b e2" if "newest = Some (plan, b)" for plan b
    using seed_replicas_held [OF e1, of ts "se_replicas se" plan b u e2] run(2) that assms(3) [OF that] by (simp only: session)
  ultimately show ?thesis using run(4) holds_all_le by blast
qed

section \<open>Races\<close>

text \<open>The replica side of a race: every member has the bytes or is still to be written to, unless an append failed.\<close>

abbreviation signed :: "replica_target \<Rightarrow> replica_target \<Rightarrow> bool" where
  "signed \<equiv> signs (rn_libs R) (rn_access R) st"

definition side_ok :: "replica_target list \<Rightarrow> bytes \<Rightarrow> replica_side \<Rightarrow> 'e \<Rightarrow> bool" where
  "side_ok ms b side e \<longleftrightarrow>
     (case side of
        Appending ts f \<Rightarrow> (\<forall>t \<in> set ts. \<exists>m. signed m t) \<and>
          (f = None \<longrightarrow> (\<forall>m \<in> set ms. holds_all [m] b e \<or> (\<exists>t \<in> set ts. signed m t)))
      | Settled result \<Rightarrow> (\<forall>w. result = Inr w \<longrightarrow> w = Replicated \<and> (\<forall>m \<in> set ms. holds_all [m] b e))
      | _ \<Rightarrow> True)"

definition race_ok :: "replica_target list \<Rightarrow> write_race \<Rightarrow> 'e \<Rightarrow> bool" where
  "race_ok ms r e \<longleftrightarrow>
     wp_stream (wr_plan r) = st \<and> side_ok ms (wr_bytes r) (wr_replicas r) e \<and>
     (\<forall>w. wr_upload r = Some (Inr w) \<longrightarrow> w = Written \<and> stored (wp_object_name (wr_plan r)) (wr_bytes r) e) \<and>
     (\<forall>w. wr_outcome r = Some (Inr w) \<longrightarrow> wr_upload r = Some (Inr w) \<or> wr_replicas r = Settled (Inr w))"

definition on_replicas :: "replica_side \<Rightarrow> bool" where
  "on_replicas side \<longleftrightarrow> (case side of Appending _ _ \<Rightarrow> True | Settled result \<Rightarrow> is_ok result | _ \<Rightarrow> False)"

lemma side_ok_le: "side_ok ms b side e \<Longrightarrow> le e e' \<Longrightarrow> side_ok ms b side e'"
  unfolding side_ok_def by (auto split: replica_side.splits intro: holds_all_le)

lemma race_ok_le: "race_ok ms r e \<Longrightarrow> le e e' \<Longrightarrow> race_ok ms r e'"
  unfolding race_ok_def using side_ok_le stored_le by blast

lemma race_ok_none: "race_ok ms r e \<Longrightarrow> race_ok [] r e"
  unfolding race_ok_def side_ok_def by (cases "wr_replicas r") auto

lemma race_ok_failures [simp]: "race_ok ms (r\<lparr>wr_failures := fs\<rparr>) e = race_ok ms r e"
  by (simp add: race_ok_def)

lemma settle_upload_ok:
  assumes "race_ok ms r e" "wr_upload r = None"
    "\<And>w. result = Inr w \<Longrightarrow> w = Written \<and> stored (wp_object_name (wr_plan r)) (wr_bytes r) e"
  shows "race_ok ms (settle_upload result r) e"
  using assms by (cases result; cases "wr_replicas r") (auto simp: race_ok_def settle_upload_def Let_def)

lemma settle_replicas_ok:
  assumes "race_ok ms r e" "side_ok ms (wr_bytes r) (Settled result) e" "\<not> is_ok result \<or> (\<forall>w. wr_replicas r \<noteq> Settled (Inr w))"
    "\<And>w. wr_replicas r = Settled (Inr w) \<Longrightarrow> result = Inr w"
  shows "race_ok ms (settle_replicas result r) e"
  using assms by (cases result) (auto simp: race_ok_def settle_replicas_def Let_def)

lemma side_ok_rest:
  assumes "side_ok ms b (Appending ts f) e" "set ts = insert t (set rest)"
    "\<And>w m. result = Inr w \<Longrightarrow> signed m t \<Longrightarrow> holds_all [m] b e"
  shows "side_ok ms b (Appending rest (case result of Inl x \<Rightarrow> Some x | Inr _ \<Rightarrow> f)) e"
  using assms unfolding side_ok_def by (cases result) auto

lemma append_done_ok:
  assumes "race_ok ms r e" "wr_replicas r = Appending ts f" "i < length ts" "le e e'"
    and result: "\<And>w m. result = Inr w \<Longrightarrow> signed m (ts ! i) \<Longrightarrow> holds_all [m] (wr_bytes r) e'"
  shows "race_ok ms (append_done (ts ! i) (take i ts @ drop (Suc i) ts) f result r) e'"
proof -
  let ?rest = "take i ts @ drop (Suc i) ts"
  have split: "set ts = insert (ts ! i) (set ?rest)"
    using id_take_nth_drop [OF assms(3)] by (metis set_append list.simps(15) Un_insert_right)
  have r: "race_ok ms r e'" using race_ok_le assms(1,4) by blast
  then have side: "side_ok ms (wr_bytes r) (Appending ts f) e'" using assms(2) by (simp add: race_ok_def)
  have rest: "side_ok ms (wr_bytes r) (Appending ?rest (case result of Inl x \<Rightarrow> Some x | Inr _ \<Rightarrow> f)) e'"
    by (rule side_ok_rest [OF side split]) (rule result)
  show ?thesis
  proof (cases "?rest = []")
    case True
    then have "side_ok ms (wr_bytes r) (Settled (case (case result of Inl x \<Rightarrow> Some x | Inr _ \<Rightarrow> f) of Some x \<Rightarrow> Inl x | None \<Rightarrow> Inr Replicated)) e'"
      using rest unfolding side_ok_def by (cases result; cases f) auto
    with r True assms(2) show ?thesis
      unfolding append_done_def Let_def by (auto intro!: settle_replicas_ok split: option.splits)
  next
    case False
    with r rest assms(2) show ?thesis unfolding append_done_def Let_def by (auto simp: race_ok_def)
  qed
qed

text \<open>What an event leaves of a race.\<close>

definition same_write :: "write_race \<Rightarrow> write_race \<Rightarrow> bool" where
  "same_write r r' \<longleftrightarrow> wr_plan r' = wr_plan r \<and> wr_bytes r' = wr_bytes r \<and> (on_replicas (wr_replicas r') \<longrightarrow> on_replicas (wr_replicas r))"

lemma same_write_settle:
  "same_write r (settle_upload result r)"
  "wr_replicas r = Appending ts f \<Longrightarrow> same_write r (append_done t others f result r)"
  by (auto simp: same_write_def settle_upload_def append_done_def settle_replicas_def on_replicas_def Let_def
      split: sum.splits replica_side.splits)

lemma race_turn_ok:
  assumes "race_ok ms r e" "I e" "race_turn R T ev r e = (x, e')"
  shows "I e' \<and> le e e' \<and> (\<exists>r'. x = Inr r' \<and> race_ok ms r' e' \<and> same_write r r')"
proof (cases ev)
  case Uploaded
  show ?thesis
  proof (cases "wr_upload r = None")
    case True
    obtain result e1 where run: "write_snapshot R (wr_plan r) (wr_bytes r) e = (result, e1)" by fastforce
    with assms(3) Uploaded True have x: "x = Inr (settle_upload result r)" "e' = e1" by (auto simp: race_turn_def)
    have e1: "I e1" "le e e1" using addsD [OF adds_write_snapshot assms(2) run] by auto
    have "race_ok ms (settle_upload result r) e1"
      by (rule settle_upload_ok [OF race_ok_le [OF assms(1) e1(2)] True]) (use run write_snapshot_stored assms(1,2) in \<open>auto simp: race_ok_def\<close>)
    with x e1 same_write_settle(1) show ?thesis by blast
  next
    case False
    with assms Uploaded refl show ?thesis by (auto simp: race_turn_def same_write_def)
  qed
next
  case (Appended i)
  show ?thesis
  proof (cases "\<exists>ts f. wr_replicas r = Appending ts f \<and> i < length ts")
    case True
    then obtain ts f where side: "wr_replicas r = Appending ts f" "i < length ts" by blast
    obtain result e1 where run: "t_write T (rt_url (ts ! i)) (wr_bytes r) e = (result, e1)" by fastforce
    with assms(3) Appended side have x: "x = Inr (append_done (ts ! i) (take i ts @ drop (Suc i) ts) f result r)" "e' = e1"
      by (auto simp: race_turn_def)
    from assms(1) side have "\<forall>t \<in> set ts. \<exists>m. signed m t" by (simp add: race_ok_def side_ok_def)
    with nth_mem [OF side(2)] obtain m where "signed m (ts ! i)" by blast
    from append_keeps [OF this] have "adds (t_write T (rt_url (ts ! i)) (wr_bytes r))" by (simp add: adds_def)
    from addsD [OF this assms(2) run] have e1: "I e1" "le e e1" by auto
    have "race_ok ms (append_done (ts ! i) (take i ts @ drop (Suc i) ts) f result r) e1"
      by (rule append_done_ok [OF assms(1) side e1(2)]) (use run appended assms(2) in \<open>auto simp: holds_all_def\<close>)
    with x e1 same_write_settle(2) [OF side(1)] show ?thesis by blast
  next
    case False
    with assms(3) Appended have "x = Inr r" "e' = e" by (auto simp: race_turn_def split: replica_side.splits if_splits)
    with assms refl show ?thesis by (auto simp: same_write_def)
  qed
qed

section \<open>The machine\<close>

abbreviation memory :: "'e actor_replication \<Rightarrow> 'e runtime_storage" where "memory p \<equiv> hs_runtime (rp_storage p)"
abbreviation world :: "'e actor_replication \<Rightarrow> 'e" where "world p \<equiv> sto_env (memory p)"
abbreviation members :: "'e actor_replication \<Rightarrow> replica_target list" where
  "members p \<equiv> local_replica_members R scope (memory p)"

text \<open>Steps that leave the memory as it is and only add to the world.\<close>

definition same_memory :: "'e runtime_storage \<Rightarrow> 'e runtime_storage \<Rightarrow> bool" where
  "same_memory s s' \<longleftrightarrow>
     sto_owned s' = sto_owned s \<and> sto_sessions s' = sto_sessions s \<and> I (sto_env s') \<and> le (sto_env s) (sto_env s')"

definition same :: "'e actor_replication \<Rightarrow> 'e actor_replication \<Rightarrow> bool" where
  "same p p' \<longleftrightarrow> (\<exists>s. p' = p\<lparr>rp_storage := s\<rparr>) \<and> same_memory (memory p) (memory p')"

lemma same_refl: "I (world p) \<Longrightarrow> same p p"
  by (auto simp: same_def same_memory_def refl intro: exI [of _ "rp_storage p"])

lemma same_members: "same p p' \<Longrightarrow> members p' = members p"
  by (simp add: same_def same_memory_def local_replica_members_def)

lemma memory_env: "adds m \<Longrightarrow> keeps (same_memory s0) (envE m)"
  unfolding keeps_conv same_memory_def envE_def
  by (auto simp: zoomE_eq dest: addsD trans)

lemma same_memoryE: "(\<And>s0. keeps (same_memory s0) m) \<Longrightarrow> keeps (same p0) (memoryE m)"
  unfolding keeps_conv same_def memoryE_def hostE_def storageE_def zoomE_eq
  by (intro allI impI) (elim exE conjE, fastforce)

lemma same_outsideE: "adds m \<Longrightarrow> keeps (same p0) (outsideE m)"
  unfolding outsideE_def by (rule same_memoryE) (rule memory_env)

lemma same_authority: "keeps (same p0) (authorityE H)"
proof -
  have "adds (instantE H)" by (simp add: adds_def instant)
  note m = memory_env [OF this]
  show ?thesis
    unfolding keeps_conv authorityE_def hs_ensure_authority_def
  proof (intro allI impI)
    fix p r p' assume p: "same p0 p" and "hostE (bindE (storageE (envE (instantE H))) (\<lambda>now. fenceE (fence_check now))) p = (r, p')"
    then obtain s x s1 where 1: "envE (instantE H) (memory p) = (x, s1)" and s: "p' = p\<lparr>rp_storage := s\<rparr>" "hs_runtime s = s1"
      by (cases r) (auto simp: hostE_def storageE_def fenceE_def eff_simps)
    from p 1 have "same_memory (memory p0) s1" using keepsD [OF m] by (auto simp: same_def)
    with p s show "same p0 p'" by (auto simp: same_def)
  qed
qed

text \<open>The plan of a write on the current members.\<close>

lemma signed_targets:
  assumes "all_ok (map (signed_target R g) ms) = Inr ts" "gr_stream g = Some st"
  shows "list_all2 signed ms ts"
  using assms(1)
proof (induction ms arbitrary: ts)
  case (Cons m ms)
  then obtain t ts' where "signed_target R g m = Inr t" "all_ok (map (signed_target R g) ms) = Inr ts'" "ts = t # ts'"
    by (auto simp: result_simps)
  moreover from this(1) have "signed m t"
    unfolding signs_def using assms(2) by (auto simp: signed_target_def result_simps intro!: exI [of _ "g\<lparr>gr_host_id := rt_host_id m\<rparr>"])
  ultimately show ?case using Cons.IH by simp
qed simp

lemma write_plan_signed:
  assumes "make_write_plan R rec version ms e = (Inr plan, e')" "ownership_stream (rn_crypto R) rec = Inr st"
  shows "wp_stream plan = st \<and> wp_state_version plan = version \<and>
    (wp_replication plan = None \<or> (\<exists>ts. wp_replication plan = Some ts \<and> ts \<noteq> [] \<and> list_all2 signed ms ts))"
  using assms by (auto simp: make_write_plan_def eff_simps result_simps Let_def dest!: signed_targets split: if_splits)

lemma current_plan:
  assumes "current_write_plan R plan s = (Inr plan', s')" "wp_stream plan = st"
  shows "wp_stream plan' = st \<and> wp_state_version plan' = wp_state_version plan \<and>
    (wp_replication plan' = None \<or>
     (\<exists>ts. wp_replication plan' = Some ts \<and> ts \<noteq> [] \<and> list_all2 signed (local_replica_members R scope s) ts))"
proof -
  from assms obtain rec where
    "ownership_stream (rn_crypto R) rec = Inr st"
    "make_write_plan R rec (wp_state_version plan) (local_replica_members R scope s) (sto_env s) = (Inr plan', sto_env s')"
    unfolding current_write_plan_def local_replica_members_def session [symmetric]
    by (auto simp: eff_simps result_simps envE_def)
  from write_plan_signed [OF this(2,1)] show ?thesis .
qed

lemma keeps_current_plan: "keeps (same_memory s0) (current_write_plan R plan)"
  unfolding current_write_plan_def by (intro keeps_rules memory_env adds_make_write_plan)

lemma start_write_ok:
  assumes "start_write plan b = Inr r" "wp_stream plan = st"
    "wp_replication plan = None \<or> (\<exists>ts. wp_replication plan = Some ts \<and> ts \<noteq> [] \<and> list_all2 signed ms ts)"
  shows "race_ok ms r e \<and> wr_outcome r = None \<and> wr_plan r = plan \<and> wr_bytes r = b \<and>
    (on_replicas (wr_replicas r) \<longrightarrow> ms \<noteq> [] \<and> distinct (map rt_host_id ms))"
proof (cases "wp_replication plan")
  case None
  with assms show ?thesis by (auto simp: start_write_def new_race_def race_ok_def side_ok_def on_replicas_def)
next
  case (Some ts)
  with assms have ts: "ts \<noteq> []" "list_all2 signed ms ts" "validate_ticket ts = Inr ()" "r = new_race plan b (Appending ts None)"
    by (auto simp: start_write_def result_simps)
  then have "map rt_host_id ts = map rt_host_id ms"
    by (auto simp: list_all2_conv_all_nth signs_def intro: nth_equalityI)
  with ts have "distinct (map rt_host_id ms)" by (simp add: validate_ticket_Ok)
  moreover have "\<forall>t \<in> set ts. \<exists>m. signed m t" "\<forall>m \<in> set ms. \<exists>t \<in> set ts. signed m t" "ms \<noteq> []"
    using ts(1,2) by (auto simp: list_all2_conv_all_nth in_set_conv_nth) (metis nth_mem)+
  ultimately show ?thesis using ts(4) assms(2) by (auto simp: new_race_def race_ok_def side_ok_def on_replicas_def)
qed

text \<open>A write of the stream whose bytes have the version of its plan, and one that is in the bucket or on every member.\<close>

definition known :: "(write_plan \<times> bytes) option \<Rightarrow> bool" where
  "known x \<longleftrightarrow>
     (\<forall>plan b. x = Some (plan, b) \<longrightarrow> wp_stream plan = st \<and>
        (\<forall>r. stream_snapshot (rn_crypto R) (rn_snapshots R) st b = Ok r \<longrightarrow> sr_state_version r = wp_state_version plan))"

definition latest_kept :: "replica_target list \<Rightarrow> (write_plan \<times> bytes) option \<Rightarrow> 'e \<Rightarrow> bool" where
  "latest_kept ms x e \<longleftrightarrow>
     (\<forall>plan b. x = Some (plan, b) \<longrightarrow>
        stored (wp_object_name plan) b e \<or> ms = [] \<or>
        (\<exists>r. wp_state_version plan = sr_state_version r \<and> (\<forall>m \<in> set ms. held (rt_url m) st r e)))"

definition uploaded :: "(write_plan \<times> bytes) option \<Rightarrow> 'e \<Rightarrow> bool" where
  "uploaded x e \<longleftrightarrow> (\<forall>plan b. x = Some (plan, b) \<longrightarrow> stored (wp_object_name plan) b e)"

definition repair_ok :: "replica_target list \<Rightarrow> repair \<Rightarrow> 'e \<Rightarrow> bool" where
  "repair_ok ms repair e \<longleftrightarrow>
     (case repair of
        Suspended ts x \<Rightarrow> ms = [] \<and> known x
      | Seeded ts membership x \<Rightarrow> ms = [] \<and> known x \<and> membership = \<lparr>mb_scope = scope, mb_replicas = ts\<rparr> \<and>
          (\<forall>plan b. x = Some (plan, b) \<longrightarrow> holds_all ts b e)
      | Outdated ts membership x \<Rightarrow> ms = [] \<and> known x \<and> membership = \<lparr>mb_scope = scope, mb_replicas = ts\<rparr>
      | _ \<Rightarrow> True)"

definition acknowledged :: "write_plan \<Rightarrow> bytes \<Rightarrow> state_write \<Rightarrow> 'e \<Rightarrow> bool" where
  "acknowledged plan b w e \<longleftrightarrow>
     w = Written \<and> stored (wp_object_name plan) b e \<or>
     w = Replicated \<and> (\<exists>ms. ms \<noteq> [] \<and> distinct (map rt_host_id ms) \<and> holds_all ms b e)"

definition replies_ok :: "((write_plan \<times> bytes) \<times> state_write result) list \<Rightarrow> 'e \<Rightarrow> bool" where
  "replies_ok replies e \<longleftrightarrow> (\<forall>plan b w. ((plan, b), Inr w) \<in> set replies \<longrightarrow> acknowledged plan b w e)"

definition writer_ok :: "replica_target list \<Rightarrow> write_race \<Rightarrow> 'e \<Rightarrow> bool" where
  "writer_ok ms r e \<longleftrightarrow>
     known (Some (wr_plan r, wr_bytes r)) \<and> race_ok ms r e \<and>
     (on_replicas (wr_replicas r) \<longrightarrow> ms \<noteq> [] \<and> distinct (map rt_host_id ms))"

definition replication_inv :: "'e actor_replication \<Rightarrow> bool" where
  "replication_inv p \<longleftrightarrow>
     rp_scope p = scope \<and> I (world p) \<and> known (rp_latest p) \<and> latest_kept (members p) (rp_latest p) (world p) \<and>
     (\<forall>r. rp_write p = Some r \<longrightarrow> writer_ok (members p) r (world p) \<and> wr_outcome r = None) \<and>
     (\<forall>r \<in> set (rp_background p). race_ok [] r (world p)) \<and>
     repair_ok (members p) (rp_repair p) (world p) \<and>
     (rp_supervisor p = Preparing \<longrightarrow> members p = [] \<and> rp_repair p = Resting \<and> uploaded (rp_latest p) (world p)) \<and>
     replies_ok (rp_replies p) (world p)"

lemma latest_kept_le: "latest_kept ms x e \<Longrightarrow> le e e' \<Longrightarrow> latest_kept ms x e'"
  unfolding latest_kept_def using held_le [of _ _ e e'] stored_le [of _ _ e e'] by (elim all_forward imp_forward disj_forward ex_forward conj_forward) blast+

lemma uploaded_kept: "uploaded x e \<Longrightarrow> latest_kept ms x e"
  by (simp add: uploaded_def latest_kept_def)

lemma repair_ok_le: "repair_ok ms repair e \<Longrightarrow> le e e' \<Longrightarrow> repair_ok ms repair e'"
  unfolding repair_ok_def using holds_all_le by (cases repair) auto

lemma acknowledged_le: "acknowledged plan b w e \<Longrightarrow> le e e' \<Longrightarrow> acknowledged plan b w e'"
  unfolding acknowledged_def using holds_all_le stored_le by blast

lemma writer_ok_le: "writer_ok ms r e \<Longrightarrow> le e e' \<Longrightarrow> writer_ok ms r e'"
  unfolding writer_ok_def using race_ok_le by blast

lemma inv_same:
  assumes "replication_inv p" "same p p'" shows "replication_inv p'"
proof -
  have le: "le (world p) (world p')" "I (world p')" using assms(2) by (auto simp: same_def same_memory_def)
  have fields: "rp_scope p' = rp_scope p" "rp_latest p' = rp_latest p" "rp_write p' = rp_write p" "rp_background p' = rp_background p"
    "rp_repair p' = rp_repair p" "rp_supervisor p' = rp_supervisor p" "rp_replies p' = rp_replies p"
    using assms(2) by (auto simp: same_def)
  show ?thesis
    using assms(1) le latest_kept_le writer_ok_le race_ok_le repair_ok_le acknowledged_le stored_le
    unfolding replication_inv_def same_members [OF assms(2)] fields replies_ok_def uploaded_def by meson
qed

lemma inv_keeps: "(\<And>p0. keeps (same p0) m) \<Longrightarrow> replication_inv p \<Longrightarrow> m p = (r, p') \<Longrightarrow> replication_inv p' \<and> same p p'"
  using keepsD [of "same p" m p r p'] same_refl inv_same unfolding replication_inv_def by blast

lemma holds_all_each: "ms \<noteq> [] \<Longrightarrow> \<forall>m \<in> set ms. holds_all [m] b e \<Longrightarrow> holds_all ms b e"
  by (cases ms) (auto simp: holds_all_def)

text \<open>The end of a write.\<close>

lemma race_acknowledged:
  assumes "writer_ok ms r e" "wr_outcome r = Some (Inr w)"
  shows "acknowledged (wr_plan r) (wr_bytes r) w e" "latest_kept ms (Some (wr_plan r, wr_bytes r)) e"
    "\<not> on_replicas (wr_replicas r) \<Longrightarrow> uploaded (Some (wr_plan r, wr_bytes r)) e"
proof -
  have cases: "w = Written \<and> stored (wp_object_name (wr_plan r)) (wr_bytes r) e \<or>
      w = Replicated \<and> wr_replicas r = Settled (Inr w) \<and> ms \<noteq> [] \<and> distinct (map rt_host_id ms) \<and> holds_all ms (wr_bytes r) e"
  proof (cases "wr_upload r = Some (Inr w)")
    case True with assms(1) show ?thesis by (simp add: writer_ok_def race_ok_def)
  next
    case False
    with assms have side: "wr_replicas r = Settled (Inr w)" by (auto simp: writer_ok_def race_ok_def)
    with assms(1) have "ms \<noteq> []" "distinct (map rt_host_id ms)" "w = Replicated" "\<forall>m \<in> set ms. holds_all [m] (wr_bytes r) e"
      by (auto simp: writer_ok_def race_ok_def side_ok_def on_replicas_def)
    with side holds_all_each show ?thesis by blast
  qed
  then show "acknowledged (wr_plan r) (wr_bytes r) w e" by (auto simp: acknowledged_def)
  from cases show "\<not> on_replicas (wr_replicas r) \<Longrightarrow> uploaded (Some (wr_plan r, wr_bytes r)) e"
    by (auto simp: uploaded_def on_replicas_def)
  from cases assms(1) show "latest_kept ms (Some (wr_plan r, wr_bytes r)) e"
    unfolding latest_kept_def holds_all_def writer_ok_def known_def by (metis option.inject prod.inject)
qed

lemma finish_write_inv:
  assumes "replication_inv p" "writer_ok (members p) r (world p)"
  shows "replication_inv (finish_write r p)"
proof (cases "wr_outcome r")
  case None with assms show ?thesis by (auto simp: finish_write_def replication_inv_def)
next
  case (Some outcome)
  have bg: "race_ok [] r (world p)" using assms(2) race_ok_none by (auto simp: writer_ok_def)
  show ?thesis
  proof (cases outcome)
    case (Inl e)
    with Some assms(1) bg show ?thesis by (auto simp: finish_write_def replication_inv_def replies_ok_def)
  next
    case (Inr w)
    note ack = race_acknowledged [OF assms(2), of w]
    have "rp_supervisor p = Preparing \<Longrightarrow> \<not> on_replicas (wr_replicas r)"
      using assms by (auto simp: replication_inv_def writer_ok_def)
    moreover have "known (Some (wr_plan r, wr_bytes r))" using assms(2) by (simp add: writer_ok_def)
    ultimately show ?thesis using assms(1) bg ack Some Inr
      by (auto simp: finish_write_def replication_inv_def replies_ok_def)
  qed
qed

section \<open>Steps keep the invariant\<close>

definition put_world :: "'e \<Rightarrow> 'e actor_replication \<Rightarrow> 'e actor_replication" where
  "put_world e p = p\<lparr>rp_storage := (rp_storage p)\<lparr>hs_runtime := (memory p)\<lparr>sto_env := e\<rparr>\<rparr>\<rparr>"

lemma outsideE_eq: "outsideE m p = (r, p') \<longleftrightarrow> (\<exists>e. m (world p) = (r, e) \<and> p' = put_world e p)"
  by (auto simp: outsideE_def memoryE_def hostE_def storageE_def envE_def zoomE_eq put_world_def)

lemma same_world: "I e \<Longrightarrow> le (world p) e \<Longrightarrow> same p (put_world e p)"
  by (auto simp: same_def same_memory_def put_world_def)

lemma world_put [simp]: "world (put_world e p) = e" "members (put_world e p) = members p"
  by (simp_all add: put_world_def local_replica_members_def)

lemma inv_mods [simp]:
  "replication_inv (p\<lparr>rp_failures := fs\<rparr>) = replication_inv p" "replication_inv (p\<lparr>rp_first_seen := ts\<rparr>) = replication_inv p"
  by (simp_all add: replication_inv_def)

lemma race_ok_other: "\<not> on_replicas (wr_replicas r) \<Longrightarrow> race_ok ms r e \<Longrightarrow> race_ok ms' r e"
  by (cases "wr_replicas r") (auto simp: race_ok_def side_ok_def on_replicas_def split: sum.splits)

lemma writer_ok_failures [simp]: "writer_ok ms (r\<lparr>wr_failures := fs\<rparr>) e = writer_ok ms r e"
  by (simp add: writer_ok_def)

lemma choose_race_ok:
  assumes "known (Some (plan, b))" "choose_race H plan b p = (Inr r, p')" "I (world p)"
  shows "writer_ok (members p) r e \<and> wr_outcome r = None"
proof -
  obtain u p1 plan' p2 where p1: "authorityE H p = (Inr u, p1)" and p2: "memoryE (current_write_plan R plan) p1 = (Inr plan', p2)"
    and r: "r = start_when_ready plan' b \<or> start_write plan' b = Inr r"
    using assms(2) by (auto simp: choose_race_def eff_simps split: if_splits)
  have "members p1 = members p" using keepsD [OF same_authority same_refl [OF assms(3)] p1] same_members by blast
  moreover from p2 obtain s where "current_write_plan R plan (memory p1) = (Inr plan', s)"
    by (auto simp: memoryE_def hostE_def storageE_def zoomE_eq)
  moreover have "wp_stream plan = st" using assms(1) by (simp add: known_def)
  ultimately have plan': "wp_stream plan' = st" "wp_state_version plan' = wp_state_version plan"
    "wp_replication plan' = None \<or> (\<exists>ts. wp_replication plan' = Some ts \<and> ts \<noteq> [] \<and> list_all2 signed (members p) ts)"
    using current_plan by metis+
  from assms(1) plan'(1,2) have "known (Some (plan', b))" by (simp add: known_def)
  note known = this
  show ?thesis
  proof (rule disjE [OF r])
    assume "r = start_when_ready plan' b"
    with known plan'(1) show ?thesis
      by (simp add: writer_ok_def start_when_ready_def new_race_def race_ok_def side_ok_def on_replicas_def)
  next
    assume "start_write plan' b = Inr r"
    from start_write_ok [OF this plan'(1,3), of e] known show ?thesis by (auto simp: writer_ok_def)
  qed
qed

lemma keeps_choose_race: "keeps (same p0) (choose_race H plan b)"
  unfolding choose_race_def by (intro keeps_rules same_authority same_memoryE keeps_current_plan)

lemma begin_write_inv:
  assumes "replication_inv p" "known (Some (plan, b))" shows "replication_inv (snd (begin_write H plan b p))"
proof (cases "rp_write p")
  case None
  obtain x p1 where run: "choose_race H plan b p = (x, p1)" by fastforce
  have p1: "replication_inv p1" "same p p1" using inv_keeps [OF keeps_choose_race assms(1) run] by auto
  show ?thesis
  proof (cases x)
    case (Inl e)
    with None run p1 show ?thesis by (auto simp: begin_write_def replication_inv_def replies_ok_def)
  next
    case (Inr r)
    have "I (world p)" using assms(1) by (simp add: replication_inv_def)
    from choose_race_ok [OF assms(2) run [unfolded Inr] this, of "world p1"] same_members [OF p1(2)]
    have "writer_ok (members p1) r (world p1) \<and> wr_outcome r = None" by simp
    with None run Inr p1(1) show ?thesis by (auto simp: begin_write_def replication_inv_def)
  qed
qed (use assms in \<open>simp add: begin_write_def\<close>)

lemma writer_turn_inv:
  assumes "replication_inv p" shows "replication_inv (snd (writer_turn H T ev p))"
proof (cases "rp_write p")
  case (Some r)
  then have r: "writer_ok (members p) r (world p)" and "I (world p)" using assms by (auto simp: replication_inv_def)
  obtain x e where run: "race_turn R T ev r (world p) = (x, e)" by fastforce
  have "race_ok (members p) r (world p)" using r by (simp add: writer_ok_def)
  from race_turn_ok [OF this \<open>I (world p)\<close> run] obtain r' where
    e: "I e" "le (world p) e" and r': "x = Inr r'" "race_ok (members p) r' e" "same_write r r'" by blast
  let ?p = "put_world e p"
  have "replication_inv ?p" by (rule inv_same [OF assms same_world [OF e]])
  moreover have "writer_ok (members p) r' e" using r r' by (auto simp: writer_ok_def same_write_def)
  ultimately have "replication_inv (finish_write (r'\<lparr>wr_failures := []\<rparr>) (?p\<lparr>rp_failures := rp_failures ?p @ wr_failures r'\<rparr>))"
    by (intro finish_write_inv) simp_all
  moreover have "outsideE (race_turn R T ev r) p = (Inr r', ?p)" using run r'(1) by (simp add: outsideE_eq)
  ultimately show ?thesis using Some by (simp add: writer_turn_def collect_failures_def)
qed (use assms in \<open>simp add: writer_turn_def\<close>)

lemma background_turn_inv:
  assumes "replication_inv p" shows "replication_inv (snd (background_turn H T i ev p))"
proof (cases "length (rp_background p) \<le> i")
  case False
  then have "race_ok [] (rp_background p ! i) (world p)" "I (world p)" using assms by (auto simp: replication_inv_def)
  moreover obtain x e where run: "race_turn R T ev (rp_background p ! i) (world p) = (x, e)" by fastforce
  ultimately obtain r' where e: "I e" "le (world p) e" and r': "x = Inr r'" "race_ok [] r' e"
    using race_turn_ok by blast
  let ?p = "put_world e p"
  have p: "replication_inv ?p" by (rule inv_same [OF assms same_world [OF e]])
  let ?q = "?p\<lparr>rp_failures := rp_failures p @ wr_failures r', rp_background := (rp_background p)[i := r'\<lparr>wr_failures := []\<rparr>]\<rparr>"
  have "rp_background ?p = rp_background p" "rp_failures ?p = rp_failures p" by (simp_all add: put_world_def)
  with p r'(2) have "replication_inv ?q"
    unfolding replication_inv_def by (auto dest!: set_update_subset_insert [THEN subsetD])
  moreover have "outsideE (race_turn R T ev (rp_background p ! i)) p = (Inr r', ?p)" using run r'(1) by (simp add: outsideE_eq)
  ultimately show ?thesis
    using False \<open>rp_background ?p = rp_background p\<close> \<open>rp_failures ?p = rp_failures p\<close>
    by (simp add: background_turn_def collect_failures_def)
qed (use assms in \<open>simp add: background_turn_def\<close>)

lemma plan_ready_ok:
  assumes "writer_ok ms r e" "wr_replicas r = AwaitingPlan" "wr_outcome r = None"
    and "\<And>plan. ready = Inr plan \<Longrightarrow> wp_replication plan = None \<or>
      (\<exists>ts. wp_replication plan = Some ts \<and> ts \<noteq> [] \<and> list_all2 signed ms ts)"
  shows "writer_ok ms (plan_ready ready r) e"
proof (cases "ready_replicas (wr_plan r) ready")
  case (Inl x)
  with assms(1-3) show ?thesis
    by (auto simp: plan_ready_def settle_replicas_def writer_ok_def race_ok_def side_ok_def on_replicas_def Let_def)
next
  case (Inr ts)
  then obtain plan where plan: "ready = Inr plan" "wp_replication plan = Some ts" "validate_ticket ts = Inr ()"
    by (auto simp: ready_replicas_def result_simps)
  with assms(4) have "list_all2 signed ms ts" by auto
  have "ts \<noteq> []" using plan(3) by (auto simp: validate_ticket_Ok)
  then have "start_write (wr_plan r\<lparr>wp_replication := Some ts\<rparr>) (wr_bytes r) = Inr (new_race (wr_plan r\<lparr>wp_replication := Some ts\<rparr>) (wr_bytes r) (Appending ts None))"
    using plan(3) by (simp add: start_write_def)
  from start_write_ok [OF this, of ms e] assms(1) \<open>list_all2 signed ms ts\<close> \<open>ts \<noteq> []\<close>
  have "side_ok ms (wr_bytes r) (Appending ts None) e" "ms \<noteq> [] \<and> distinct (map rt_host_id ms)"
    by (simp_all add: writer_ok_def race_ok_def new_race_def on_replicas_def)
  with Inr assms(1-3) show ?thesis by (auto simp: plan_ready_def writer_ok_def race_ok_def)
qed

lemma keeps_initial_plan: "keeps (same p0) (initial_write_plan H plan)"
  unfolding initial_write_plan_def by (intro keeps_rules same_authority same_memoryE keeps_current_plan)

lemma ready_turn_inv:
  assumes "replication_inv p" shows "replication_inv (snd (ready_turn H p))"
proof (cases "\<exists>r. rp_write p = Some r \<and> (rp_initial_ready p \<or> rp_supervisor p = Ended) \<and> wr_replicas r = AwaitingPlan")
  case True
  then obtain r where r: "rp_write p = Some r" "rp_initial_ready p \<or> rp_supervisor p = Ended" "wr_replicas r = AwaitingPlan" by blast
  obtain ready p1 where run: "initial_write_plan H (wr_plan r) p = (ready, p1)" by fastforce
  have p1: "replication_inv p1" "same p p1" using inv_keeps [OF keeps_initial_plan assms run] by auto
  have "rp_write p1 = Some r" using p1(2) r(1) by (auto simp: same_def)
  then have w: "writer_ok (members p1) r (world p1)" "wr_outcome r = None" using p1(1) by (auto simp: replication_inv_def)
  have "wp_stream (wr_plan r) = st" using w(1) by (simp add: writer_ok_def race_ok_def)
  have "wp_replication plan = None \<or> (\<exists>ts. wp_replication plan = Some ts \<and> ts \<noteq> [] \<and> list_all2 signed (members p1) ts)"
    if "ready = Inr plan" for plan
  proof -
    from run that obtain u p2 s where p2: "authorityE H p = (Inr u, p2)" and s: "current_write_plan R (wr_plan r) (memory p2) = (Inr plan, s)"
      by (auto simp: initial_write_plan_def eff_simps result_simps memoryE_def hostE_def storageE_def)
    have "I (world p)" using assms by (simp add: replication_inv_def)
    from keepsD [OF same_authority same_refl [OF this] p2] have "members p2 = members p1"
      using same_members same_members [OF p1(2)] by simp
    with current_plan [OF s \<open>wp_stream (wr_plan r) = st\<close>] show ?thesis by metis
  qed
  from finish_write_inv [OF p1(1) plan_ready_ok [OF w(1) r(3) w(2) this]]
  have "replication_inv (finish_write (plan_ready ready r) p1)" .
  then show ?thesis using r run by (auto simp: ready_turn_def)
next
  case False
  then have "snd (ready_turn H p) = p" by (auto simp: ready_turn_def split: option.splits)
  with assms show ?thesis by simp
qed

text \<open>Membership in memory.\<close>

definition set_members :: "replica_scope \<Rightarrow> replica_target list option \<Rightarrow> 'e actor_replication \<Rightarrow> 'e actor_replication" where
  "set_members sc ms p = p\<lparr>rp_storage := (rp_storage p)\<lparr>hs_runtime := (memory p)\<lparr>sto_sessions :=
     (sto_sessions (memory p))(scope_identity (rn_crypto R) sc := ms)\<rparr>\<rparr>\<rparr>"

lemma enable_eq:
  "memoryE (enable_replication R membership) p = (r, p') \<Longrightarrow>
     r = Inr () \<and> p' = set_members (mb_scope membership) (Some (mb_replicas membership)) p \<or> \<not> is_ok r \<and> p' = p"
  by (cases r)
    (auto simp: enable_replication_def memoryE_def hostE_def storageE_def eff_simps result_simps set_members_def)

lemma suspend_eq: "memoryE (suspend_replication R sc) p = (Inr (), set_members sc None p)"
  by (simp add: suspend_replication_def memoryE_def hostE_def storageE_def zoomE_def set_members_def)

lemma set_members_fields [simp]:
  "rp_scope (set_members sc ms p) = rp_scope p" "rp_latest (set_members sc ms p) = rp_latest p" "rp_write (set_members sc ms p) = rp_write p"
  "rp_background (set_members sc ms p) = rp_background p" "rp_repair (set_members sc ms p) = rp_repair p"
  "rp_supervisor (set_members sc ms p) = rp_supervisor p" "rp_replies (set_members sc ms p) = rp_replies p"
  "world (set_members sc ms p) = world p" "members (set_members scope ms p) = (case ms of None \<Rightarrow> [] | Some x \<Rightarrow> x)"
  by (simp_all add: set_members_def local_replica_members_def)

lemma writer_ok_other:
  "writer_ok ms r e \<Longrightarrow> \<not> on_replicas (wr_replicas r) \<Longrightarrow> writer_ok ms' r e"
  unfolding writer_ok_def using race_ok_other by blast

text \<open>A change of the members while no replicated write and no repair relies on them.\<close>

lemma set_members_inv:
  assumes "replication_inv p" "members p = [] \<or> rp_write p = None" "repair_ok (members (set_members sc ms p)) repair (world p)"
    "latest_kept (members (set_members sc ms p)) (rp_latest p) (world p)" "phase \<noteq> Preparing"
  shows "replication_inv ((set_members sc ms p)\<lparr>rp_repair := repair, rp_supervisor := phase\<rparr>)"
proof -
  have "writer_ok (members (set_members sc ms p)) r (world p)" if "rp_write p = Some r" for r
    using assms(1,2) that writer_ok_other [of "members p" r "world p"] by (auto simp: replication_inv_def writer_ok_def)
  with assms show ?thesis by (simp add: replication_inv_def)
qed

lemma initialize_turn_inv:
  assumes "replication_inv p" shows "replication_inv (snd (initialize_turn H answers p))"
proof (cases "rp_supervisor p = Preparing \<and> initial_membership answers \<noteq> None")
  case True
  then obtain membership where m: "initial_membership answers = Some membership" by blast
  let ?m = "bindE (authorityE H) (\<lambda>_. memoryE (enable_replication R membership))"
  obtain x p1 where x: "authorityE H p = (x, p1)" by fastforce
  have p1: "replication_inv p1" "same p p1" using inv_keeps [OF same_authority assms x] by auto
  have prep: "rp_supervisor p1 = Preparing" using True p1(2) by (auto simp: same_def)
  then have none: "members p1 = []" "rp_repair p1 = Resting" "uploaded (rp_latest p1) (world p1)" using p1(1) by (auto simp: replication_inv_def)
  have failed: "replication_inv (p1\<lparr>rp_supervisor := Ended\<rparr>)" using p1(1) by (simp add: replication_inv_def)
  show ?thesis
  proof (cases x)
    case (Inl e)
    with x m True failed show ?thesis by (simp add: initialize_turn_def bindE_def)
  next
    case (Inr u)
    obtain y p2 where y: "memoryE (enable_replication R membership) p1 = (y, p2)" by fastforce
    have ok: "replication_inv ((set_members (mb_scope membership) (Some (mb_replicas membership)) p1)\<lparr>rp_repair := Resting, rp_supervisor := Maintaining\<rparr>)"
      using none by (intro set_members_inv p1 uploaded_kept) (auto simp: repair_ok_def)
    from ok none(2) have "replication_inv ((set_members (mb_scope membership) (Some (mb_replicas membership)) p1)\<lparr>rp_initial_ready := True, rp_supervisor := Maintaining\<rparr>)"
      by (simp add: replication_inv_def)
    with enable_eq [OF y] failed x y m True Inr show ?thesis
      by (auto simp: initialize_turn_def)
  qed
next
  case False
  then have "snd (initialize_turn H answers p) = p" by (auto simp: initialize_turn_def split: supervisor.splits option.splits)
  with assms show ?thesis by simp
qed

lemma repair_ok_idle [simp]: "repair_ok ms Resting e" "repair_ok ms (Replacing ts) e"
  by (simp_all add: repair_ok_def)

text \<open>The supervisor after its preparation.\<close>

definition supervised :: "'e actor_replication \<Rightarrow> bool" where
  "supervised p \<longleftrightarrow> replication_inv p \<and> rp_supervisor p \<noteq> Preparing"

lemma supervised_same: "(\<And>p0. keeps (same p0) m) \<Longrightarrow> keeps supervised m"
  unfolding keeps_conv [of supervised] supervised_def using inv_keeps [of m] by (fastforce simp: same_def)

lemma supervised_mods:
  "keeps supervised (modE (\<lambda>p. p\<lparr>rp_failures := f p\<rparr>))" "keeps supervised (modE (\<lambda>p. p\<lparr>rp_first_seen := g p\<rparr>))"
  "keeps supervised (modE (\<lambda>p. p\<lparr>rp_repair := Replacing ts\<rparr>))" "keeps supervised (modE (\<lambda>p. p\<lparr>rp_repair := Resting\<rparr>))"
  "keeps supervised (modE (\<lambda>p. p\<lparr>rp_supervisor := Ended\<rparr>))"
proof -
  show "keeps supervised (modE (\<lambda>p. p\<lparr>rp_failures := f p\<rparr>))" "keeps supervised (modE (\<lambda>p. p\<lparr>rp_first_seen := g p\<rparr>))"
    by (simp_all add: keeps_conv supervised_def)
  show "keeps supervised (modE (\<lambda>p. p\<lparr>rp_repair := Replacing ts\<rparr>))" "keeps supervised (modE (\<lambda>p. p\<lparr>rp_repair := Resting\<rparr>))"
    "keeps supervised (modE (\<lambda>p. p\<lparr>rp_supervisor := Ended\<rparr>))"
    by (simp_all add: keeps_conv supervised_def replication_inv_def)
qed

lemma adds_heads: "adds (join_replicas R (\<lambda>target. bindE (tryE (p_head (rn_peers R) target stream)) (\<lambda>x. retE (k target x))) ts)"
  by (rule adds_join) (unfold adds_def, intro allI keeps_rules primitives)

lemma keeps_memory_ops:
  "keeps (same_memory s0) (unhealthy_replicas R sc)" "keeps (same_memory s0) (replacement_replicas R sc hosts)"
proof -
  have fleet: "adds (f_repair (rn_fleet R) sc hosts)" for sc hosts by (simp add: adds_def repair)
  show "keeps (same_memory s0) (unhealthy_replicas R sc)"
    unfolding unhealthy_replicas_def owned_stream_def by (intro keeps_rules memory_env adds_heads)
  show "keeps (same_memory s0) (replacement_replicas R sc hosts)"
    unfolding replacement_replicas_def owned_stream_def Let_def by (intro keeps_rules memory_env adds_heads fleet)
qed

lemma supervised_instant: "keeps supervised (instant_now H)"
  unfolding instant_now_def by (rule supervised_same, rule same_outsideE) (simp add: adds_def instant)

lemma supervised_outlived: "keeps supervised (outlived_replicas H ms)"
  by (induction ms) (unfold outlived_replicas.simps, (intro keeps_rules supervised_instant supervised_mods; assumption)+)

lemma supervised_authority: "keeps supervised (authorityE H)"
  by (rule supervised_same) (rule same_authority)

lemma supervised_memory: "(\<And>s0. keeps (same_memory s0) m) \<Longrightarrow> keeps supervised (memoryE m)"
  by (rule supervised_same) (rule same_memoryE)

lemma supervised_seek: "keeps supervised (seek_replicas H reports)"
  unfolding seek_replicas_def failed_replicas_def Let_def
  by (intro keeps_rules supervised_outlived supervised_memory keeps_memory_ops supervised_mods)

lemma maintain_turn_inv:
  assumes "replication_inv p" shows "replication_inv (snd (maintain_turn H p))"
proof (cases "rp_supervisor p = Maintaining \<and> rp_repair p = Resting")
  case True
  have "keeps supervised (bindE (modE (\<lambda>p. p\<lparr>rp_failures := []\<rparr>)) (\<lambda>_. bindE (tryE (authorityE H)) (\<lambda>authority.
      if is_ok authority then bindE (tryE (seek_replicas H reports)) (\<lambda>_. retE ())
      else modE (\<lambda>p. p\<lparr>rp_supervisor := Ended\<rparr>))))" for reports
    by (intro keeps_rules supervised_mods supervised_authority supervised_seek)
  moreover have "supervised p" using assms True by (simp add: supervised_def)
  moreover have "maintain_turn H p = bindE (modE (\<lambda>p. p\<lparr>rp_failures := []\<rparr>)) (\<lambda>_. bindE (tryE (authorityE H)) (\<lambda>authority.
      if is_ok authority then bindE (tryE (seek_replicas H (rp_failures p))) (\<lambda>_. retE ())
      else modE (\<lambda>p. p\<lparr>rp_supervisor := Ended\<rparr>))) p"
    using True by (simp add: maintain_turn_def)
  ultimately have "supervised (snd (maintain_turn H p))" by (simp only: keeps_snd)
  then show ?thesis by (simp add: supervised_def)
next
  case False
  then have "snd (maintain_turn H p) = p" by (auto simp: maintain_turn_def)
  with assms show ?thesis by simp
qed

text \<open>The steps of a repair.\<close>

lemma supervised_repair:
  assumes "supervised p" "repair_ok (members p) rep (world p)" shows "supervised (p\<lparr>rp_repair := rep\<rparr>)"
  using assms by (auto simp: supervised_def replication_inv_def)

lemma set_members_supervised:
  assumes "supervised p" "members p = [] \<or> rp_write p = None" "repair_ok (members (set_members sc ms p)) rep (world p)"
    "latest_kept (members (set_members sc ms p)) (rp_latest p) (world p)"
  shows "supervised ((set_members sc ms p)\<lparr>rp_repair := rep\<rparr>)"
proof -
  have "replication_inv ((set_members sc ms p)\<lparr>rp_repair := rep, rp_supervisor := rp_supervisor p\<rparr>)"
    using assms by (intro set_members_inv) (simp_all add: supervised_def)
  moreover have "(set_members sc ms p)\<lparr>rp_repair := rep, rp_supervisor := rp_supervisor p\<rparr> = (set_members sc ms p)\<lparr>rp_repair := rep\<rparr>"
    by (simp add: set_members_def)
  ultimately show ?thesis using assms(1) by (simp add: supervised_def)
qed

lemma lock_and_suspend_step:
  assumes "supervised p" "rp_write p = None" "lock_and_suspend H ts p = (r, p')" shows "supervised p'"
proof -
  obtain x p1 where x: "authorityE H p = (x, p1)" by fastforce
  have p1: "supervised p1" using keepsD [OF supervised_authority assms(1) x] .
  have "replication_inv p" using assms(1) by (simp add: supervised_def)
  from inv_keeps [OF same_authority this x] obtain s where "p1 = p\<lparr>rp_storage := s\<rparr>" by (auto simp: same_def)
  then have "rp_write p1 = None" "rp_scope p1 = scope"
    using assms(2) \<open>replication_inv p\<close> by (simp_all add: replication_inv_def)
  moreover from this have "supervised ((set_members scope None p1)\<lparr>rp_repair := Suspended ts (rp_latest p1)\<rparr>)"
    using p1 by (intro set_members_supervised) (simp_all add: supervised_def repair_ok_def latest_kept_def replication_inv_def)
  ultimately show ?thesis
    using assms(3) x p1 by (cases x) (auto simp: lock_and_suspend_def suspend_eq bindE_def)
qed

lemma replace_and_seed_step:
  assumes "supervised p" "rp_repair p = Suspended ts x" "replace_and_seed H T ts x p = (r, p')" shows "supervised p'"
proof -
  have p: "replication_inv p" "rp_scope p = scope" "known x" "members p = []" "I (world p)"
    using assms(1,2) by (auto simp: supervised_def replication_inv_def repair_ok_def)
  have kn: "\<And>plan b. x = Some (plan, b) \<Longrightarrow> wp_stream plan = st" using p(3) by (simp add: known_def)
  obtain y e where y: "replace_replicas R T scope ts x (world p) = (y, e)" by fastforce
  have e: "I e" "le (world p) e" using addsD [OF adds_replace_replicas [OF kn] p(5) y] by auto
  have s: "supervised (put_world e p)"
    using inv_same [OF p(1) same_world [OF e]] assms(1) by (auto simp: supervised_def put_world_def)
  have o: "outsideE (replace_replicas R T scope ts x) p = (y, put_world e p)" using y by (simp add: outsideE_eq)
  show ?thesis
  proof (cases y)
    case (Inl _) with assms(3) o s p(2) show ?thesis by (simp add: replace_and_seed_def)
  next
    case (Inr membership)
    from replace_replicas_held [OF p(5) y [unfolded Inr] kn]
    have "repair_ok (members (put_world e p)) (Seeded ts membership x) (world (put_world e p))"
      using p(3,4) by (auto simp: repair_ok_def)
    with assms(3) o Inr p(2) supervised_repair [OF s] show ?thesis by (auto simp: replace_and_seed_def)
  qed
qed

lemma compare_latest_step:
  assumes "supervised p" "rp_repair p = Seeded ts membership x" "compare_latest H ts membership x p = (r, p')"
  shows "supervised p'"
proof -
  obtain y p1 where y: "authorityE H p = (y, p1)" by fastforce
  have s: "supervised p1" using keepsD [OF supervised_authority assms(1) y] .
  have "replication_inv p" using assms(1) by (simp add: supervised_def)
  from inv_keeps [OF same_authority this y] have "rp_repair p1 = Seeded ts membership x" using assms(2) by (auto simp: same_def)
  with s have p1: "replication_inv p1" "members p1 = []" "known x" "membership = \<lparr>mb_scope = scope, mb_replicas = ts\<rparr>"
    "\<And>plan b. x = Some (plan, b) \<Longrightarrow> holds_all ts b (world p1)" "known (rp_latest p1)" "rp_supervisor p1 \<noteq> Preparing"
    by (auto simp: supervised_def replication_inv_def repair_ok_def)
  show ?thesis
  proof (cases "map_option (wp_state_version \<circ> fst) (rp_latest p1) = map_option (wp_state_version \<circ> fst) x")
    case True
    have "latest_kept ts (rp_latest p1) (world p1)"
      unfolding latest_kept_def
    proof (intro allI impI)
      fix plan b assume "rp_latest p1 = Some (plan, b)"
      with True obtain plan' b' where x: "x = Some (plan', b')" "wp_state_version plan' = wp_state_version plan"
        by (cases x) auto
      from p1(5) [OF x(1)] obtain q where q: "stream_snapshot (rn_crypto R) (rn_snapshots R) st b' = Inr q"
        "\<forall>m \<in> set ts. held (rt_url m) st q (world p1)" by (auto simp: holds_all_def)
      with p1(3) x have "wp_state_version plan = sr_state_version q" by (simp add: known_def)
      with q(2) have "wp_state_version plan = sr_state_version q" "\<forall>m \<in> set ts. held (rt_url m) st q (world p1)" by simp_all
      then show "stored (wp_object_name plan) b (world p1) \<or> ts = [] \<or>
          (\<exists>r. wp_state_version plan = sr_state_version r \<and> (\<forall>m \<in> set ts. held (rt_url m) st r (world p1)))" by blast
    qed
    then have "supervised ((set_members scope (Some ts) p1)\<lparr>rp_repair := Resting\<rparr>)"
      using p1(2) s by (intro set_members_supervised) simp_all
    with True assms(3) y s p1(4) enable_eq [of membership p1] show ?thesis
      by (cases y; cases "memoryE (enable_replication R membership) p1"; cases "fst (memoryE (enable_replication R membership) p1)")
        (auto simp: compare_latest_def bindE_def)
  next
    case False
    have "supervised (p1\<lparr>rp_repair := Outdated ts membership (rp_latest p1)\<rparr>)"
      using p1 by (intro supervised_repair [OF s]) (auto simp: repair_ok_def)
    with False assms(3) y s show ?thesis by (cases y) (auto simp: compare_latest_def bindE_def)
  qed
qed

lemma seed_again_step:
  assumes "supervised p" "rp_repair p = Outdated ts membership x" "seed_again H T ts membership x p = (r, p')"
  shows "supervised p'"
proof -
  have p: "replication_inv p" "rp_scope p = scope" "known x" "members p = []" "I (world p)" "membership = \<lparr>mb_scope = scope, mb_replicas = ts\<rparr>"
    using assms(1,2) by (auto simp: supervised_def replication_inv_def repair_ok_def)
  have kn: "\<And>plan b. x = Some (plan, b) \<Longrightarrow> wp_stream plan = st" using p(3) by (simp add: known_def)
  obtain y e where y: "seed_replicas R T (rs_session st) ts ts x (world p) = (y, e)" by fastforce
  have e: "I e" "le (world p) e" using addsD [OF adds_seed_replicas [OF kn] p(5) y] by auto
  have s: "supervised (put_world e p)"
    using inv_same [OF p(1) same_world [OF e]] assms(1) by (auto simp: supervised_def put_world_def)
  have o: "outsideE (seed_replicas R T (rs_session st) ts ts x) p = (y, put_world e p)" using y by (simp add: outsideE_eq)
  have "repair_ok (members (put_world e p)) (Seeded ts membership x) (world (put_world e p))" if "y = Inr u" for u
  proof -
    have "holds_all ts b e" if "x = Some (plan, b)" for plan b
      using seed_replicas_held [OF p(5)] y [unfolded \<open>y = Inr u\<close> that] kn [OF that] by blast
    with p(3,4,6) show ?thesis by (simp add: repair_ok_def)
  qed
  from supervised_repair [OF s this] assms(3) o p(2) s show ?thesis
    by (cases y) (simp_all add: seed_again_def session)
qed

lemma repair_turn_inv:
  assumes "replication_inv p" shows "replication_inv (snd (repair_turn H T p))"
proof (cases "rp_repair p = Resting")
  case True
  then show ?thesis using assms by (simp add: repair_turn_def repair_step_def)
next
  case False
  then have p: "supervised p" using assms by (auto simp: supervised_def replication_inv_def)
  obtain r p' where run: "repair_step H T p = (r, p')" by fastforce
  have "supervised p'"
  proof (cases "rp_repair p")
    case (Replacing ts)
    with run p show ?thesis using lock_and_suspend_step [OF p] by (cases "rp_write p") (auto simp: repair_step_def)
  qed (use False run replace_and_seed_step [OF p] compare_latest_step [OF p] seed_again_step [OF p] in \<open>simp_all add: repair_step_def\<close>)
  then have "supervised p'" "supervised (p'\<lparr>rp_repair := Resting\<rparr>)" by (auto intro: supervised_repair simp: repair_ok_def)
  then show ?thesis using run by (auto simp: repair_turn_def supervised_def)
qed

text \<open>Events that other processes may cause, and the writes of the actor.\<close>

fun event_ok :: "'e replication_event \<Rightarrow> bool" where
  "event_ok (Write plan b) = known (Some (plan, b))"
| "event_ok (Elsewhere f) = (\<forall>e. I e \<longrightarrow> I (f e) \<and> le e (f e))"
| "event_ok _ = True"

lemma step_inv: "replication_inv p \<Longrightarrow> event_ok ev \<Longrightarrow> replication_inv (replication_step H T ev p)"
proof (cases ev)
  case (Elsewhere f)
  assume "replication_inv p" "event_ok ev"
  moreover from this Elsewhere have "I (f (world p))" "le (world p) (f (world p))" by (auto simp: replication_inv_def)
  moreover have "outsideE (\<lambda>e. (Inr (), f e)) p = (Inr (), put_world (f (world p)) p)" by (simp add: outsideE_eq)
  ultimately show ?thesis using Elsewhere inv_same [OF _ same_world] by simp
qed (auto simp: begin_write_inv writer_turn_inv ready_turn_inv background_turn_inv initialize_turn_inv maintain_turn_inv
    repair_turn_inv, auto simp: replication_inv_def repair_ok_def)

lemma run_inv: "replication_inv p \<Longrightarrow> list_all event_ok evs \<Longrightarrow> replication_inv (replication_run H T evs p)"
  unfolding replication_run_def by (induction evs arbitrary: p) (auto simp: step_inv)

lemma start_inv:
  "I (sto_env (hs_runtime s)) \<Longrightarrow> local_replica_members R scope (hs_runtime s) = [] \<Longrightarrow> replication_inv (start_replication H scope s)"
  by (auto simp: start_replication_def replication_inv_def known_def latest_kept_def repair_ok_def uploaded_def replies_ok_def)

end

end
