(* ===== verification/Replicated_Files.thy ===== *)
theory Replicated_Files
  imports Replication_Safety
begin

text \<open>
  Replicated writes on the file runtime: replica hosts with their stores, and the directory bucket with other writers.
  Snapshot objects are created once and never swapped, and the heads of replicas only advance, so the laws of
  \<open>replicated_host\<close> hold.
\<close>

section \<open>Snapshots in the bucket\<close>

definition created_once :: "file_bucket \<Rightarrow> bool" where
  "created_once w \<longleftrightarrow> fb_wf w \<and> (\<forall>ops \<in> set (fb_foreign w). \<forall>(k, g, b) \<in> set ops. snapshot_name k \<longrightarrow> g = None)"

definition snapshots_kept :: "objects \<Rightarrow> objects \<Rightarrow> bool" where
  "snapshots_kept m m' \<longleftrightarrow> (\<forall>k ob. snapshot_name k \<longrightarrow> m k = Some ob \<longrightarrow> m' k = Some ob)"

lemma snapshots_kept_refl [simp]: "snapshots_kept m m"
  by (simp add: snapshots_kept_def)

lemma snapshots_kept_trans: "snapshots_kept m m1 \<Longrightarrow> snapshots_kept m1 m2 \<Longrightarrow> snapshots_kept m m2"
  by (simp add: snapshots_kept_def)

lemma swaps_kept: "swaps k g b m m' \<Longrightarrow> (snapshot_name k \<Longrightarrow> g = None) \<Longrightarrow> snapshots_kept m m'"
  by (auto simp: swaps_def snapshots_kept_def)

lemma cas_now_kept:
  assumes "fb_wf w" "file_cas_now k g b w = (r, w')" "snapshot_name k \<Longrightarrow> g = None"
  shows "fb_wf w' \<and> snapshots_kept (fb_objs w) (fb_objs w') \<and> fb_foreign w' = fb_foreign w"
  using file_cas_now_spec [OF assms(1,2)] file_cas_now_foreign [OF assms(2)] swaps_kept assms(3) by fastforce

lemma interfere_kept:
  assumes "created_once w"
  shows "created_once (fb_interfere w) \<and> snapshots_kept (fb_objs w) (fb_objs (fb_interfere w))"
proof (cases "fb_foreign w")
  case Nil with assms show ?thesis by (simp add: fb_interfere_def)
next
  case (Cons ops rest)
  have run: "fb_wf v' \<and> snapshots_kept (fb_objs v) (fb_objs v') \<and> fb_foreign v' = fb_foreign v"
    if "fb_wf v" "\<forall>(k, g, b) \<in> set ops. snapshot_name k \<longrightarrow> g = None" "v' = fold (\<lambda>(k, g, b) w. snd (file_cas_now k g b w)) ops v"
    for v v' ops
    using that
  proof (induction ops arbitrary: v)
    case (Cons op ops)
    obtain k g b where op: "op = (k, g, b)" by (cases op)
    obtain r v1 where v1: "file_cas_now k g b v = (r, v1)" by fastforce
    have "fb_wf v1 \<and> snapshots_kept (fb_objs v) (fb_objs v1) \<and> fb_foreign v1 = fb_foreign v"
      using cas_now_kept [OF Cons.prems(1) v1] Cons.prems(2) op by auto
    moreover from this have "fb_wf v' \<and> snapshots_kept (fb_objs v1) (fb_objs v') \<and> fb_foreign v' = fb_foreign v1"
      using Cons.prems op v1 by (intro Cons.IH) auto
    ultimately show ?case using snapshots_kept_trans by metis
  qed simp
  let ?v = "w\<lparr>fb_foreign := rest\<rparr>"
  have same: "fb_objs ?v = fb_objs w" "fb_wf ?v"
    using same_files [of ?v w] assms by (simp_all add: same_objects_def created_once_def)
  have "fb_wf (fb_interfere w) \<and> snapshots_kept (fb_objs w) (fb_objs (fb_interfere w)) \<and> fb_foreign (fb_interfere w) = rest"
    using run [of ?v ops "fb_interfere w"] assms Cons same by (simp add: fb_interfere_def created_once_def)
  with assms Cons show ?thesis by (simp add: created_once_def)
qed

lemma bucket_kept:
  assumes "created_once w"
  shows "file_get k w = (x, w') \<Longrightarrow> created_once w' \<and> snapshots_kept (fb_objs w) (fb_objs w')"
    "file_compare_and_swap k g b w = (y, w') \<Longrightarrow> (snapshot_name k \<Longrightarrow> g = None) \<Longrightarrow>
       created_once w' \<and> snapshots_kept (fb_objs w) (fb_objs w')"
proof -
  note i = interfere_kept [OF assms]
  show "created_once w' \<and> snapshots_kept (fb_objs w) (fb_objs w')" if "file_get k w = (x, w')"
    using file_get_frame [OF that] i by (auto simp: created_once_def same_objects_def)
  show "created_once w' \<and> snapshots_kept (fb_objs w) (fb_objs w')"
    if "file_compare_and_swap k g b w = (y, w')" "snapshot_name k \<Longrightarrow> g = None"
  proof -
    have "file_cas_now k g b (fb_interfere w) = (y, w')" using that(1) by (simp add: file_compare_and_swap_def)
    from cas_now_kept [OF _ this that(2)] i show ?thesis
      using snapshots_kept_trans by (auto simp: created_once_def)
  qed
qed

section \<open>Heads of the replicas\<close>

definition cluster_ok :: "libs \<Rightarrow> string set \<Rightarrow> cluster \<Rightarrow> bool" where
  "cluster_ok L N c \<longleftrightarrow> (\<forall>(origin, h) \<in> set (cl_hosts c). store_inv (l_crypto L) (l_snapshots L) N (rh_store h))"

definition cluster_le :: "cluster \<Rightarrow> cluster \<Rightarrow> bool" where
  "cluster_le c c' \<longleftrightarrow>
     (\<forall>origin h. map_of (cl_hosts c) origin = Some h \<longrightarrow>
        (\<exists>h'. map_of (cl_hosts c') origin = Some h' \<and> heads_grow (rh_store h) (rh_store h')))"

lemma cluster_le_refl [simp]: "cluster_le c c"
  by (simp add: cluster_le_def heads_grow_refl)

lemma cluster_le_trans: "cluster_le c c1 \<Longrightarrow> cluster_le c1 c2 \<Longrightarrow> cluster_le c c2"
  unfolding cluster_le_def using heads_grow_trans by meson

text \<open>Calls on a host that only advance its store.\<close>

definition advances :: "libs \<Rightarrow> string set \<Rightarrow> (replica_host, 'a) eff \<Rightarrow> bool" where
  "advances L N m \<longleftrightarrow>
     (\<forall>h. store_inv (l_crypto L) (l_snapshots L) N (rh_store h) \<longrightarrow>
        advanced (l_crypto L) (l_snapshots L) N (rh_store h) (rh_store (snd (m h))))"

lemma send_advances:
  assumes "cluster_ok L N c" "advances L N m" "send origin m c = (r, c')"
  shows "cluster_ok L N c' \<and> cluster_le c c'"
proof -
  have "c' = c\<lparr>cl_net := cl_net c'\<rparr> \<or>
      (\<exists>h. map_of (cl_hosts c) origin = Some h \<and>
        c' = c\<lparr>cl_net := cl_net c', cl_hosts := AList.update origin (snd (m h)) (cl_hosts c)\<rparr>)"
    using assms(3) by (auto simp: send_def Let_def split: list.splits net.splits option.splits prod.splits)
  then show ?thesis
  proof
    assume "c' = c\<lparr>cl_net := cl_net c'\<rparr>"
    then have "cl_hosts c' = cl_hosts c" by (metis cluster.ext_inject cluster.surjective cluster.update_convs(2))
    with assms(1) show ?thesis by (simp add: cluster_ok_def cluster_le_def)
  next
    assume "\<exists>h. map_of (cl_hosts c) origin = Some h \<and>
        c' = c\<lparr>cl_net := cl_net c', cl_hosts := AList.update origin (snd (m h)) (cl_hosts c)\<rparr>"
    then obtain h where h: "map_of (cl_hosts c) origin = Some h"
      and c': "c' = c\<lparr>cl_net := cl_net c', cl_hosts := AList.update origin (snd (m h)) (cl_hosts c)\<rparr>" by blast
    from c' have hosts: "cl_hosts c' = AList.update origin (snd (m h)) (cl_hosts c)"
      by (metis cluster.ext_inject cluster.surjective cluster.update_convs(1,2))
    have "store_inv (l_crypto L) (l_snapshots L) N (rh_store h)"
      using assms(1) map_of_SomeD [OF h] by (auto simp: cluster_ok_def)
    with assms(2) have a: "advanced (l_crypto L) (l_snapshots L) N (rh_store h) (rh_store (snd (m h)))" by (simp add: advances_def)
    have "cluster_ok L N c'"
      unfolding cluster_ok_def hosts
      using assms(1) a by (auto simp: cluster_ok_def advanced_def dest: in_set_update)
    moreover have "cluster_le c c'"
      unfolding cluster_le_def hosts using h a by (auto simp: update_conv' advanced_def grows_def)
    ultimately show ?thesis by simp
  qed
qed

text \<open>A verified capability is the one that was signed, whatever secret the host holds.\<close>

lemma verify_signed:
  assumes "libs_laws L" "verify_any L a' now (access_token L a g) ops = Inr g'"
  shows "g' = g"
proof -
  let ?C = "l_crypto L"
  let ?p = "b64_encode ?C (grant_to_vec (l_grants L) g)"
  let ?s = "b64_encode ?C (hmac_sign ?C (ra_secret a) ?p)"
  have t: "access_token L a g = ?p @ CHR ''.'' # ?s" by (simp add: access_token_def Let_def)
  have "split_once (CHR ''.'') (access_token L a g) = Some (?p, ?s)"
    unfolding t using assms(1) by (intro split_once_append b64_no_dot) (simp add: libs_laws_def)
  with assms show ?thesis
    by (auto simp: verify_any_def result_simps libs_laws_def b64_decode_encode grant_codec_laws_def)
qed

lemma authority_signed:
  assumes "libs_laws L" "grpc_request (access_token L a g) = Inr hdr" "authority L now (Some hdr) operation h b g'"
  shows "g' = g"
proof -
  have "grpc_token (Some hdr) = Inr (access_token L a g)" using grpc_request_token [OF assms(1), of a g] assms(2) by auto
  with assms(3) obtain access where "verify_any L access now (access_token L a g) [operation] = Inr g'"
    by (auto simp: authority_def)
  from verify_signed [OF assms(1) this] show ?thesis .
qed

lemma advanced_self: "store_inv C J N s \<Longrightarrow> same_contents s s' \<Longrightarrow> advanced C J N s s'"
  unfolding same_contents_def by (metis advanced_unwritten unwritten_fault unwritten_refl)

lemma advances_write:
  assumes L: "libs_laws L" and N: "names_ok (l_crypto L) N"
    and "grpc_request (access_token L a g) = Inr hdr" "gr_stream g = Some st" "rs_prefix st \<in> N"
  shows "advances L N (server_write L now (Some hdr) b)"
  unfolding advances_def
proof (intro allI impI)
  fix h :: replica_host assume inv: "store_inv (l_crypto L) (l_snapshots L) N (rh_store h)"
  show "advanced (l_crypto L) (l_snapshots L) N (rh_store h) (rh_store (snd (server_write L now (Some hdr) b h)))"
    using server_write_cases [of L now "Some hdr" b h]
  proof
    assume "snd (server_write L now (Some hdr) b h) = h"
    then show ?thesis using advanced_refl [OF inv] by simp
  next
    assume "\<exists>bd g' st'. authority L now (Some hdr) ''APPEND'' h bd g' \<and> gr_stream g' = Some st' \<and>
      snd (server_write L now (Some hdr) b h) = h\<lparr>rh_store := snd (store_append (l_crypto L) (l_snapshots L) st' b (rh_store h))\<rparr>"
    then have "snd (server_write L now (Some hdr) b h) = h\<lparr>rh_store := snd (store_append (l_crypto L) (l_snapshots L) st b (rh_store h))\<rparr>"
      using authority_signed [OF L assms(3)] assms(4) by fastforce
    with serve_advanced [OF inv N, of "Append st b"] assms(5) show ?thesis by simp
  qed
qed

lemma advances_initialize:
  assumes L: "libs_laws L" and N: "names_ok (l_crypto L) N"
    and "grpc_request (access_token L a g) = Inr hdr" "gr_object g \<in> N"
  shows "advances L N (server_initialize L now (Some hdr))"
  unfolding advances_def
proof (intro allI impI)
  fix h :: replica_host assume inv: "store_inv (l_crypto L) (l_snapshots L) N (rh_store h)"
  consider "snd (server_initialize L now (Some hdr) h) = h"
    | bd g' where "authority L now (Some hdr) ''INITIALIZE_SESSION'' h bd g'"
      "snd (server_initialize L now (Some hdr) h) = h\<lparr>rh_store := snd (store_initialize_session (l_crypto L) (gr_object g') (rh_store h))\<rparr>"
    using server_initialize_cases [of L now "Some hdr" h] by blast
  then show "advanced (l_crypto L) (l_snapshots L) N (rh_store h) (rh_store (snd (server_initialize L now (Some hdr) h)))"
  proof cases
    case 1 then show ?thesis using advanced_refl [OF inv] by simp
  next
    case 2
    have "g' = g" by (rule authority_signed [OF L assms(3) 2(1)])
    with 2(2) serve_advanced [OF inv N, of "Initialize (gr_object g)"] assms(4) show ?thesis by simp
  qed
qed

lemma advances_head: "advances L N (server_head L now hdr)"
  using server_head_contents advanced_self by (auto simp: advances_def)

lemma write_appended:
  assumes L: "libs_laws L" and "grpc_request (access_token L a g) = Inr hdr" "gr_stream g = Some st"
    and "server_write L now (Some hdr) b h = (Inr x, h')"
  shows "store_append (l_crypto L) (l_snapshots L) st b (rh_store h) = (Inr (), rh_store h')"
proof -
  from assms(4) obtain g' st' s where "authorize L now (Some hdr) [''APPEND''] h = Inr g'" "gr_stream g' = Some st'"
    "store_append (l_crypto L) (l_snapshots L) st' b (rh_store h) = (Inr (), s)" "h' = h\<lparr>rh_store := s\<rparr>"
    by (auto simp: server_write_def eff_simps stream_authority_def on_store_def split: option.splits)
  moreover from this(1) obtain bd where "authority L now (Some hdr) ''APPEND'' h bd g'" by (auto simp: authorize_Ok)
  ultimately show ?thesis using authority_signed [OF L assms(2)] assms(3) by auto
qed

section \<open>The environment of a host\<close>

definition timed_transport :: "node_env state_transport \<Rightarrow> timed_env state_transport" where
  "timed_transport T = \<lparr>t_read = (\<lambda>url. timed (t_read T url)), t_write = (\<lambda>url bytes. timed (t_write T url bytes))\<rparr>"

definition replicas_ok :: "libs \<Rightarrow> string set \<Rightarrow> timed_env \<Rightarrow> bool" where
  "replicas_ok L N e \<longleftrightarrow> created_once (ne_bucket (te_node e)) \<and> cluster_ok L N (ne_cluster (te_node e))"

definition env_extends :: "timed_env \<Rightarrow> timed_env \<Rightarrow> bool" where
  "env_extends e e' \<longleftrightarrow>
     snapshots_kept (node_objs (te_node e)) (node_objs (te_node e')) \<and>
     cluster_le (ne_cluster (te_node e)) (ne_cluster (te_node e'))"

definition replica_holds :: "libs \<Rightarrow> string \<Rightarrow> replica_stream \<Rightarrow> snapshot_ref \<Rightarrow> timed_env \<Rightarrow> bool" where
  "replica_holds L url st r e \<longleftrightarrow>
     (\<exists>origin h hd. replica_origin (l_url L) url = Some origin \<and>
        map_of (cl_hosts (ne_cluster (te_node e))) origin = Some h \<and>
        map_of (st_streams (rh_store h)) (rs_prefix st) = Some hd \<and> sth_stream hd = st \<and> latest_le (Some r) (sth_latest hd))"

definition bucket_holds :: "string \<Rightarrow> bytes \<Rightarrow> timed_env \<Rightarrow> bool" where
  "bucket_holds k b e \<longleftrightarrow> snapshot_name k \<and> (\<exists>ob. node_objs (te_node e) k = Some ob \<and> obj_bytes ob = b)"

lemma pass_node [simp]: "te_node (pass e) = te_node e"
  by (auto simp: pass_def split: list.splits)

lemma timed_keeps:
  assumes "\<And>n r n'. created_once (ne_bucket n) \<Longrightarrow> cluster_ok L N (ne_cluster n) \<Longrightarrow> m n = (r, n') \<Longrightarrow>
    created_once (ne_bucket n') \<and> cluster_ok L N (ne_cluster n') \<and> snapshots_kept (node_objs n) (node_objs n') \<and>
    cluster_le (ne_cluster n) (ne_cluster n')"
  shows "keeps (\<lambda>e. replicas_ok L N e \<and> env_extends e0 e) (timed m)"
  unfolding keeps_conv
proof (intro allI impI)
  fix e r e' assume e: "replicas_ok L N e \<and> env_extends e0 e" and run: "timed m e = (r, e')"
  obtain x n where n: "m (te_node e) = (x, n)" by fastforce
  with run have e': "te_node e' = n" by (auto simp: timed_def)
  from assms [OF _ _ n] e have "created_once (ne_bucket n)" "cluster_ok L N (ne_cluster n)"
    "snapshots_kept (node_objs (te_node e)) (node_objs n)" "cluster_le (ne_cluster (te_node e)) (ne_cluster n)"
    by (simp_all add: replicas_ok_def)
  with e e' snapshots_kept_trans cluster_le_trans show "replicas_ok L N e' \<and> env_extends e0 e'"
    unfolding replicas_ok_def env_extends_def by blast
qed

lemma keeps_bucket:
  assumes "\<And>w r w'. created_once w \<Longrightarrow> m w = (r, w') \<Longrightarrow> created_once w' \<and> snapshots_kept (fb_objs w) (fb_objs w')"
  shows "keeps (\<lambda>e. replicas_ok L N e \<and> env_extends e0 e) (timed (on_bucket m))"
proof (rule timed_keeps)
  fix n r n' assume n: "created_once (ne_bucket n)" "cluster_ok L N (ne_cluster n)" and "on_bucket m n = (r, n')"
  then obtain w where w: "m (ne_bucket n) = (r, w)" "n' = n\<lparr>ne_bucket := w\<rparr>" by (auto simp: on_bucket_def eff_simps)
  from assms [OF n(1) w(1)] n(2) w(2)
  show "created_once (ne_bucket n') \<and> cluster_ok L N (ne_cluster n') \<and> snapshots_kept (node_objs n) (node_objs n') \<and>
    cluster_le (ne_cluster n) (ne_cluster n')" by (simp add: node_objs_def)
qed

lemma keeps_cluster:
  assumes "\<And>c r c'. cluster_ok L N c \<Longrightarrow> m c = (r, c') \<Longrightarrow> cluster_ok L N c' \<and> cluster_le c c'"
  shows "keeps (\<lambda>e. replicas_ok L N e \<and> env_extends e0 e) (timed (on_cluster m))"
proof (rule timed_keeps)
  fix n r n' assume n: "created_once (ne_bucket n)" "cluster_ok L N (ne_cluster n)" and "on_cluster m n = (r, n')"
  then obtain c where c: "m (ne_cluster n) = (r, c)" "n' = n\<lparr>ne_cluster := c\<rparr>" by (auto simp: on_cluster_def eff_simps)
  from assms [OF n(2) c(1)] n(1) c(2)
  show "created_once (ne_bucket n') \<and> cluster_ok L N (ne_cluster n') \<and> snapshots_kept (node_objs n) (node_objs n') \<and>
    cluster_le (ne_cluster n) (ne_cluster n')" by (simp add: node_objs_def)
qed

section \<open>Calls\<close>

lemma transport_write_ok:
  assumes L: "libs_laws L" and N: "names_ok (l_crypto L) N" and "rs_prefix st \<in> N" "signs L access st m t" "cluster_ok L N c"
    and run: "transport_write L (rt_url t) b c = (r, c')"
  shows "cluster_ok L N c' \<and> cluster_le c c' \<and>
    (is_ok r \<longrightarrow> (\<exists>origin h ref hd. replica_origin (l_url L) (rt_url m) = Some origin \<and> map_of (cl_hosts c') origin = Some h \<and>
       stream_snapshot (l_crypto L) (l_snapshots L) st b = Ok ref \<and>
       map_of (st_streams (rh_store h)) (rs_prefix st) = Some hd \<and> sth_stream hd = st \<and> latest_le (Some ref) (sth_latest hd)))"
proof -
  from assms(4) obtain g where g: "gr_stream g = Some st" "access_url L access (rt_url m) g = Inr (rt_url t)"
    by (auto simp: signs_def)
  obtain origin where o: "replica_origin (l_url L) (rt_url m) = Some origin"
    "capability (l_url L) (rt_url t) = Inr (origin, access_token L access g)"
    using capability_access_url [OF L g(2)] by blast
  obtain hdr where hdr: "grpc_request (access_token L access g) = Inr hdr" using grpc_request_token [OF L] by blast
  obtain y where y: "send origin (server_write L (cl_host_now c) (Some hdr) b) c = (y, c')" "is_ok r = is_ok y"
    using run o(2) hdr
    by (cases "send origin (server_write L (cl_host_now c) (Some hdr) b) c"; cases "fst (send origin (server_write L (cl_host_now c) (Some hdr) b) c)")
      (auto simp: transport_write_def bindE_def)
  note adv = advances_write [OF L N hdr g(1) assms(3)]
  have "\<exists>h ref hd. map_of (cl_hosts c') origin = Some h \<and> stream_snapshot (l_crypto L) (l_snapshots L) st b = Ok ref \<and>
      map_of (st_streams (rh_store h)) (rs_prefix st) = Some hd \<and> sth_stream hd = st \<and> latest_le (Some ref) (sth_latest hd)" if ok: "is_ok r"
  proof -
    from y ok obtain h x h' where h: "map_of (cl_hosts c) origin = Some h" "server_write L (cl_host_now c) (Some hdr) b h = (Inr x, h')"
      "cl_hosts c' = AList.update origin h' (cl_hosts c)"
      by (cases y) (auto simp: send_def Let_def split: list.splits net.splits option.splits prod.splits if_splits)
    have "store_inv (l_crypto L) (l_snapshots L) N (rh_store h)"
      using assms(5) map_of_SomeD [OF h(1)] by (auto simp: cluster_ok_def)
    from tripleD_Ok [OF store_append_spec [OF this N assms(3)] HOL.refl write_appended [OF L hdr g(1) h(2)]]
    obtain ref where "stream_snapshot (l_crypto L) (l_snapshots L) st b = Ok ref" "appended st ref (rh_store h')" by blast
    with h(3) show ?thesis by (auto simp: appended_def update_conv')
  qed
  with send_advances [OF assms(5) adv y(1)] o(1) show ?thesis by blast
qed

lemma peer_initialize_ok:
  assumes L: "libs_laws L" and N: "names_ok (l_crypto L) N" and "sid \<in> N" "cluster_ok L N c"
    and run: "peer_initialize L access peer sid c = (r, c')"
  shows "cluster_ok L N c' \<and> cluster_le c c'"
proof -
  let ?g = "\<lambda>now. peer_grant peer now ''INITIALIZE_SESSION'' sid None"
  have "c' = c \<or> (\<exists>origin now hdr. grpc_request (access_token L access (?g now)) = Inr hdr \<and>
      send origin (server_initialize L (cl_host_now c) (Some hdr)) c = (r, c'))"
    using run
    by (cases r) (auto simp: peer_initialize_def peer_client_def grant_def eff_simps result_simps peer_grant_def
        dest!: capability_access_url [OF L])
  then show ?thesis
    using send_advances [OF assms(4) advances_initialize [OF L N]] assms(3,4) by (auto simp: peer_grant_def)
qed

lemma peer_head_ok:
  assumes "cluster_ok L N c" "peer_head L access peer stream c = (r, c')"
  shows "cluster_ok L N c' \<and> cluster_le c c'"
proof -
  have "c' = c \<or> (\<exists>origin hdr x. send origin (server_head L (cl_host_now c) hdr) c = (x, c'))"
    using assms(2) by (cases r) (auto simp: peer_head_def eff_simps)
  then show ?thesis using send_advances [OF assms(1) advances_head] assms(1) by auto
qed

section \<open>The laws hold\<close>

lemma heads_grow_holds: "replica_holds L u st r e \<Longrightarrow> env_extends e e' \<Longrightarrow> replica_holds L u st r e'"
proof -
  assume "replica_holds L u st r e" "env_extends e e'"
  then obtain origin h hd h' where h: "replica_origin (l_url L) u = Some origin" "map_of (st_streams (rh_store h)) (rs_prefix st) = Some hd"
    "sth_stream hd = st" "latest_le (Some r) (sth_latest hd)" "heads_grow (rh_store h) (rh_store h')"
    "map_of (cl_hosts (ne_cluster (te_node e'))) origin = Some h'" "map_of (cl_hosts (ne_cluster (te_node e))) origin = Some h"
    unfolding replica_holds_def env_extends_def cluster_le_def by blast
  obtain hd' where "map_of (st_streams (rh_store h')) (rs_prefix st) = Some hd'" "sth_stream hd' = sth_stream hd"
    "latest_le (sth_latest hd) (sth_latest hd')" by (rule heads_growD [OF h(5,2)])
  with h(1,3,6) latest_le_trans [OF h(4)] show ?thesis unfolding replica_holds_def by metis
qed

lemma env_extends_refl: "env_extends e e"
  by (simp add: env_extends_def)

lemma env_extends_trans: "env_extends e1 e2 \<Longrightarrow> env_extends e2 e3 \<Longrightarrow> env_extends e1 e3"
  unfolding env_extends_def using snapshots_kept_trans cluster_le_trans by blast

lemma bucket_holds_extends: "bucket_holds k b e \<Longrightarrow> env_extends e e' \<Longrightarrow> bucket_holds k b e'"
  by (auto simp: bucket_holds_def env_extends_def snapshots_kept_def)

lemma session_key_no_snapshot: "\<not> snapshot_name (session_key C host sid)"
  by (simp add: snapshot_name_def session_key_def session_path_def host_path_def)

lemma file_host_replicated:
  assumes L: "libs_laws L" and N: "names_ok (l_crypto L) N" and st: "rs_prefix st \<in> N" "rs_session st \<in> N" "snapshot_name (rs_prefix st)"
    and session: "rs_session st = scope_identity (l_crypto L) scope"
  shows "replicated_host (file_host a L K access origin replicas rounds) (timed_transport (node_transport L)) (replicas_ok L N)
    env_extends (replica_holds L) bucket_holds st scope"
proof -
  let ?H = "file_host a L K access origin replicas rounds" and ?T = "timed_transport (node_transport L)"
  let ?P = "\<lambda>e0 e. replicas_ok L N e \<and> env_extends e0 e"
  have clock: "keeps (?P e0) (timed_clock a)" "keeps (?P e0) (instantE ?H)" for e0
    by (auto simp: keeps_conv timed_clock_def instantE_def file_host_def timed_instant_def replicas_ok_def env_extends_def)
  have cas: "keeps (?P e0) (timed (on_bucket (file_compare_and_swap k g b)))" if "snapshot_name k \<Longrightarrow> g = None" for e0 k g b
    by (rule keeps_bucket) (use bucket_kept(2) that in blast)
  have get: "keeps (?P e0) (timed (on_bucket (file_get k)))" for e0 k by (rule keeps_bucket) (use bucket_kept(1) in blast)
  have nop: "keeps (?P e0) (timed (retE x))" for e0 and x :: "replica_target list" by (rule timed_keeps) simp
  have init: "keeps (?P e0) (timed (on_cluster (peer_initialize L access t (rs_session st))))" for e0 t
    by (rule keeps_cluster) (use peer_initialize_ok [OF L N st(2)] in blast)
  have head: "keeps (?P e0) (timed (on_cluster (peer_head L access t stream)))" for e0 t stream
    by (rule keeps_cluster) (use peer_head_ok in blast)
  have app: "keeps (?P e0) (timed (on_cluster (transport_write L (rt_url t) b)))" if "signs L access st m t" for e0 m t b
    by (rule keeps_cluster) (use transport_write_ok [OF L N st(1) that] in blast)
  have appended: "\<exists>r. stream_snapshot (l_crypto L) (l_snapshots L) st b = Ok r \<and> replica_holds L (rt_url m) st r e'"
    if "signs L access st m t" "replicas_ok L N e" "timed (on_cluster (transport_write L (rt_url t) b)) e = (Inr w, e')" for m t b e w e'
  proof -
    from that(3) obtain c where c: "transport_write L (rt_url t) b (ne_cluster (te_node e)) = (Inr w, c)" "ne_cluster (te_node e') = c"
      by (auto simp: timed_def on_cluster_def zoomE_def split: prod.splits)
    have "cluster_ok L N (ne_cluster (te_node e))" using that(2) by (simp add: replicas_ok_def)
    from transport_write_ok [OF L N st(1) that(1) this c(1)] c(2) show ?thesis by (auto simp: replica_holds_def)
  qed
  have persisted: "bucket_holds k b e'"
    if "starts_with k (rs_prefix st)" "replicas_ok L N e" "replace (rn_authority (hn_runtime ?H)) k None b e = (Inr True, e')" for k b e e'
  proof -
    have wf: "fb_wf (ne_bucket (te_node e))" using that(2) by (simp add: replicas_ok_def created_once_def)
    from that(3) obtain w where "replace file_bucket_ops k None b (ne_bucket (te_node e)) = (Inr True, w)" "ne_bucket (te_node e') = w"
      by (auto simp: replace_def file_host_def timed_runtime_def file_runtime_def node_bucket_def file_bucket_ops_def timed_def
          on_bucket_def zoomE_def bindE_def tryE_def liftE_def split: prod.splits sum.splits if_splits)
    with fb.replace_stored [OF wf] have "\<exists>ob. node_objs (te_node e') k = Some ob \<and> obj_bytes ob = b" by (auto simp: node_objs_def)
    moreover have "snapshot_name k" using that(1) st(3) by (auto simp: snapshot_name_def starts_with_def dest: prefix_order.order_trans)
    ultimately show ?thesis by (simp add: bucket_holds_def)
  qed
  have sel: "rn_authority (hn_runtime ?H) = \<lparr>b_get = (\<lambda>k. timed (on_bucket (file_get k))),
      b_cas = (\<lambda>k g b. timed (on_bucket (file_compare_and_swap k g b))), b_list = (\<lambda>p. timed (on_bucket (file_list p)))\<rparr>"
    "rn_system_clock (hn_runtime ?H) = timed_clock a" "rn_libs (hn_runtime ?H) = L" "rn_access (hn_runtime ?H) = access"
    "f_repair (rn_fleet (hn_runtime ?H)) = (\<lambda>_ _. timed (retE replicas))"
    "p_initialize (rn_peers (hn_runtime ?H)) = (\<lambda>t s. timed (on_cluster (peer_initialize L access t s)))"
    "p_head (rn_peers (hn_runtime ?H)) = (\<lambda>t s. timed (on_cluster (peer_head L access t s)))"
    "t_write ?T = (\<lambda>u b. timed (on_cluster (transport_write L u b)))"
    by (simp_all add: file_host_def timed_runtime_def file_runtime_def node_bucket_def node_peers_def node_transport_def
        timed_transport_def replica_set_def default_repair_def retE_def)
  show ?thesis
    by (unfold_locales, unfold sel bucket_ops.simps)
      (rule env_extends_refl session clock get init head nop | erule (1) env_extends_trans | erule (1) heads_grow_holds
        | erule (1) bucket_holds_extends | erule app | rule cas, simp add: session_key_no_snapshot
        | erule (2) appended | erule (2) persisted [unfolded sel])+
qed

section \<open>Properties\<close>

text \<open>A replica serves a stream from a snapshot on: its head is at least as new, and the bytes it names are stored and verify.\<close>

definition replica_serves :: "libs \<Rightarrow> string \<Rightarrow> replica_stream \<Rightarrow> snapshot_ref \<Rightarrow> timed_env \<Rightarrow> bool" where
  "replica_serves L url st r e \<longleftrightarrow>
     (\<exists>origin h r' b'. replica_origin (l_url L) url = Some origin \<and>
        map_of (cl_hosts (ne_cluster (te_node e))) origin = Some h \<and>
        map_of (st_streams (rh_store h)) (rs_prefix st) = Some \<lparr>sth_stream = st, sth_latest = Some r'\<rparr> \<and>
        latest_le (Some r) (Some r') \<and> stored (l_crypto L) (rh_store h) (sr_object r') b' \<and>
        stream_snapshot (l_crypto L) (l_snapshots L) st b' = Ok r')"

lemma holds_serves:
  assumes "replicas_ok L N e" "replica_holds L u st r e" shows "replica_serves L u st r e"
proof -
  from assms(2) obtain origin h hd where h: "replica_origin (l_url L) u = Some origin"
    "map_of (cl_hosts (ne_cluster (te_node e))) origin = Some h" "map_of (st_streams (rh_store h)) (rs_prefix st) = Some hd"
    "sth_stream hd = st" "latest_le (Some r) (sth_latest hd)" by (auto simp: replica_holds_def)
  obtain r' where r': "sth_latest hd = Some r'" using h(5) by (cases "sth_latest hd") (auto simp: latest_le_def)
  then have hd: "hd = \<lparr>sth_stream = st, sth_latest = Some r'\<rparr>" using h(4) by simp
  have "store_inv (l_crypto L) (l_snapshots L) N (rh_store h)"
    using assms(1) map_of_SomeD [OF h(2)] by (auto simp: replicas_ok_def cluster_ok_def)
  then obtain b' where "stored (l_crypto L) (rh_store h) (sr_object r') b'" "stream_snapshot (l_crypto L) (l_snapshots L) st b' = Ok r'"
    using h(3,4) r' unfolding store_inv_def heads_inv_def by blast
  with h r' hd show ?thesis unfolding replica_serves_def by auto
qed

text \<open>The writes of the actor of a stream, and changes elsewhere that only add to what is stored.\<close>

fun legal_event :: "libs \<Rightarrow> string set \<Rightarrow> replica_stream \<Rightarrow> timed_env replication_event \<Rightarrow> bool" where
  "legal_event L N st (Write plan b) =
     (wp_stream plan = st \<and>
      (\<forall>r. stream_snapshot (l_crypto L) (l_snapshots L) st b = Ok r \<longrightarrow> sr_state_version r = wp_state_version plan))"
| "legal_event L N st (Elsewhere f) = (\<forall>e. replicas_ok L N e \<longrightarrow> replicas_ok L N (f e) \<and> env_extends e (f e))"
| "legal_event L N st _ = True"

definition stream_of :: "libs \<Rightarrow> string set \<Rightarrow> replica_scope \<Rightarrow> replica_stream \<Rightarrow> bool" where
  "stream_of L N scope st \<longleftrightarrow>
     libs_laws L \<and> names_ok (l_crypto L) N \<and> rs_prefix st \<in> N \<and> rs_session st \<in> N \<and> snapshot_name (rs_prefix st) \<and>
     rs_session st = scope_identity (l_crypto L) scope"

lemma stream_replicated:
  assumes "stream_of L N scope st"
  shows "replicated_host (file_host a L K access origin replicas rounds) (timed_transport (node_transport L))
    (replicas_ok L N) env_extends (replica_holds L) bucket_holds st scope"
  using assms unfolding stream_of_def by (elim conjE) (rule file_host_replicated)

abbreviation rp_env :: "'e actor_replication \<Rightarrow> 'e" where "rp_env p \<equiv> sto_env (hs_runtime (rp_storage p))"

lemma replication_run_inv:
  assumes "stream_of L N scope st" "H = file_host a L K access origin replicas rounds" "T = timed_transport (node_transport L)"
    and "replicas_ok L N (sto_env (hs_runtime s))" "local_replica_members (hn_runtime H) scope (hs_runtime s) = []"
    and "list_all (legal_event L N st) evs"
  shows "replicated_host.replication_inv H (replicas_ok L N) (replica_holds L) bucket_holds st scope
    (replication_run H T evs (start_replication H scope s))"
proof -
  have rep: "replicated_host H T (replicas_ok L N) env_extends (replica_holds L) bucket_holds st scope"
    unfolding assms(2,3) by (rule stream_replicated [OF assms(1)])
  have L: "rn_libs (hn_runtime H) = L" using assms(2) by (simp add: file_host_def timed_runtime_def file_runtime_def)
  have ev: "replicated_host.event_ok H (replicas_ok L N) env_extends st ev" if "legal_event L N st ev" for ev
    using that by (cases ev) (simp_all add: replicated_host.event_ok.simps [OF rep] replicated_host.known_def [OF rep] L)
  show ?thesis
    by (rule replicated_host.run_inv [OF rep replicated_host.start_inv [OF rep]])
      (use assms(4-6) ev in \<open>auto simp: list_all_iff\<close>)
qed

text \<open>
  C6: An acknowledged write is durable. A host writes through any schedule of uploads, appends, first replica sets and
  repairs, with lost requests, failing I/O and other writers. A write that was acknowledged as stored is in the bucket under
  its name; one acknowledged as replicated is held by a nonempty set of distinct replica hosts: the head of
  each is at least as new as the snapshot, and the bytes it names are stored there and verify.
\<close>

theorem acknowledged_write_durable:
  assumes "stream_of L N scope st" "H = file_host a L K access origin replicas rounds" "T = timed_transport (node_transport L)"
    and "replicas_ok L N (sto_env (hs_runtime s))" "local_replica_members (hn_runtime H) scope (hs_runtime s) = []"
    and "list_all (legal_event L N st) evs" "p = replication_run H T evs (start_replication H scope s)"
    and "((plan, b), Ok w) \<in> set (rp_replies p)"
  shows "w = Written \<and> bucket_holds (wp_object_name plan) b (rp_env p) \<or>
    w = Replicated \<and>
    (\<exists>(ms :: replica_target list) r. ms \<noteq> [] \<and> distinct (map rt_host_id ms) \<and> stream_snapshot (l_crypto L) (l_snapshots L) st b = Ok r \<and>
       (\<forall>m \<in> set ms. replica_serves L (rt_url m) st r (rp_env p)))"
proof -
  have rep: "replicated_host H T (replicas_ok L N) env_extends (replica_holds L) bucket_holds st scope"
    unfolding assms(2,3) by (rule stream_replicated [OF assms(1)])
  have L: "rn_libs (hn_runtime H) = L" using assms(2) by (simp add: file_host_def timed_runtime_def file_runtime_def)
  note inv = replication_run_inv [OF assms(1-6), folded assms(7), unfolded replicated_host.replication_inv_def [OF rep]]
  from inv assms(8) have "replicated_host.acknowledged H (replica_holds L) bucket_holds st plan b w (rp_env p)"
    by (auto simp: replicated_host.replies_ok_def [OF rep])
  moreover from inv have "replicas_ok L N (rp_env p)" by (elim conjE)
  note serves = holds_serves [OF this]
  ultimately show ?thesis
    unfolding replicated_host.acknowledged_def [OF rep] replicated_host.holds_all_def [OF rep] L
    by (elim disjE conjE exE) (rule disjI1, simp, rule disjI2, blast intro: serves)
qed


text \<open>A host whose only replica receives a write before the bucket does.\<close>

definition tag_crypto :: crypto where
  "tag_crypto = hex_crypto\<lparr>hmac_sign := (\<lambda>k b. take 4 k)\<rparr>"

definition tag_libs :: libs where
  "tag_libs = demo_libs\<lparr>l_crypto := tag_crypto\<rparr>"

definition demo_held :: ownership where
  "demo_held = \<lparr>ow_inventory = default_inventory,
     ow_lease = \<lparr>hl_id = ''h'', hl_session_id = ''s'', hl_route = ''http://h'', hl_expires_at_ms = 100000\<rparr>,
     ow_mutation = ''m0'', ow_actor = sc_actor demo_scope, ow_epoch = 1, ow_region = ''eu'', ow_base = None\<rparr>"

definition demo_log :: replica_stream where
  "demo_log = (case ownership_stream tag_crypto demo_held of Inr st \<Rightarrow> st)"

definition demo_log_names :: "string set" where
  "demo_log_names = {rs_prefix demo_log, rs_session demo_log}"

definition demo_replicating :: "timed_env host_storage" where
  "demo_replicating =
     \<lparr>hs_runtime = \<lparr>sto_owned = [storage_key (sc_actor demo_scope) \<mapsto> demo_held], sto_sessions = Map.empty,
        sto_env = \<lparr>te_now = 1000000000, te_delays = [],
          te_node = demo_node\<lparr>ne_bucket := new_file_bucket, ne_cluster := demo_cluster\<rparr>\<rparr>\<rparr>,
      hs_host = ''h'', hs_session = ''s'', hs_region = ''eu'', hs_actor = Some (sc_actor demo_scope), hs_new_actor = False,
      hs_activation = None, hs_fence = \<lparr>lf_deadline = Some 90000000000, lf_fenced = False\<rparr>,
      hs_lease = Some (ow_lease demo_held), hs_notified = 0\<rparr>"

definition demo_log_plan :: write_plan where
  "demo_log_plan = \<lparr>wp_stream = demo_log, wp_state_version = 1, wp_object_name = stream_object demo_log 1,
     wp_expires_at_ms = 50000, wp_replication = None\<rparr>"

abbreviation demo_writing_host :: "timed_env host_node" where
  "demo_writing_host \<equiv> file_host (0, 0) tag_libs json_codec demo_access ''o'' [demo_peer] 3"

definition demo_events :: "timed_env replication_event list" where
  "demo_events = [Prepared [Inr \<lparr>mb_scope = demo_scope, mb_replicas = [demo_peer]\<rparr>], Write demo_log_plan [CHR 0x01], Turn (Appended 0)]"

definition demo_written :: "timed_env actor_replication" where
  "demo_written = replication_run demo_writing_host (timed_transport (node_transport tag_libs)) demo_events
     (start_replication demo_writing_host demo_scope demo_replicating)"

lemma tag_crypto_simps: "sha256 tag_crypto x = CHR ''#'' # x" "b64_laws tag_crypto" "l_crypto tag_libs = tag_crypto"
  using hex_crypto_laws by (simp_all add: tag_crypto_def tag_libs_def hex_crypto_def b64_laws_def)

lemma demo_stream_of: "stream_of tag_libs demo_log_names demo_scope demo_log"
proof -
  have "\<not> prefix (rs_prefix demo_log) (rs_session demo_log)" "\<not> prefix (rs_session demo_log) (rs_prefix demo_log)" by code_simp+
  then have "names_ok tag_crypto demo_log_names"
    by (auto simp: names_ok_def digest_ok_def tag_crypto_simps demo_log_names_def inj_on_def)
  moreover have "snapshot_name (rs_prefix demo_log)" "rs_session demo_log = scope_identity tag_crypto demo_scope" by code_simp+
  moreover have "libs_laws tag_libs" using demo_libs_laws tag_crypto_simps by (simp add: libs_laws_def tag_libs_def)
  ultimately show ?thesis by (simp add: stream_of_def tag_crypto_simps demo_log_names_def)
qed

lemma demo_replicas_ok: "replicas_ok tag_libs demo_log_names (sto_env (hs_runtime demo_replicating))"
proof -
  let ?s = "empty_store\<lparr>st_capacity := 100\<rparr>" and ?x = "rs_session demo_log" and ?J = "l_snapshots tag_libs"
  have ok: "names_ok tag_crypto demo_log_names" and x: "?x \<in> demo_log_names"
    using demo_stream_of unfolding stream_of_def tag_crypto_simps by blast+
  have "store_inv tag_crypto ?J demo_log_names (snd (store_initialize_session tag_crypto ?x ?s))"
    using serve_advanced [OF store_inv_empty [where J = ?J and c = 100] ok, of "Initialize ?x"] x
    by (simp add: advanced_def)
  moreover have "rh_store demo_replica = snd (store_initialize_session tag_crypto ?x ?s)" by code_simp
  ultimately show ?thesis
    by (simp add: replicas_ok_def demo_replicating_def demo_cluster_def cluster_ok_def created_once_def fb_wf_def
        new_file_bucket_def tag_crypto_simps)
qed

definition demo_outcome :: "timed_env actor_replication \<Rightarrow> bool" where
  "demo_outcome p \<longleftrightarrow>
     list_ex (\<lambda>((plan, b), w). b = [CHR 0x01] \<and> w = Inr Replicated) (rp_replies p) \<and>
     (case rp_latest p of Some (plan, b) \<Rightarrow> wp_state_version plan = 1 | None \<Rightarrow> False) \<and>
     demo_peer \<in> set (local_replica_members (hn_runtime demo_writing_host) demo_scope (hs_runtime (rp_storage p)))"

lemma demo_run_written: "demo_outcome demo_written"
  by code_simp

lemma demo_legal: "list_all (legal_event tag_libs demo_log_names demo_log) demo_events"
proof -
  have "case stream_snapshot (l_crypto tag_libs) (l_snapshots tag_libs) demo_log [CHR 0x01] of Inr r \<Rightarrow> sr_state_version r = 1 | Inl _ \<Rightarrow> True"
    by code_simp
  then show ?thesis by (auto simp: demo_events_def demo_log_plan_def)
qed

text \<open>The host of the example instantiates the contract of a replicated host.\<close>

interpretation demo_writer: replicated_host demo_writing_host "timed_transport (node_transport tag_libs)"
  "replicas_ok tag_libs demo_log_names" env_extends "replica_holds tag_libs" bucket_holds demo_log demo_scope
  by (rule stream_replicated [OF demo_stream_of])

theorem acknowledged_write_durable_witness:
  "\<exists>plan ms r. ((plan, [CHR 0x01]), Ok Replicated) \<in> set (rp_replies demo_written) \<and> ms \<noteq> [] \<and>
     stream_snapshot tag_crypto (l_snapshots tag_libs) demo_log [CHR 0x01] = Ok r \<and>
     list_all (\<lambda>m :: replica_target. replica_serves tag_libs (rt_url m) demo_log r (rp_env demo_written)) ms"
proof -
  from demo_run_written obtain plan where w: "((plan, [CHR 0x01]), Ok Replicated) \<in> set (rp_replies demo_written)"
    by (auto simp: demo_outcome_def list_ex_iff)
  have m: "local_replica_members (hn_runtime demo_writing_host) demo_scope (hs_runtime demo_replicating) = []"
    by (simp add: local_replica_members_def demo_replicating_def)
  from acknowledged_write_durable [OF demo_stream_of refl refl demo_replicas_ok m demo_legal demo_written_def w]
  obtain ms :: "replica_target list" and r where "ms \<noteq> []" "stream_snapshot tag_crypto (l_snapshots tag_libs) demo_log [CHR 0x01] = Ok r"
    "\<forall>m \<in> set ms. replica_serves tag_libs (rt_url m) demo_log r (rp_env demo_written)"
    by (auto simp: tag_crypto_simps)
  with w show ?thesis by (auto simp: list_all_iff)
qed


end
