(* ===== verification/Spec2Isabelle.thy ===== *)
theory Spec2Isabelle
  imports Executor_Safety Replicated_Files
begin

text \<open>
  A verification development of the durable actor runtime.
\<close>

end
